(* ===== verification/Mc_Prelude.thy ===== *)
theory Mc_Prelude
  imports Main "HOL-Library.Word"
begin

section \<open>Prelude: ordered containers, integer conversions, fact collections\<close>

text \<open>
  What every component of the development shares.  The program keeps its data in
  \<^verbatim>\<open>std::map\<close> and \<^verbatim>\<open>std::set\<close>; both are ordered containers with unique keys, and the
  model of both is the strictly sorted association list \<open>smap\<close>, whose order of iteration is
  the one of the C++ iterators.  The interface locale \<open>ordered_container\<close> states the laws
  of lookup, insertion and removal the components rely on; it is interpreted on \<open>smap\<close> at
  the end of this theory.  The collections \<open>smap_laws\<close> and \<open>model_defs\<close> carry the
  component proofs.
\<close>

named_theorems smap_laws \<open>laws of lookup, insertion and removal\<close>
named_theorems model_defs \<open>definitions of small operations that proofs unfold together\<close>

subsection \<open>Ordered containers\<close>

type_synonym ('k, 'v) smap = "('k \<times> 'v) list"

definition smap_ok :: "('k::linorder, 'v) smap \<Rightarrow> bool" where
  "smap_ok m \<longleftrightarrow> sorted_wrt (<) (map fst m)"

definition sm_keys :: "('k, 'v) smap \<Rightarrow> 'k set" where
  "sm_keys m = fst ` set m"

definition sm_mem :: "'k \<Rightarrow> ('k, 'v) smap \<Rightarrow> bool" where
  "sm_mem k m \<longleftrightarrow> map_of m k \<noteq> None"

text \<open>\<^verbatim>\<open>insert\<close> of the standard containers: an element whose key is present is kept.\<close>

fun sm_insert :: "'k::linorder \<Rightarrow> 'v \<Rightarrow> ('k, 'v) smap \<Rightarrow> ('k, 'v) smap" where
  "sm_insert k v [] = [(k, v)]"
| "sm_insert k v ((k', v') # m) =
     (if k < k' then (k, v) # (k', v') # m
      else if k = k' then (k', v') # m
      else (k', v') # sm_insert k v m)"

text \<open>Assignment through an iterator or \<^verbatim>\<open>operator[]\<close>: the value is overwritten.\<close>

fun sm_assign :: "'k::linorder \<Rightarrow> 'v \<Rightarrow> ('k, 'v) smap \<Rightarrow> ('k, 'v) smap" where
  "sm_assign k v [] = [(k, v)]"
| "sm_assign k v ((k', v') # m) =
     (if k < k' then (k, v) # (k', v') # m
      else if k = k' then (k, v) # m
      else (k', v') # sm_assign k v m)"

definition sm_erase :: "'k \<Rightarrow> ('k, 'v) smap \<Rightarrow> ('k, 'v) smap" where
  "sm_erase k m = filter (\<lambda>e. fst e \<noteq> k) m"

lemma smap_ok_Nil [simp, intro]: "smap_ok []"
  by (simp add: smap_ok_def)

lemma smap_ok_Cons [simp]:
  "smap_ok (e # m) \<longleftrightarrow> (\<forall>k \<in> sm_keys m. fst e < k) \<and> smap_ok m"
  by (auto simp: smap_ok_def sm_keys_def)

lemma sm_keys_Nil [simp]: "sm_keys [] = {}"
  by (simp add: sm_keys_def)

lemma sm_keys_Cons [simp]: "sm_keys (e # m) = insert (fst e) (sm_keys m)"
  by (simp add: sm_keys_def)

lemma sm_keys_dom: "sm_keys m = dom (map_of m)"
  by (simp add: sm_keys_def dom_map_of_conv_image_fst)

lemma finite_sm_keys [simp]: "finite (sm_keys m)"
  by (simp add: sm_keys_def)

lemma sm_mem_keys [simp]: "sm_mem k m \<longleftrightarrow> k \<in> sm_keys m"
  by (auto simp: sm_mem_def sm_keys_dom)

lemma sm_keys_empty_iff [simp]: "sm_keys m = {} \<longleftrightarrow> m = []"
  by (simp add: sm_keys_def)

lemma map_of_None_keys: "map_of m k = None \<longleftrightarrow> k \<notin> sm_keys m"
  by (auto simp: sm_keys_dom)

lemma smap_ok_distinct: "smap_ok m \<Longrightarrow> distinct (map fst m)"
  by (simp add: smap_ok_def strict_sorted_iff)

lemma smap_elem_lookup: "smap_ok m \<Longrightarrow> (k, v) \<in> set m \<longleftrightarrow> map_of m k = Some v"
  by (simp add: smap_ok_distinct)

lemma sm_keys_insert [simp]: "sm_keys (sm_insert k v m) = insert k (sm_keys m)"
  by (induction m rule: sm_insert.induct) auto

lemma sm_keys_assign [simp]: "sm_keys (sm_assign k v m) = insert k (sm_keys m)"
  by (induction m rule: sm_assign.induct) auto

lemma sm_keys_erase [simp]: "sm_keys (sm_erase k m) = sm_keys m - {k}"
  by (auto simp: sm_keys_def sm_erase_def)

lemma smap_ok_insert [simp, intro]: "smap_ok m \<Longrightarrow> smap_ok (sm_insert k v m)"
  by (induction m rule: sm_insert.induct) auto

lemma smap_ok_assign [simp, intro]: "smap_ok m \<Longrightarrow> smap_ok (sm_assign k v m)"
  by (induction m rule: sm_assign.induct) auto

lemma smap_ok_filter [simp, intro]: "smap_ok m \<Longrightarrow> smap_ok (filter P m)"
  by (auto simp: smap_ok_def sorted_wrt_map sorted_wrt_filter)

lemma smap_ok_erase [simp, intro]: "smap_ok m \<Longrightarrow> smap_ok (sm_erase k m)"
  by (simp add: sm_erase_def)

lemma lookup_insert [smap_laws]:
  "smap_ok m \<Longrightarrow> map_of (sm_insert k v m) k' =
     (if k' = k \<and> map_of m k = None then Some v else map_of m k')"
proof (induction m)
  case Nil
  show ?case by simp
next
  case (Cons e m)
  obtain a b where e: "e = (a, b)" by (cases e)
  have "k < a \<Longrightarrow> map_of m k = None"
    using Cons.prems by (auto simp: e map_of_None_keys)
  with Cons show ?case by (auto simp: e)
qed

lemma lookup_assign [smap_laws]:
  "smap_ok m \<Longrightarrow> map_of (sm_assign k v m) k' = (if k' = k then Some v else map_of m k')"
  by (induction m) auto

lemma lookup_erase [smap_laws]: "map_of (sm_erase k m) k' = (if k' = k then None else map_of m k')"
  by (induction m) (auto simp: sm_erase_def)

text \<open>A strictly sorted list is determined by what lookup returns.\<close>

lemma smap_ext_aux:
  assumes "smap_ok ((k, v) # m)" and "smap_ok ((k', v') # m')"
    and "map_of ((k, v) # m) = map_of ((k', v') # m')"
  shows "k = k' \<and> v = v' \<and> map_of m = map_of m'"
proof -
  have keys: "insert k (sm_keys m) = insert k' (sm_keys m')"
    using arg_cong [OF assms(3), of dom] by (simp add: sm_keys_dom)
  have kk: "k = k'"
  proof (rule ccontr)
    assume "k \<noteq> k'"
    with keys have "k \<in> sm_keys m'" and "k' \<in> sm_keys m" by auto
    with assms(1,2) have "k' < k" and "k < k'" by auto
    then show False by simp
  qed
  have "v = v'" using fun_cong [OF assms(3), of k] kk by simp
  moreover have "map_of m x = map_of m' x" for x
  proof (cases "x = k")
    case True
    with assms(1,2) kk have "x \<notin> sm_keys m" and "x \<notin> sm_keys m'" by auto
    then show ?thesis by (metis map_of_None_keys)
  next
    case False
    with fun_cong [OF assms(3), of x] kk show ?thesis by simp
  qed
  ultimately show ?thesis using kk by auto
qed

lemma smap_ext: "smap_ok m \<Longrightarrow> smap_ok m' \<Longrightarrow> map_of m = map_of m' \<Longrightarrow> m = m'"
proof (induction m arbitrary: m')
  case Nil
  then have "sm_keys m' = {}" by (simp add: sm_keys_dom)
  then show ?case by simp
next
  case (Cons e m)
  obtain k v where e: "e = (k, v)" by (cases e)
  have "sm_keys m' \<noteq> {}"
    using fun_cong [OF Cons.prems(3), of k] by (auto simp: e)
  then obtain k' v' n where m': "m' = (k', v') # n" by (cases m') auto
  from smap_ext_aux [of k v m k' v' n] Cons.prems have "k = k' \<and> v = v' \<and> map_of m = map_of n"
    by (simp only: e m')
  with Cons.IH [of n] Cons.prems show ?case by (simp add: e m')
qed

subsection \<open>The interface of an ordered container\<close>

text \<open>
  The laws a client of \<^verbatim>\<open>std::map\<close>/\<^verbatim>\<open>std::set\<close> relies on.  The range operations the
  program builds from them (\<^verbatim>\<open>insert(first, last)\<close> and the element-wise erase of
  \<^verbatim>\<open>operator-=\<close>) are verified once, inside the locale.
\<close>

locale ordered_container =
  fixes lookup :: "'m \<Rightarrow> 'k \<Rightarrow> 'v option"
    and ins :: "'k \<Rightarrow> 'v \<Rightarrow> 'm \<Rightarrow> 'm"
    and del :: "'k \<Rightarrow> 'm \<Rightarrow> 'm"
    and ok :: "'m \<Rightarrow> bool"
  assumes law_ins: "ok m \<Longrightarrow> lookup (ins k v m) k' =
      (if k' = k \<and> lookup m k = None then Some v else lookup m k')"
    and law_del: "ok m \<Longrightarrow> lookup (del k m) k' = (if k' = k then None else lookup m k')"
    and law_ok_ins: "ok m \<Longrightarrow> ok (ins k v m)"
    and law_ok_del: "ok m \<Longrightarrow> ok (del k m)"
begin

lemma ins_range:
  "ok m \<Longrightarrow> ok (fold (\<lambda>e. ins (fst e) (snd e)) xs m) \<and>
     lookup (fold (\<lambda>e. ins (fst e) (snd e)) xs m) k =
       (case lookup m k of Some v \<Rightarrow> Some v | None \<Rightarrow> map_of xs k)"
  by (induction xs arbitrary: m) (auto simp: law_ins law_ok_ins split: option.splits)

lemma del_range:
  "ok m \<Longrightarrow> ok (fold (\<lambda>e. del (fst e)) xs m) \<and>
     lookup (fold (\<lambda>e. del (fst e)) xs m) k = (if k \<in> fst ` set xs then None else lookup m k)"
  by (induction xs arbitrary: m) (auto simp: law_del law_ok_del)

lemma ins_after_del: "ok m \<Longrightarrow> lookup (ins k v (del k m)) k = Some v"
  by (simp add: law_ins law_del law_ok_del)

end

interpretation sm: ordered_container "map_of :: ('k::linorder, 'v) smap \<Rightarrow> 'k \<Rightarrow> 'v option"
  sm_insert sm_erase smap_ok
  by unfold_locales (auto simp: lookup_insert lookup_erase)

subsection \<open>Values of a container\<close>

text \<open>Writing the mutable part of every element, keys untouched.\<close>

definition sm_map :: "('k \<Rightarrow> 'v \<Rightarrow> 'w) \<Rightarrow> ('k, 'v) smap \<Rightarrow> ('k, 'w) smap" where
  "sm_map f m = map (\<lambda>e. (fst e, f (fst e) (snd e))) m"

lemma sm_keys_map [simp]: "sm_keys (sm_map f m) = sm_keys m"
  by (force simp: sm_keys_def sm_map_def)

lemma smap_ok_map [simp]: "smap_ok (sm_map f m) \<longleftrightarrow> smap_ok m"
  by (simp add: smap_ok_def sm_map_def comp_def)

lemma lookup_map [smap_laws]: "map_of (sm_map f m) k = map_option (f k) (map_of m k)"
  by (induction m) (auto simp: sm_map_def)

lemma sm_map_Nil [simp]: "sm_map f [] = []"
  by (simp add: sm_map_def)

lemma sm_map_empty_iff [simp]: "sm_map f m = [] \<longleftrightarrow> m = []"
  by (simp add: sm_map_def)

lemma sm_map_set: "(k, w) \<in> set (sm_map f m) \<longleftrightarrow> (\<exists>v. (k, v) \<in> set m \<and> w = f k v)"
  by (force simp: sm_map_def)

lemma lookup_filter_in [smap_laws]:
  "map_of (filter (\<lambda>e. fst e \<in> K) m) k = (if k \<in> K then map_of m k else None)"
  by (induction m) auto

lemma lookup_filter_notin [smap_laws]:
  "map_of (filter (\<lambda>e. fst e \<notin> K) m) k = (if k \<in> K then None else map_of m k)"
  by (induction m) auto

lemma sm_keys_filter_in [simp]: "sm_keys (filter (\<lambda>e. fst e \<in> K) m) = sm_keys m \<inter> K"
  by (auto simp: sm_keys_def)

lemma sm_keys_filter_notin [simp]: "sm_keys (filter (\<lambda>e. fst e \<notin> K) m) = sm_keys m - K"
  by (auto simp: sm_keys_def)

lemma sm_erase_set: "e \<in> set (sm_erase k m) \<longleftrightarrow> e \<in> set m \<and> fst e \<noteq> k"
  by (auto simp: sm_erase_def)

lemma sm_insert_set: "e \<in> set (sm_insert k v m) \<Longrightarrow> e = (k, v) \<or> e \<in> set m"
  by (induction m rule: sm_insert.induct) (auto split: if_splits)

lemma sm_assign_set: "e \<in> set (sm_assign k v m) \<Longrightarrow> e = (k, v) \<or> e \<in> set m"
  by (induction m rule: sm_assign.induct) (auto split: if_splits)

subsection \<open>Machine integers\<close>

type_synonym u8 = "8 word"
type_synonym u16 = "16 word"
type_synonym u32 = "32 word"

text \<open>Conversion of an \<^verbatim>\<open>unsigned int\<close> to \<^verbatim>\<open>int\<close> and to \<^verbatim>\<open>long\<close>.\<close>

definition to_int :: "u32 \<Rightarrow> int" where
  "to_int w = sint w"

definition to_long :: "u32 \<Rightarrow> int" where
  "to_long w = uint w"

end
