(* ===== verification/Proto_Def.thy ===== *)
theory Proto_Def
  imports Mc_Prelude
begin

section \<open>Protocol versions, record types and the source-list operators (def.hpp, def.cpp)\<close>

text \<open>
  The enumerations of \<^verbatim>\<open>include/proxy/def.hpp\<close> with their numeric values, the version
  predicates of \<^verbatim>\<open>src/proxy/def.cpp\<close>, and the operators \<open>+\<close>, \<open>*\<close>, \<open>-\<close> on
  \<^verbatim>\<open>source_list\<close>.  The intersection is the two-iterator loop of the code; it is proved
  equal to the filter that defines set intersection.
\<close>

unbundle bit_operations_syntax

datatype mc_filter = INCLUDE_MODE | EXCLUDE_MODE

datatype group_mem_protocol = IGMPv1 | IGMPv2 | IGMPv3 | MLDv1 | MLDv2

fun gmp_value :: "group_mem_protocol \<Rightarrow> u32" where
  "gmp_value IGMPv1 = 0x1"
| "gmp_value IGMPv2 = 0x2"
| "gmp_value IGMPv3 = 0x4"
| "gmp_value MLDv1 = 0x8"
| "gmp_value MLDv2 = 0x10"

text \<open>The \<^verbatim>\<open>static_cast\<close> of a number to the enumeration: \<open>None\<close> where the number is no enumerator.\<close>

definition gmp_of_value :: "u32 \<Rightarrow> group_mem_protocol option" where
  "gmp_of_value n = map_of [(0x1, IGMPv1), (0x2, IGMPv2), (0x4, IGMPv3), (0x8, MLDv1), (0x10, MLDv2)] n"

definition is_IPv4 :: "group_mem_protocol \<Rightarrow> bool" where
  "is_IPv4 gmp \<longleftrightarrow> (gmp_value IGMPv1 OR gmp_value IGMPv2 OR gmp_value IGMPv3) AND gmp_value gmp \<noteq> 0"

definition is_IPv6 :: "group_mem_protocol \<Rightarrow> bool" where
  "is_IPv6 gmp \<longleftrightarrow> (gmp_value MLDv1 OR gmp_value MLDv2) AND gmp_value gmp \<noteq> 0"

definition is_older_or_equal_version :: "group_mem_protocol \<Rightarrow> group_mem_protocol \<Rightarrow> bool" where
  "is_older_or_equal_version older comp_to \<longleftrightarrow> gmp_value older \<le> gmp_value comp_to"

definition is_newest_version :: "group_mem_protocol \<Rightarrow> bool" where
  "is_newest_version gmp \<longleftrightarrow> gmp = IGMPv3 \<or> gmp = MLDv2"

definition get_next_newer_version :: "group_mem_protocol \<Rightarrow> group_mem_protocol option" where
  "get_next_newer_version gmp =
     (if is_newest_version gmp then Some gmp else gmp_of_value (gmp_value gmp * 2))"

datatype addr_family = AF_UNSPEC | AF_INET | AF_INET6

definition get_addr_family_gmp :: "group_mem_protocol \<Rightarrow> addr_family" where
  "get_addr_family_gmp gmp =
     (if is_IPv4 gmp then AF_INET else if is_IPv6 gmp then AF_INET6 else AF_UNSPEC)"

datatype mcast_addr_record_type =
  MODE_IS_INCLUDE | MODE_IS_EXCLUDE | CHANGE_TO_INCLUDE_MODE | CHANGE_TO_EXCLUDE_MODE
| ALLOW_NEW_SOURCES | BLOCK_OLD_SOURCES | UNKNOWN_RECORD u8

text \<open>
  The \<^verbatim>\<open>static_cast<mcast_addr_record_type>(rec->type)\<close> of the receivers: a byte of the
  packet, which need not be an enumerator (\<open>UNKNOWN_RECORD\<close>).
\<close>

definition record_type_of_byte :: "u8 \<Rightarrow> mcast_addr_record_type" where
  "record_type_of_byte n =
     (if n = 1 then MODE_IS_INCLUDE else if n = 2 then MODE_IS_EXCLUDE
      else if n = 3 then CHANGE_TO_INCLUDE_MODE else if n = 4 then CHANGE_TO_EXCLUDE_MODE
      else if n = 5 then ALLOW_NEW_SOURCES else if n = 6 then BLOCK_OLD_SOURCES
      else UNKNOWN_RECORD n)"

subsection \<open>Operators on source lists\<close>

definition sl_add :: "('k::linorder, 'v) smap \<Rightarrow> ('k, 'v) smap \<Rightarrow> ('k, 'v) smap" where
  "sl_add l r = fold (\<lambda>e. sm_insert (fst e) (snd e)) r l"

text \<open>
  \<^verbatim>\<open>operator*=\<close>: two iterators run over the sorted sets; an element of the left set that is
  smaller than the current right element is erased, and so is what is left when the right
  set is exhausted.
\<close>

fun sl_mul :: "('k::linorder, 'v) smap \<Rightarrow> ('k, 'v) smap \<Rightarrow> ('k, 'v) smap" where
  "sl_mul [] r = []"
| "sl_mul (x # l) [] = []"
| "sl_mul (x # l) (y # r) =
     (if fst x = fst y then x # sl_mul l r
      else if fst x < fst y then sl_mul l (y # r)
      else sl_mul (x # l) r)"

definition sl_sub :: "('k, 'v) smap \<Rightarrow> ('k, 'v) smap \<Rightarrow> ('k, 'v) smap" where
  "sl_sub l r = fold (\<lambda>e. sm_erase (fst e)) r l"

subsection \<open>Versions\<close>

lemma get_next_newer_version_total: "\<exists>g. get_next_newer_version gmp = Some g"
  by (cases gmp) (simp_all add: get_next_newer_version_def is_newest_version_def gmp_of_value_def)

lemma is_IPv4_iff: "is_IPv4 gmp \<longleftrightarrow> gmp \<in> {IGMPv1, IGMPv2, IGMPv3}"
  by (cases gmp) (simp_all add: is_IPv4_def)

lemma is_IPv6_iff: "is_IPv6 gmp \<longleftrightarrow> gmp \<in> {MLDv1, MLDv2}"
  by (cases gmp) (simp_all add: is_IPv6_def)

lemma next_newer_chain:
  "get_next_newer_version IGMPv1 = Some IGMPv2" "get_next_newer_version IGMPv2 = Some IGMPv3"
  "get_next_newer_version IGMPv3 = Some IGMPv3" "get_next_newer_version MLDv1 = Some MLDv2"
  "get_next_newer_version MLDv2 = Some MLDv2"
  by (simp_all add: get_next_newer_version_def is_newest_version_def gmp_of_value_def)

subsection \<open>Laws of the source-list operators\<close>

lemma sl_add_ok [simp, intro]: "smap_ok l \<Longrightarrow> smap_ok (sl_add l r)"
  by (simp add: sl_add_def sm.ins_range)

lemma sl_add_lookup [smap_laws]:
  "smap_ok l \<Longrightarrow> map_of (sl_add l r) k =
     (case map_of l k of Some v \<Rightarrow> Some v | None \<Rightarrow> map_of r k)"
  by (simp add: sl_add_def sm.ins_range)

lemma sl_add_keys [simp]: "sm_keys (sl_add l r) = sm_keys l \<union> sm_keys r"
  by (induction r arbitrary: l) (auto simp: sl_add_def)

lemma sl_add_Nil [simp]: "sl_add l [] = l"
  by (simp add: sl_add_def)

lemma sl_add_set: "e \<in> set (sl_add l r) \<Longrightarrow> e \<in> set l \<or> e \<in> set r"
  by (induction r arbitrary: l) (fastforce simp: sl_add_def dest: sm_insert_set)+

lemma sl_mul_eq_filter:
  "smap_ok l \<Longrightarrow> smap_ok r \<Longrightarrow> sl_mul l r = filter (\<lambda>e. fst e \<in> sm_keys r) l"
proof (induction l r rule: sl_mul.induct)
  case (3 x l y r)
  have l: "\<And>e. e \<in> set l \<Longrightarrow> fst x < fst e" and r: "\<And>k. k \<in> sm_keys r \<Longrightarrow> fst y < k"
    using "3.prems" by (auto simp: sm_keys_def)
  consider "fst x = fst y" | "fst x < fst y" | "fst y < fst x" by fastforce
  then show ?case
  proof cases
    case 1
    have "filter (\<lambda>e. fst e \<in> sm_keys (y # r)) l = filter (\<lambda>e. fst e \<in> sm_keys r) l"
      by (rule filter_cong) (use l 1 in fastforce)+
    with 1 "3.IH"(1) "3.prems" show ?thesis by simp
  next
    case 2
    then have "fst x \<notin> sm_keys (y # r)" using r by fastforce
    with 2 "3.IH"(2) "3.prems" show ?thesis by auto
  next
    case 3
    have "filter (\<lambda>e. fst e \<in> sm_keys (y # r)) (x # l) = filter (\<lambda>e. fst e \<in> sm_keys r) (x # l)"
      by (rule filter_cong) (use l 3 in fastforce)+
    with 3 "3.IH"(3) "3.prems" show ?thesis by auto
  qed
qed auto

lemma sl_sub_eq_filter: "sl_sub l r = filter (\<lambda>e. fst e \<notin> sm_keys r) l"
  by (induction r arbitrary: l) (auto simp: sl_sub_def sm_erase_def conj_commute)

lemma sl_mul_ok [simp, intro]: "smap_ok l \<Longrightarrow> smap_ok r \<Longrightarrow> smap_ok (sl_mul l r)"
  by (simp add: sl_mul_eq_filter)

lemma sl_mul_keys [simp]:
  "smap_ok l \<Longrightarrow> smap_ok r \<Longrightarrow> sm_keys (sl_mul l r) = sm_keys l \<inter> sm_keys r"
  by (auto simp: sl_mul_eq_filter)

lemma sl_mul_lookup [smap_laws]:
  "smap_ok l \<Longrightarrow> smap_ok r \<Longrightarrow>
     map_of (sl_mul l r) k = (if k \<in> sm_keys r then map_of l k else None)"
  by (simp add: sl_mul_eq_filter lookup_filter_in)

lemma sl_mul_set: "smap_ok l \<Longrightarrow> smap_ok r \<Longrightarrow> e \<in> set (sl_mul l r) \<Longrightarrow> e \<in> set l"
  by (simp add: sl_mul_eq_filter)

lemma sl_sub_ok [simp, intro]: "smap_ok l \<Longrightarrow> smap_ok (sl_sub l r)"
  by (simp add: sl_sub_eq_filter)

lemma sl_sub_keys [simp]: "sm_keys (sl_sub l r) = sm_keys l - sm_keys r"
  by (auto simp: sl_sub_eq_filter)

lemma sl_sub_lookup [smap_laws]:
  "map_of (sl_sub l r) k = (if k \<in> sm_keys r then None else map_of l k)"
  by (simp add: sl_sub_eq_filter lookup_filter_notin)

lemma sl_sub_set: "e \<in> set (sl_sub l r) \<Longrightarrow> e \<in> set l"
  by (simp add: sl_sub_eq_filter)

lemmas sl_ok = sl_add_ok sl_mul_ok sl_sub_ok
lemmas sl_keys = sl_add_keys sl_mul_keys sl_sub_keys

end
