(* ===== verification/Addr_Storage.thy ===== *)
theory Addr_Storage
  imports Proto_Def
begin

section \<open>Socket addresses (addr_storage.hpp, addr_storage.cpp)\<close>

text \<open>
  An address is unspecified, an IPv4 address or an IPv6 address; the words are the values
  \<^verbatim>\<open>ntohl\<close> reads (\<^verbatim>\<open>s_addr\<close>, \<^verbatim>\<open>s6_addr32[0..3]\<close>).  The socket address that
  holds them and its port are in \<open>Sockaddr\<close>; the text form goes through \<^verbatim>\<open>inet_pton\<close>, a
  parameter.  A shift by the width of the type or more is undefined in C++; such a
  result is \<open>None\<close>.

  The type is made an instance of \<open>linorder\<close> so that it can be the key of a container.
  On addresses of one family, which is all an instance of the proxy ever stores in one
  container, that order is the \<^verbatim>\<open>operator<\<close> of the code (\<open>addr_lt_family\<close>).
\<close>

unbundle bit_operations_syntax

datatype addr_storage = Addr_Unspec | Addr4 u32 | Addr6 u32 u32 u32 u32

fun get_addr_family :: "addr_storage \<Rightarrow> addr_family" where
  "get_addr_family Addr_Unspec = AF_UNSPEC"
| "get_addr_family (Addr4 _) = AF_INET"
| "get_addr_family (Addr6 _ _ _ _) = AF_INET6"

text \<open>\<^verbatim>\<open>addr_storage(int addr_family)\<close>: all bytes zero, then the family.\<close>

fun addr_of_family :: "addr_family \<Rightarrow> addr_storage" where
  "addr_of_family AF_UNSPEC = Addr_Unspec"
| "addr_of_family AF_INET = Addr4 0"
| "addr_of_family AF_INET6 = Addr6 0 0 0 0"

text \<open>\<^verbatim>\<open>operator=(const std::string&)\<close>, with \<^verbatim>\<open>inet_pton\<close> as a parameter.\<close>

definition addr_of_string ::
  "(addr_family \<Rightarrow> string \<Rightarrow> addr_storage option) \<Rightarrow> string \<Rightarrow> addr_storage" where
  "addr_of_string inet_pton s =
     (let af = (if CHR '':'' \<notin> set s then AF_INET else AF_INET6)
      in case inet_pton af s of Some a \<Rightarrow> a | None \<Rightarrow> Addr_Unspec)"

definition is_valid :: "addr_storage \<Rightarrow> bool" where
  "is_valid a \<longleftrightarrow> get_addr_family a \<noteq> AF_UNSPEC"

fun addr_eq :: "addr_storage \<Rightarrow> addr_storage \<Rightarrow> bool" where
  "addr_eq (Addr4 a) (Addr4 b) = (a = b)"
| "addr_eq (Addr6 a0 a1 a2 a3) (Addr6 b0 b1 b2 b3) = (a0 = b0 \<and> a1 = b1 \<and> a2 = b2 \<and> a3 = b3)"
| "addr_eq _ _ = False"

text \<open>The bytes \<^verbatim>\<open>s6_addr[0..15]\<close> of an IPv6 address.\<close>

definition word_bytes :: "u32 \<Rightarrow> u8 list" where
  "word_bytes w = [ucast (drop_bit 24 w), ucast (drop_bit 16 w), ucast (drop_bit 8 w), ucast w]"

definition s6_addr :: "u32 \<Rightarrow> u32 \<Rightarrow> u32 \<Rightarrow> u32 \<Rightarrow> u8 list" where
  "s6_addr w0 w1 w2 w3 = word_bytes w0 @ word_bytes w1 @ word_bytes w2 @ word_bytes w3"

text \<open>The loop of \<^verbatim>\<open>operator<\<close> over the bytes.\<close>

fun bytes_lt :: "u8 list \<Rightarrow> u8 list \<Rightarrow> bool" where
  "bytes_lt (a # as) (b # bs) = (if a > b then False else if a < b then True else bytes_lt as bs)"
| "bytes_lt _ _ = False"

fun addr_lt :: "addr_storage \<Rightarrow> addr_storage \<Rightarrow> bool" where
  "addr_lt (Addr4 a) (Addr4 b) = (a < b)"
| "addr_lt (Addr6 a0 a1 a2 a3) (Addr6 b0 b1 b2 b3) =
     bytes_lt (s6_addr a0 a1 a2 a3) (s6_addr b0 b1 b2 b3)"
| "addr_lt _ _ = False"

definition addr_gt :: "addr_storage \<Rightarrow> addr_storage \<Rightarrow> bool" where
  "addr_gt a b \<longleftrightarrow> \<not> addr_lt a b \<and> \<not> addr_eq a b"

definition addr_le :: "addr_storage \<Rightarrow> addr_storage \<Rightarrow> bool" where
  "addr_le a b \<longleftrightarrow> addr_lt a b \<or> addr_eq a b"

definition addr_ge :: "addr_storage \<Rightarrow> addr_storage \<Rightarrow> bool" where
  "addr_ge a b \<longleftrightarrow> \<not> addr_lt a b"

text \<open>The carry loop of the prefix operators runs over the words from the last to the first.\<close>

fun inc_words :: "u32 list \<Rightarrow> u32 list" where
  "inc_words [] = []"
| "inc_words (w # ws) = (let w' = w + 1 in if w' \<noteq> 0 then w' # ws else w' # inc_words ws)"

fun dec_words :: "u32 list \<Rightarrow> u32 list" where
  "dec_words [] = []"
| "dec_words (w # ws) = (let w' = w - 1 in if w' \<noteq> - 1 then w' # ws else w' # dec_words ws)"

definition on_words6 :: "(u32 list \<Rightarrow> u32 list) \<Rightarrow> u32 \<Rightarrow> u32 \<Rightarrow> u32 \<Rightarrow> u32 \<Rightarrow> addr_storage" where
  "on_words6 f w0 w1 w2 w3 =
     (case f [w3, w2, w1, w0] of [v3, v2, v1, v0] \<Rightarrow> Addr6 v0 v1 v2 v3 | _ \<Rightarrow> Addr6 w0 w1 w2 w3)"

fun addr_inc :: "addr_storage \<Rightarrow> addr_storage" where
  "addr_inc (Addr4 a) = Addr4 (a + 1)"
| "addr_inc (Addr6 w0 w1 w2 w3) = on_words6 inc_words w0 w1 w2 w3"
| "addr_inc Addr_Unspec = Addr_Unspec"

fun addr_dec :: "addr_storage \<Rightarrow> addr_storage" where
  "addr_dec (Addr4 a) = Addr4 (a - 1)"
| "addr_dec (Addr6 w0 w1 w2 w3) = on_words6 dec_words w0 w1 w2 w3"
| "addr_dec Addr_Unspec = Addr_Unspec"

text \<open>The postfix operators: the value returned and the object afterwards.\<close>

definition addr_post_inc :: "addr_storage \<Rightarrow> addr_storage \<times> addr_storage" where
  "addr_post_inc a = (let a' = addr_inc a in (a', a'))"

definition addr_post_dec :: "addr_storage \<Rightarrow> addr_storage \<times> addr_storage" where
  "addr_post_dec a = (let a' = addr_inc a in (a', a'))"

fun mask_ipv4 :: "addr_storage \<Rightarrow> addr_storage \<Rightarrow> addr_storage" where
  "mask_ipv4 (Addr4 a) (Addr4 m) = Addr4 (a AND m)"
| "mask_ipv4 a _ = a"

text \<open>\<^verbatim>\<open>static_cast<unsigned int>(-1) >> n\<close>; undefined for a shift by 32 or more.\<close>

definition ones_shr :: "u32 \<Rightarrow> u32 option" where
  "ones_shr n = (if unat n < 32 then Some (drop_bit (unat n) (- 1)) else None)"

text \<open>
  The word loop shared by \<^verbatim>\<open>mask\<close> and \<^verbatim>\<open>broadcast_addr\<close>, from \<^verbatim>\<open>s6_addr32[3]\<close> to
  \<^verbatim>\<open>s6_addr32[0]\<close>; \<open>f\<close> combines a word with the shifted ones, \<open>full\<close> is the value of
  a word behind the prefix.  The shift amount is the whole suffix.
\<close>

fun prefix_words :: "(u32 \<Rightarrow> u32 \<Rightarrow> u32) \<Rightarrow> u32 \<Rightarrow> u32 \<Rightarrow> nat \<Rightarrow> u32 list \<Rightarrow> u32 list option" where
  "prefix_words f full suffix i [] = Some []"
| "prefix_words f full suffix i (w # ws) =
     (let tmp_suffix = sint (suffix - of_nat (i * 32))
      in if tmp_suffix \<le> 0 then map_option ((#) full) (prefix_words f full suffix (i - 1) ws)
         else if tmp_suffix < 32
         then (case ones_shr suffix of
                 None \<Rightarrow> None
               | Some m \<Rightarrow> map_option ((#) (f w m)) (prefix_words f full suffix (i - 1) ws))
         else Some (w # ws))"

fun addr_of_words :: "u32 list \<Rightarrow> addr_storage option" where
  "addr_of_words [w3, w2, w1, w0] = Some (Addr6 w0 w1 w2 w3)"
| "addr_of_words _ = None"

fun mask_addr :: "u32 \<Rightarrow> addr_storage \<Rightarrow> addr_storage option" where
  "mask_addr suffix (Addr4 a) = map_option (\<lambda>m. Addr4 (a AND NOT m)) (ones_shr suffix)"
| "mask_addr suffix (Addr6 w0 w1 w2 w3) =
     Option.bind (prefix_words (\<lambda>w m. w AND NOT m) 0 suffix 3 [w3, w2, w1, w0]) addr_of_words"
| "mask_addr suffix Addr_Unspec = Some Addr_Unspec"

fun broadcast_addr :: "u32 \<Rightarrow> addr_storage \<Rightarrow> addr_storage option" where
  "broadcast_addr suffix (Addr4 a) = map_option (\<lambda>m. Addr4 (a OR m)) (ones_shr suffix)"
| "broadcast_addr suffix (Addr6 w0 w1 w2 w3) =
     Option.bind (prefix_words (\<lambda>w m. w OR m) (- 1) suffix 3 [w3, w2, w1, w0]) addr_of_words"
| "broadcast_addr suffix Addr_Unspec = Some Addr_Unspec"

fun is_multicast_addr :: "addr_storage \<Rightarrow> bool" where
  "is_multicast_addr (Addr4 a) = (a AND 0xF0000000 = 0xE0000000)"
| "is_multicast_addr (Addr6 w0 w1 w2 w3) = (drop_bit 24 w0 = 0xFF)"
| "is_multicast_addr Addr_Unspec = False"

subsection \<open>The numeric value of an address\<close>

definition words_val :: "u32 \<Rightarrow> u32 \<Rightarrow> u32 \<Rightarrow> u32 \<Rightarrow> nat" where
  "words_val w0 w1 w2 w3 = ((unat w0 * 2 ^ 32 + unat w1) * 2 ^ 32 + unat w2) * 2 ^ 32 + unat w3"

fun addr_val :: "addr_storage \<Rightarrow> nat" where
  "addr_val Addr_Unspec = 0"
| "addr_val (Addr4 a) = unat a"
| "addr_val (Addr6 w0 w1 w2 w3) = words_val w0 w1 w2 w3"

fun family_rank :: "addr_storage \<Rightarrow> nat" where
  "family_rank Addr_Unspec = 0"
| "family_rank (Addr4 a) = 1"
| "family_rank (Addr6 w0 w1 w2 w3) = 2"

lemma base_split: "(r::nat) < B \<Longrightarrow> r' < B \<Longrightarrow> (q * B + r = q' * B + r') = (q = q' \<and> r = r')"
proof (intro iffI)
  assume b: "r < B" "r' < B" and eq: "q * B + r = q' * B + r'"
  have "(q * B + r) div B = (q' * B + r') div B" "(q * B + r) mod B = (q' * B + r') mod B"
    using eq by simp_all
  with b show "q = q' \<and> r = r'" by simp
qed auto

lemma base_less: "(r::nat) < B \<Longrightarrow> r' < B \<Longrightarrow> (q * B + r < q' * B + r') = (q < q' \<or> q = q' \<and> r < r')"
proof (cases q q' rule: linorder_cases)
  assume b: "r < B" "r' < B" and "q < q'"
  then have "Suc q * B \<le> q' * B" by (intro mult_le_mono1) simp
  with b \<open>q < q'\<close> show ?thesis by simp
next
  assume b: "r < B" "r' < B" and "q' < q"
  then have "Suc q' * B \<le> q * B" by (intro mult_le_mono1) simp
  with b \<open>q' < q\<close> show ?thesis by simp
qed auto

lemma unat32_less: "unat (w::u32) < 2 ^ 32"
  using unsigned_less [of w, where ?'a = nat] by simp

lemma words_val_eq:
  "words_val a0 a1 a2 a3 = words_val b0 b1 b2 b3 \<longleftrightarrow> a0 = b0 \<and> a1 = b1 \<and> a2 = b2 \<and> a3 = b3"
  unfolding words_val_def
  by (simp only: base_split unat32_less word_unat_eq_iff conj_assoc)

lemma words_val_less:
  "words_val a0 a1 a2 a3 < words_val b0 b1 b2 b3 \<longleftrightarrow>
     a0 < b0 \<or> a0 = b0 \<and> (a1 < b1 \<or> a1 = b1 \<and> (a2 < b2 \<or> a2 = b2 \<and> a3 < b3))"
  unfolding words_val_def
  by (simp only: base_split base_less unat32_less word_unat_eq_iff word_less_nat_alt) blast

lemma addr_val_inject:
  "family_rank a = family_rank b \<Longrightarrow> addr_val a = addr_val b \<Longrightarrow> a = b"
  by (cases a; cases b) (simp_all add: words_val_eq word_unat_eq_iff)

instantiation addr_storage :: linorder
begin

definition less_eq_addr_storage :: "addr_storage \<Rightarrow> addr_storage \<Rightarrow> bool" where
  "less_eq_addr_storage a b \<longleftrightarrow>
     family_rank a < family_rank b \<or> family_rank a = family_rank b \<and> addr_val a \<le> addr_val b"

definition less_addr_storage :: "addr_storage \<Rightarrow> addr_storage \<Rightarrow> bool" where
  "less_addr_storage a b \<longleftrightarrow>
     family_rank a < family_rank b \<or> family_rank a = family_rank b \<and> addr_val a < addr_val b"

instance
  by standard (auto simp: less_eq_addr_storage_def less_addr_storage_def intro: addr_val_inject)

end


subsection \<open>The order of the code\<close>

lemma bytes_lt_append:
  "length xs = length ys \<Longrightarrow>
     bytes_lt (xs @ xs') (ys @ ys') \<longleftrightarrow> bytes_lt xs ys \<or> xs = ys \<and> bytes_lt xs' ys'"
  by (induction xs ys rule: list_induct2) auto

lemma bytes_lt_irrefl [simp]: "\<not> bytes_lt xs xs"
  by (induction xs) auto

text \<open>The bytes of a word, most significant first, in base 256.\<close>

lemma word_bytes_value:
  fixes w :: u32
  shows "unat w = ((unat (ucast (drop_bit 24 w) :: u8) * 256 + unat (ucast (drop_bit 16 w) :: u8)) * 256
            + unat (ucast (drop_bit 8 w) :: u8)) * 256 + unat (ucast w :: u8)"
proof -
  have b: "unat (ucast (drop_bit n w) :: u8) = unat w div 2 ^ n mod 256" for n
    by (simp add: unsigned_ucast_eq unat_drop_bit_eq) (simp add: drop_bit_eq_div take_bit_eq_mod)
  have c: "unat (ucast w :: u8) = unat w mod 256"
    using b [of 0] by simp
  have "unat w < 2 ^ 32" by (rule unat32_less)
  then have d: "unat w div 2 ^ 24 mod 256 = unat w div 2 ^ 24"
    by simp
  have f: "unat w div 2 ^ 24 = unat w div 2 ^ 16 div 256" "unat w div 2 ^ 16 = unat w div 2 ^ 8 div 256"
    by (simp_all add: div_mult2_eq [symmetric])
  have chain: "x = ((q3 * 256 + r2) * 256 + r1) * 256 + r0"
    if "x = q1 * 256 + r0" "q1 = q2 * 256 + r1" "q2 = q3 * 256 + r2" for x q1 q2 q3 r0 r1 r2 :: nat
    using that by simp
  have e: "x = x div 256 * 256 + x mod 256" for x :: nat by simp
  have g: "unat w div 2 ^ 8 = unat w div 256" by simp
  show ?thesis unfolding b c unfolding d unfolding f g by (rule chain [OF e e e])
qed

lemma unat8_less: "unat (w::u8) < 256"
  using unsigned_less [of w, where ?'a = nat] by simp

lemma word_bytes_lt: "bytes_lt (word_bytes a) (word_bytes b) \<longleftrightarrow> a < b"
  unfolding word_less_nat_alt [of a b] word_bytes_value [of a] word_bytes_value [of b]
  by (simp only: base_less base_split unat8_less word_bytes_def bytes_lt.simps)
     (auto simp: word_less_nat_alt word_unat_eq_iff)

lemma word_bytes_eq: "word_bytes a = word_bytes b \<longleftrightarrow> a = b"
  by (metis bytes_lt_irrefl linorder_neqE word_bytes_lt)

lemma length_word_bytes [simp]: "length (word_bytes w) = 4"
  by (simp add: word_bytes_def)

lemma s6_addr_lt:
  "bytes_lt (s6_addr a0 a1 a2 a3) (s6_addr b0 b1 b2 b3) \<longleftrightarrow> words_val a0 a1 a2 a3 < words_val b0 b1 b2 b3"
  by (simp add: s6_addr_def bytes_lt_append word_bytes_lt word_bytes_eq words_val_less)

lemma addr_lt_family: "get_addr_family a = get_addr_family b \<Longrightarrow> addr_lt a b \<longleftrightarrow> a < b"
  by (cases a; cases b) (auto simp: less_addr_storage_def s6_addr_lt word_less_nat_alt)

lemma addr_eq_iff: "addr_eq a b \<longleftrightarrow> is_valid a \<and> a = b"
  by (cases a; cases b) (auto simp: is_valid_def)


subsection \<open>Increment and decrement\<close>

fun rev_val :: "u32 list \<Rightarrow> nat" where
  "rev_val [] = 0"
| "rev_val (w # ws) = unat w + 2 ^ 32 * rev_val ws"

lemma rev_val_words: "words_val w0 w1 w2 w3 = rev_val [w3, w2, w1, w0]"
  by (simp add: words_val_def)

lemma rev_val_less: "rev_val ws < 2 ^ (32 * length ws)"
proof (induction ws)
  case (Cons w ws)
  have "unat w < 2 ^ 32" by (rule unat32_less)
  moreover have "Suc (rev_val ws) \<le> 2 ^ (32 * length ws)" using Cons by simp
  then have "2 ^ 32 * Suc (rev_val ws) \<le> 2 ^ 32 * 2 ^ (32 * length ws)" by (rule mult_le_mono2)
  ultimately show ?case by (simp add: power_add)
qed simp

lemma unat_plus_one: "w + 1 \<noteq> (0::u32) \<Longrightarrow> unat (w + 1) = unat w + 1"
  by (metis add.commute unatSuc Suc_eq_plus1)

lemma plus_one_zero: "w + 1 = (0::u32) \<Longrightarrow> unat w = 2 ^ 32 - 1"
proof -
  assume "w + 1 = 0"
  then have "w = - 1" by (simp add: eq_neg_iff_add_eq_0)
  then show ?thesis by (simp add: unsigned_minus_1_eq_mask mask_eq_exp_minus_1)
qed

lemma inc_words_val:
  "rev_val (inc_words ws) = (rev_val ws + 1) mod 2 ^ (32 * length ws) \<and> length (inc_words ws) = length ws"
proof (induction ws)
  case (Cons w ws)
  show ?case
  proof (cases "w + 1 = 0")
    case True
    then have "rev_val (w # ws) + 1 = 2 ^ 32 * (rev_val ws + 1)" by (simp add: plus_one_zero)
    moreover have "2 ^ (32 * length (w # ws)) = (2 ^ 32 * 2 ^ (32 * length ws) :: nat)"
      by (simp add: power_add)
    ultimately show ?thesis using Cons True by (simp only: mult_mod_right [symmetric]) simp
  next
    case False
    then have "rev_val ((w + 1) # ws) = rev_val (w # ws) + 1" by (simp add: unat_plus_one)
    with rev_val_less [of "(w + 1) # ws"] False show ?thesis by simp
  qed
qed simp

lemma dec_inc_words: "inc_words (dec_words ws) = ws"
  by (induction ws) (auto simp: Let_def)

lemma dec_length [simp]: "length (dec_words ws) = length ws"
  by (induction ws) (auto simp: Let_def)

definition addr_bits :: "addr_storage \<Rightarrow> nat" where
  "addr_bits a = (case a of Addr_Unspec \<Rightarrow> 0 | Addr4 _ \<Rightarrow> 32 | Addr6 _ _ _ _ \<Rightarrow> 128)"

lemmas words4_simps = inc_words.simps dec_words.simps

lemma words4: "length ws = 4 \<Longrightarrow> \<exists>a b c d. ws = [a, b, c, d]"
  by (auto simp: numeral_eq_Suc length_Suc_conv)

lemma on_words6_inc: "addr_val (on_words6 inc_words w0 w1 w2 w3) = (words_val w0 w1 w2 w3 + 1) mod 2 ^ 128"
proof -
  obtain a b c d where i: "inc_words [w3, w2, w1, w0] = [a, b, c, d]"
    using words4 [of "inc_words [w3, w2, w1, w0]"] inc_words_val [of "[w3, w2, w1, w0]"] by auto
  then have "addr_val (on_words6 inc_words w0 w1 w2 w3) = rev_val [a, b, c, d]"
    by (simp add: on_words6_def words_val_def)
  also have "\<dots> = (rev_val [w3, w2, w1, w0] + 1) mod 2 ^ 128"
    using inc_words_val [of "[w3, w2, w1, w0]"] unfolding i by simp
  finally show ?thesis by (simp only: rev_val_words)
qed

lemma addr_inc_val: "addr_val (addr_inc a) = (addr_val a + 1) mod 2 ^ addr_bits a"
proof (cases a)
  case (Addr4 w)
  then show ?thesis by (simp add: addr_bits_def unat_word_ariths)
qed (simp_all only: addr_inc.simps on_words6_inc addr_bits_def addr_storage.case addr_val.simps, simp)

lemma addr_inc_dec: "addr_inc (addr_dec a) = a"
proof (cases a)
  case (Addr6 w0 w1 w2 w3)
  obtain a b c d where i: "dec_words [w3, w2, w1, w0] = [a, b, c, d]"
    using words4 [of "dec_words [w3, w2, w1, w0]"] by (auto simp del: words4_simps)
  then have "inc_words [a, b, c, d] = [w3, w2, w1, w0]" by (metis dec_inc_words)
  with i Addr6 show ?thesis by (simp add: on_words6_def del: inc_words.simps dec_words.simps)
qed simp_all

subsection \<open>Prefixes\<close>

lemma ones_shr_mask: "n < 32 \<Longrightarrow> ones_shr (of_nat n) = Some (mask (32 - n))"
proof -
  assume n: "n < 32"
  have "drop_bit n (- 1 :: u32) = mask (32 - n)"
    by (rule bit_eqI) (use n in \<open>auto simp: bit_simps\<close>)
  moreover have "unat (of_nat n :: u32) = n" using n by (simp add: unsigned_of_nat take_bit_nat_eq_self)
  ultimately show ?thesis using n by (simp add: ones_shr_def)
qed

lemma unat_and_not_mask: "unat ((a::u32) AND NOT (mask k)) = unat a div 2 ^ k * 2 ^ k"
proof -
  have "a AND NOT (mask k) = push_bit k (drop_bit k a)"
    by (rule bit_eqI) (auto simp: bit_simps)
  moreover have "unat a div 2 ^ k * 2 ^ k < 2 ^ 32"
    by (rule le_less_trans [OF _ unat32_less [of a]]) (rule div_times_less_eq_dividend)
  ultimately show ?thesis
    by (simp add: unsigned_push_bit_eq unat_drop_bit_eq)
       (simp add: push_bit_eq_mult drop_bit_eq_div take_bit_nat_eq_self)
qed

lemma unat_or_mask: "k \<le> 32 \<Longrightarrow> unat ((a::u32) OR mask k) = unat a div 2 ^ k * 2 ^ k + (2 ^ k - 1)"
proof -
  assume k: "k \<le> 32"
  let ?y = "unat a OR mask k"
  have "?y div 2 ^ k = unat a div 2 ^ k"
    unfolding drop_bit_eq_div [symmetric] by (rule bit_eqI) (auto simp: bit_simps)
  moreover have "?y mod 2 ^ k = mask k"
    unfolding take_bit_eq_mod [symmetric] by (rule bit_eqI) (auto simp: bit_simps)
  moreover have "?y = ?y div 2 ^ k * 2 ^ k + ?y mod 2 ^ k" by (rule div_mult_mod_eq [symmetric])
  ultimately have "?y = unat a div 2 ^ k * 2 ^ k + mask k" by metis
  moreover have "unat (mask k :: u32) = mask k"
    by (rule bit_eqI) (use k in \<open>auto simp: bit_simps\<close>)
  ultimately show ?thesis by (simp add: unsigned_or_eq mask_eq_exp_minus_1)
qed

text \<open>The interval of numbers that share everything above a block of size \<open>P\<close>.\<close>

lemma block_interval:
  "(P::nat) > 0 \<Longrightarrow> x div P * P \<le> y \<and> y \<le> x div P * P + (P - 1) \<longleftrightarrow> y div P = x div P"
proof (intro iffI)
  assume P: "P > 0" and r: "x div P * P \<le> y \<and> y \<le> x div P * P + (P - 1)"
  then have "P * (x div P) \<le> y" and "y < P * Suc (x div P)" by (auto simp: mult.commute)
  then show "y div P = x div P" by (rule div_nat_eqI)
next
  assume P: "P > 0" and e: "y div P = x div P"
  have "x div P * P + y mod P = y" unfolding e [symmetric] by (rule div_mult_mod_eq)
  moreover have "y mod P < P" using P by simp
  ultimately show "x div P * P \<le> y \<and> y \<le> x div P * P + (P - 1)" by linarith
qed

lemma tmp_suffix: "n \<le> 128 \<Longrightarrow> i \<le> 3 \<Longrightarrow> sint (of_nat n - of_nat (i * 32) :: u32) = int n - int (i * 32)"
proof -
  assume "n \<le> 128" "i \<le> 3"
  then have "signed_take_bit 31 (int n - int (i * 32)) = int n - int (i * 32)"
    by (intro signed_take_bit_int_eq_self) auto
  moreover have "of_nat n - of_nat (i * 32) = (word_of_int (int n - int (i * 32)) :: u32)" by simp
  ultimately show ?thesis by (simp only: signed_of_int) simp
qed


lemma ones_shr_None: "32 \<le> n \<Longrightarrow> n \<le> 128 \<Longrightarrow> ones_shr (of_nat n) = None"
  by (simp add: ones_shr_def unsigned_of_nat take_bit_nat_eq_self)

lemma ones_shr_eq: "n \<le> 128 \<Longrightarrow> ones_shr (of_nat n) = (if n < 32 then Some (mask (32 - n)) else None)"
  by (simp add: ones_shr_mask ones_shr_None)

lemma ones_shr_32 [simp]: "ones_shr 32 = None"
  by (simp add: ones_shr_def)

lemma prefix_words_step:
  assumes "n \<le> 128" "i \<le> 3"
  shows "prefix_words f full (of_nat n) i (w # ws) =
    (if n \<le> i * 32 then map_option ((#) full) (prefix_words f full (of_nat n) (i - 1) ws)
     else if n < i * 32 + 32
     then (if n < 32 then map_option ((#) (f w (mask (32 - n)))) (prefix_words f full (of_nat n) (i - 1) ws)
           else None)
     else Some (w # ws))"
  using assms by (auto simp: Let_def tmp_suffix ones_shr_mask ones_shr_None simp del: of_nat_mult)

declare prefix_words.simps(2) [simp del]

lemma prefix_words_eq:
  "n \<le> 128 \<Longrightarrow> prefix_words f full (of_nat n) 3 [w3, w2, w1, w0] =
     (if n = 0 then Some [full, full, full, full]
      else if n < 32 then Some [full, full, full, f w0 (mask (32 - n))]
      else if n = 32 then Some [full, full, full, w0]
      else if n = 64 then Some [full, full, w1, w0]
      else if n = 96 then Some [full, w2, w1, w0]
      else if n = 128 then Some [w3, w2, w1, w0]
      else None)"
proof -
  assume n: "n \<le> 128"
  define s :: u32 where "s = of_nat n"
  note step = prefix_words_step [OF n, of _ f full, folded s_def]
  show ?thesis using n unfolding s_def [symmetric] by (simp add: step)
qed


lemma base_div: "(q * 2 ^ 32 + unat (w::u32)) div 2 ^ 32 = q"
  using unat32_less [of w] by simp

lemma words_val_div:
  "words_val w0 w1 w2 w3 div 2 ^ 32 = (unat w0 * 2 ^ 32 + unat w1) * 2 ^ 32 + unat w2"
  "words_val w0 w1 w2 w3 div 2 ^ 64 = unat w0 * 2 ^ 32 + unat w1"
  "words_val w0 w1 w2 w3 div 2 ^ 96 = unat w0"
  "words_val w0 w1 w2 w3 div 2 ^ 128 = 0"
proof -
  let ?x = "words_val w0 w1 w2 w3"
  show a: "?x div 2 ^ 32 = (unat w0 * 2 ^ 32 + unat w1) * 2 ^ 32 + unat w2"
    unfolding words_val_def by (rule base_div)
  have "?x div 2 ^ 64 = ?x div 2 ^ 32 div 2 ^ 32" by (simp add: div_mult2_eq [symmetric])
  then show b: "?x div 2 ^ 64 = unat w0 * 2 ^ 32 + unat w1" unfolding a base_div .
  have "?x div 2 ^ 96 = ?x div 2 ^ 64 div 2 ^ 32" by (simp add: div_mult2_eq [symmetric])
  then show c: "?x div 2 ^ 96 = unat w0" unfolding b base_div .
  have "?x div 2 ^ 128 = ?x div 2 ^ 96 div 2 ^ 32" by (simp add: div_mult2_eq [symmetric])
  then show "?x div 2 ^ 128 = 0" unfolding c using unat32_less [of w0] by simp
qed

lemma unat_ones: "unat (- 1 :: u32) = 2 ^ 32 - 1"
  by (simp add: unsigned_minus_1_eq_mask mask_eq_exp_minus_1)

lemma words_val_prefix:
  assumes "0 < n" "n < 32"
  shows "words_val w0 w1 w2 w3 div 2 ^ (128 - n) = unat w0 div 2 ^ (32 - n)"
    and "(2::nat) ^ (128 - n) = 2 ^ (32 - n) * 2 ^ 96"
proof -
  have "128 - n = (32 - n) + 96" using assms by simp
  then show p: "(2::nat) ^ (128 - n) = 2 ^ (32 - n) * 2 ^ 96" by (metis power_add)
  show "words_val w0 w1 w2 w3 div 2 ^ (128 - n) = unat w0 div 2 ^ (32 - n)"
    unfolding p mult.commute [of "2 ^ (32 - n)"] div_mult2_eq words_val_div ..
qed

lemma mask_addr_value:
  assumes "n \<le> addr_bits a" "mask_addr (of_nat n) a = Some lo"
  shows "get_addr_family lo = get_addr_family a \<and>
    addr_val lo = addr_val a div 2 ^ (addr_bits a - n) * 2 ^ (addr_bits a - n)"
proof (cases a)
  case (Addr4 w)
  with assms show ?thesis
    by (cases "n < 32") (auto simp: addr_bits_def ones_shr_eq unat_and_not_mask)
next
  case (Addr6 w0 w1 w2 w3)
  consider "n = 0" | "0 < n \<and> n < 32" | "n = 32" | "n = 64" | "n = 96" | "n = 128"
    using assms by (auto simp: Addr6 addr_bits_def prefix_words_eq split: if_splits)
  then show ?thesis
  proof cases
    case 2
    with assms Addr6 have lo: "lo = Addr6 (w0 AND NOT (mask (32 - n))) 0 0 0"
      by (auto simp: addr_bits_def prefix_words_eq)
    have "addr_val lo = unat w0 div 2 ^ (32 - n) * 2 ^ (128 - n)"
      using 2 by (simp add: lo words_val_def unat_and_not_mask words_val_prefix(2))
    then show ?thesis using 2 by (simp add: Addr6 lo addr_bits_def words_val_prefix(1))
  qed (use assms
      prefix_words_eq [of n "\<lambda>w m. w AND NOT m" 0 w3 w2 w1 w0] in
      \<open>auto simp: Addr6 addr_bits_def words_val_div [simplified]\<close>, simp_all add: words_val_def)
qed (use assms in auto)

lemma broadcast_addr_value:
  assumes "n \<le> addr_bits a" "broadcast_addr (of_nat n) a = Some hi"
  shows "get_addr_family hi = get_addr_family a \<and>
    addr_val hi = addr_val a div 2 ^ (addr_bits a - n) * 2 ^ (addr_bits a - n) + (2 ^ (addr_bits a - n) - 1)"
proof (cases a)
  case (Addr4 w)
  with assms show ?thesis
    by (cases "n < 32") (auto simp: addr_bits_def ones_shr_eq unat_or_mask)
next
  case (Addr6 w0 w1 w2 w3)
  consider "n = 0" | "0 < n \<and> n < 32" | "n = 32" | "n = 64" | "n = 96" | "n = 128"
    using assms by (auto simp: Addr6 addr_bits_def prefix_words_eq split: if_splits)
  then show ?thesis
  proof cases
    case 2
    let ?K = "2 ^ (32 - n) :: nat" and ?q = "unat w0 div 2 ^ (32 - n)"
    have hi: "hi = Addr6 (w0 OR mask (32 - n)) (- 1) (- 1) (- 1)"
      using assms Addr6 2 by (auto simp: addr_bits_def prefix_words_eq)
    have "addr_val hi = (?q * ?K + (?K - 1)) * 2 ^ 96 + (2 ^ 96 - 1)"
      by (simp add: hi words_val_def unat_or_mask unat_ones)
    also have "\<dots> = ?q * (?K * 2 ^ 96) + (?K * 2 ^ 96 - 1)"
      by (cases ?K) (simp_all add: algebra_simps)
    also have "?K * 2 ^ 96 = 2 ^ (128 - n)" using 2 words_val_prefix(2) [of n] by simp
    finally show ?thesis
      using 2 by (simp add: Addr6 hi addr_bits_def words_val_prefix(1))
  qed (use assms
      prefix_words_eq [of n "\<lambda>w m. w OR m" "- 1" w3 w2 w1 w0] in
      \<open>auto simp: Addr6 addr_bits_def words_val_div [simplified]\<close>, simp_all add: words_val_def unat_ones)
qed (use assms in \<open>auto simp: addr_bits_def\<close>)

lemma addr_le_family: "get_addr_family a = get_addr_family b \<Longrightarrow> is_valid a \<Longrightarrow> addr_le a b \<longleftrightarrow> addr_val a \<le> addr_val b"
  by (cases a; cases b)
     (auto simp: addr_le_def is_valid_def s6_addr_lt word_le_nat_alt word_less_nat_alt le_less words_val_eq
      word_unat_eq_iff)

subsection \<open>Properties\<close>

text \<open>C25: For a prefix length that the code can shift by, the interval from the masked address
  to the broadcast address, compared with the operators of the class, holds exactly the
  addresses of the family that agree with the address above the prefix.\<close>

theorem subnet_range:
  assumes "is_valid a" "n \<le> addr_bits a"
    and "mask_addr (of_nat n) a = Some lo" "broadcast_addr (of_nat n) a = Some hi"
    and "get_addr_family b = get_addr_family a"
  shows "addr_le lo b \<and> addr_le b hi \<longleftrightarrow>
    addr_val b div 2 ^ (addr_bits a - n) = addr_val a div 2 ^ (addr_bits a - n)"
  using assms mask_addr_value [OF assms(2,3)] broadcast_addr_value [OF assms(2,4)]
    block_interval [of "2 ^ (addr_bits a - n)" "addr_val a" "addr_val b"]
  by (simp add: addr_le_family is_valid_def)

lemma subnet_range_witness:
  "(addr_le (Addr4 0x0A010000) (Addr4 0x0A01FF07) \<and> addr_le (Addr4 0x0A01FF07) (Addr4 0x0A01FFFF)) =
     (addr_val (Addr4 0x0A01FF07) div 2 ^ 16 = addr_val (Addr4 0x0A010203) div 2 ^ 16)"
  using subnet_range [of "Addr4 0x0A010203" 16 "Addr4 0x0A010000" "Addr4 0x0A01FFFF" "Addr4 0x0A01FF07"]
  by (simp add: is_valid_def addr_bits_def ones_shr_def mask_eq_exp_minus_1)



text \<open>The prefix operators count modulo the size of the address space, the carry running
  through all four words of an IPv6 address, and the decrement is undone by the increment.\<close>

theorem addr_counting:
  "addr_val (addr_inc a) = (addr_val a + 1) mod 2 ^ addr_bits a \<and> addr_inc (addr_dec a) = a"
  by (simp add: addr_inc_val addr_inc_dec)

text \<open>On addresses of one family the byte loop of \<^verbatim>\<open>operator<\<close> is the order of the
  numeric values, so the containers keyed by addresses are strictly ordered: exactly one of
  less, equal and greater holds.\<close>

theorem addr_order:
  assumes "is_valid a" "get_addr_family a = get_addr_family b"
  shows "(addr_lt a b \<longleftrightarrow> addr_val a < addr_val b) \<and> (addr_eq a b \<longleftrightarrow> addr_val a = addr_val b)
    \<and> (addr_gt a b \<longleftrightarrow> addr_val b < addr_val a)"
proof -
  have lt: "addr_lt a b \<longleftrightarrow> addr_val a < addr_val b"
    using assms by (cases a; cases b) (auto simp: s6_addr_lt word_less_nat_alt is_valid_def)
  moreover have "addr_eq a b \<longleftrightarrow> addr_val a = addr_val b"
    using assms
    by (cases a; cases b) (auto simp: words_val_eq word_unat_eq_iff is_valid_def)
  ultimately show ?thesis by (auto simp: addr_gt_def)
qed

lemma addr_order_witness:
  "addr_lt (Addr6 0xFF020000 0 0 0x16) (Addr6 0xFF020000 0 1 2) \<longleftrightarrow>
     addr_val (Addr6 0xFF020000 0 0 0x16) < addr_val (Addr6 0xFF020000 0 1 2)"
  using addr_order [of "Addr6 0xFF020000 0 0 0x16" "Addr6 0xFF020000 0 1 2"] by (simp add: is_valid_def)

end
