(* ===== verification/Timers_Values.thy ===== *)
theory Timers_Values
  imports Proto_Def
begin

section \<open>Timers and counters of a querier (timers_values.hpp, timers_values.cpp)\<close>

text \<open>
  The tank of configurable values with its copy-on-write handling, the derived intervals,
  and the floating-point codes of RFC 3376 and RFC 3810: QQIC (8 bits), the IGMPv3 maximum
  response code (8 bits, tenths of a second) and the MLDv2 maximum response code (16 bits).
  A \<^verbatim>\<open>std::chrono\<close> count is an \<open>int\<close>; the codes and the counters keep their width.
\<close>

unbundle bit_operations_syntax

subsection \<open>The tank\<close>

record timers_values_tank =
  robustness_variable :: u32
  query_interval :: int              \<comment> \<open>seconds\<close>
  query_response_interval :: int     \<comment> \<open>milliseconds\<close>
  startup_query_interval :: int      \<comment> \<open>seconds\<close>
  startup_query_count :: u32
  last_listener_query_interval :: int \<comment> \<open>milliseconds\<close>
  last_listener_query_count :: u32
  unsolicited_report_interval :: int \<comment> \<open>milliseconds\<close>

definition default_timers_values_tank :: timers_values_tank where
  "default_timers_values_tank =
     \<lparr>robustness_variable = 2, query_interval = 125, query_response_interval = 10000,
      startup_query_interval = 125 div 4, startup_query_count = 2,
      last_listener_query_interval = 1000, last_listener_query_count = 2,
      unsolicited_report_interval = 1000\<rparr>"

text \<open>
  An object either points to the shared default tank (\<open>is_default\<close>) or owns a tank of its
  own; \<open>tank\<close> is the tank it points to.
\<close>

record timers_values =
  is_default :: bool
  tank :: timers_values_tank

definition new_timers_values :: timers_values where
  "new_timers_values = \<lparr>is_default = True, tank = default_timers_values_tank\<rparr>"

definition reset_to_default_tank :: "timers_values \<Rightarrow> timers_values" where
  "reset_to_default_tank tv =
     (if \<not> is_default tv then tv\<lparr>tank := default_timers_values_tank, is_default := True\<rparr> else tv)"

definition copy_timers_values :: "timers_values \<Rightarrow> timers_values \<Rightarrow> timers_values" where
  "copy_timers_values this tv =
     (let this' = reset_to_default_tank this
      in if \<not> is_default tv then this'\<lparr>is_default := False, tank := tank tv\<rparr> else this')"

definition set_new_tank :: "timers_values \<Rightarrow> timers_values" where
  "set_new_tank tv =
     (if is_default tv then tv\<lparr>tank := default_timers_values_tank, is_default := False\<rparr> else tv)"

definition set_robustness_variable :: "u32 \<Rightarrow> timers_values \<Rightarrow> timers_values" where
  "set_robustness_variable v tv =
     (let tv = set_new_tank tv in tv\<lparr>tank := (tank tv)\<lparr>robustness_variable := v\<rparr>\<rparr>)"

definition set_query_interval :: "int \<Rightarrow> timers_values \<Rightarrow> timers_values" where
  "set_query_interval v tv =
     (let tv = set_new_tank tv in tv\<lparr>tank := (tank tv)\<lparr>query_interval := v\<rparr>\<rparr>)"

definition set_query_response_interval :: "int \<Rightarrow> timers_values \<Rightarrow> timers_values" where
  "set_query_response_interval v tv =
     (let tv = set_new_tank tv in tv\<lparr>tank := (tank tv)\<lparr>query_response_interval := v\<rparr>\<rparr>)"

definition set_startup_query_interval :: "int \<Rightarrow> timers_values \<Rightarrow> timers_values" where
  "set_startup_query_interval v tv =
     (let tv = set_new_tank tv in tv\<lparr>tank := (tank tv)\<lparr>startup_query_interval := v\<rparr>\<rparr>)"

definition set_startup_query_count :: "u32 \<Rightarrow> timers_values \<Rightarrow> timers_values" where
  "set_startup_query_count v tv =
     (let tv = set_new_tank tv in tv\<lparr>tank := (tank tv)\<lparr>startup_query_count := v\<rparr>\<rparr>)"

definition set_last_listener_query_interval :: "int \<Rightarrow> timers_values \<Rightarrow> timers_values" where
  "set_last_listener_query_interval v tv =
     (let tv = set_new_tank tv in tv\<lparr>tank := (tank tv)\<lparr>last_listener_query_interval := v\<rparr>\<rparr>)"

definition set_last_listener_query_count :: "u32 \<Rightarrow> timers_values \<Rightarrow> timers_values" where
  "set_last_listener_query_count v tv =
     (let tv = set_new_tank tv in tv\<lparr>tank := (tank tv)\<lparr>last_listener_query_count := v\<rparr>\<rparr>)"

definition set_unsolicited_report_interval :: "int \<Rightarrow> timers_values \<Rightarrow> timers_values" where
  "set_unsolicited_report_interval v tv =
     (let tv = set_new_tank tv in tv\<lparr>tank := (tank tv)\<lparr>unsolicited_report_interval := v\<rparr>\<rparr>)"

text \<open>Intervals in milliseconds; a product of a counter and a duration has the signed
  64-bit representation of the duration.\<close>

definition get_robustness_variable :: "timers_values \<Rightarrow> u32" where
  "get_robustness_variable tv = robustness_variable (tank tv)"

definition get_query_interval :: "timers_values \<Rightarrow> int" where
  "get_query_interval tv = query_interval (tank tv)"

definition get_query_response_interval :: "timers_values \<Rightarrow> int" where
  "get_query_response_interval tv = query_response_interval (tank tv)"

definition get_multicast_address_listening_interval :: "timers_values \<Rightarrow> int" where
  "get_multicast_address_listening_interval tv =
     uint (robustness_variable (tank tv)) * query_interval (tank tv) * 1000 + query_response_interval (tank tv)"

text \<open>Halving a duration truncates towards zero.\<close>

definition half_duration :: "int \<Rightarrow> int" where
  "half_duration d = (if d < 0 then - ((- d) div 2) else d div 2)"

definition get_other_querier_present_interval :: "timers_values \<Rightarrow> int" where
  "get_other_querier_present_interval tv =
     uint (robustness_variable (tank tv)) * query_interval (tank tv) * 1000
       + half_duration (query_response_interval (tank tv))"

definition get_startup_query_interval :: "timers_values \<Rightarrow> int" where
  "get_startup_query_interval tv = startup_query_interval (tank tv)"

definition get_startup_query_count :: "timers_values \<Rightarrow> u32" where
  "get_startup_query_count tv = startup_query_count (tank tv)"

definition get_last_listener_query_interval :: "timers_values \<Rightarrow> int" where
  "get_last_listener_query_interval tv = last_listener_query_interval (tank tv)"

definition get_last_listener_query_count :: "timers_values \<Rightarrow> u32" where
  "get_last_listener_query_count tv = last_listener_query_count (tank tv)"

definition get_last_listener_query_time :: "timers_values \<Rightarrow> int" where
  "get_last_listener_query_time tv =
     last_listener_query_interval (tank tv) * uint (last_listener_query_count (tank tv))"

definition get_unsolicited_report_interval :: "timers_values \<Rightarrow> int" where
  "get_unsolicited_report_interval tv = unsolicited_report_interval (tank tv)"

definition get_older_host_present_interval :: "timers_values \<Rightarrow> int" where
  "get_older_host_present_interval tv =
     uint (robustness_variable (tank tv)) * query_interval (tank tv) * 1000 + query_response_interval (tank tv)"

subsection \<open>Floating-point codes\<close>

definition qqic_to_qqi_parts :: "bool \<Rightarrow> u32 \<Rightarrow> u32 \<Rightarrow> int" where
  "qqic_to_qqi_parts first_bit exp mant =
     (let exp = exp AND 0x7; mant = mant AND 0xF
      in if \<not> first_bit then uint (push_bit 4 exp OR mant)
         else uint (push_bit (unat (exp + 3)) (mant OR 0x10)))"

definition qqic_to_qqi :: "u8 \<Rightarrow> int" where
  "qqic_to_qqi qqic =
     (if uint qqic AND 0x80 \<noteq> 0
      then let exp = drop_bit 4 (uint qqic AND 0x70); mant = uint qqic AND 0xF
           in push_bit (nat (exp + 3)) (mant OR 0x10)
      else uint qqic)"

text \<open>
  \<^verbatim>\<open>1 << pos\<close> and \<^verbatim>\<open>0xF << exp\<close> are computed in \<^verbatim>\<open>int\<close>; \<^verbatim>\<open>1 << 31\<close> is the
  negative number that widens to a mask of bit 31 and everything above it.
\<close>

definition shl_int :: "u32 \<Rightarrow> nat \<Rightarrow> int" where
  "shl_int w n = sint (push_bit n w)"

text \<open>The search loop of \<^verbatim>\<open>qqi_to_qqic\<close>, from position 15 down to 7.\<close>

fun qqic_loop :: "int \<Rightarrow> nat \<Rightarrow> u8" where
  "qqic_loop sec pos =
     (if pos < 7 then 0
      else if sec AND shl_int 1 pos \<noteq> 0
      then let exp = pos - 5 + 1;
               mant = drop_bit exp (sec AND shl_int 0xF exp);
               exp = int exp - 3
           in word_of_int (push_bit 7 1 OR push_bit 4 exp OR mant)
      else qqic_loop sec (pos - 1))"

definition qqi_to_qqic :: "int \<Rightarrow> u8" where
  "qqi_to_qqic sec = (if sec < 128 then word_of_int sec else qqic_loop sec 15)"

definition maxrespc_igmpv3_to_maxrespi_parts :: "bool \<Rightarrow> u32 \<Rightarrow> u32 \<Rightarrow> int" where
  "maxrespc_igmpv3_to_maxrespi_parts first_bit exp mant = qqic_to_qqi_parts first_bit exp mant * 100"

definition maxrespc_igmpv3_to_maxrespi :: "u8 \<Rightarrow> int" where
  "maxrespc_igmpv3_to_maxrespi max_resp_code = qqic_to_qqi max_resp_code * 100"

text \<open>The integer division of C++ truncates towards zero.\<close>

definition cpp_div :: "int \<Rightarrow> int \<Rightarrow> int" where
  "cpp_div a b = sgn a * sgn b * (\<bar>a\<bar> div \<bar>b\<bar>)"

definition maxrespi_to_maxrespc_igmpv3 :: "int \<Rightarrow> u8" where
  "maxrespi_to_maxrespc_igmpv3 msec = qqi_to_qqic (cpp_div msec 100)"

definition maxrespc_mldv2_to_maxrespi_parts :: "bool \<Rightarrow> u32 \<Rightarrow> u32 \<Rightarrow> int" where
  "maxrespc_mldv2_to_maxrespi_parts first_bit exp mant =
     (let exp = exp AND 0x7; mant = mant AND 0xFFF
      in if \<not> first_bit then uint (push_bit 12 exp OR mant)
         else uint (push_bit (unat (exp + 3)) (mant OR 0x1000)))"

definition maxrespc_mldv2_to_maxrespi :: "u16 \<Rightarrow> int" where
  "maxrespc_mldv2_to_maxrespi max_resp_code =
     (if uint max_resp_code AND 0x8000 \<noteq> 0
      then let exp = drop_bit 12 (uint max_resp_code AND 0x7000); mant = uint max_resp_code AND 0xFFF
           in push_bit (nat (exp + 3)) (mant OR 0x1000)
      else uint max_resp_code)"

fun maxrespc_loop :: "int \<Rightarrow> nat \<Rightarrow> u16" where
  "maxrespc_loop msec pos =
     (if pos < 15 then 0
      else if msec AND shl_int 1 pos \<noteq> 0
      then let exp = pos - 12;
               mant = drop_bit exp (msec AND shl_int 0xFFF exp);
               exp = int exp - 3
           in word_of_int (push_bit 15 1 OR push_bit 12 exp OR mant)
      else maxrespc_loop msec (pos - 1))"

definition maxrespi_to_maxrespc_mldv2 :: "int \<Rightarrow> u16" where
  "maxrespi_to_maxrespc_mldv2 msec =
     (if msec < 32767 then word_of_int msec else maxrespc_loop msec 31)"

declare qqic_loop.simps [simp del] maxrespc_loop.simps [simp del]

subsection \<open>Shifts and masks as arithmetic\<close>

lemma shl_int_small:
  "pos < 31 \<Longrightarrow> shl_int 1 pos = 2 ^ pos"
  "e < 20 \<Longrightarrow> shl_int 0xF e = push_bit e 0xF"
  "e < 20 \<Longrightarrow> shl_int 0xFFF e = push_bit e 0xFFF"
proof -
  assume "pos < 31"
  then have "pos \<in> set [0..<31]" by simp
  then show "shl_int 1 pos = 2 ^ pos" by (auto simp: shl_int_def upt_rec)
next
  assume "e < 20"
  then have "e \<in> set [0..<20]" by simp
  then show "shl_int 0xF e = push_bit e 0xF" by (auto simp: shl_int_def upt_rec)
next
  assume "e < 20"
  then have "e \<in> set [0..<20]" by simp
  then show "shl_int 0xFFF e = push_bit e 0xFFF" by (auto simp: shl_int_def upt_rec)
qed

lemma and_pow_bit: "(s AND 2 ^ n \<noteq> 0) \<longleftrightarrow> bit (s::int) n"
  by (simp add: bit_iff_and_push_bit_not_eq_0 push_bit_eq_mult)

lemma bit_top: "2 ^ p \<le> s \<Longrightarrow> s < 2 ^ Suc p \<Longrightarrow> bit (s::int) p"
proof -
  assume a: "2 ^ p \<le> s" "s < 2 ^ Suc p"
  have "s div 2 ^ p = 1"
    using a by (intro div_pos_pos_trivial int_div_pos_eq [where r = "s - 2 ^ p"]) auto
  then show ?thesis by (simp add: bit_iff_odd)
qed

lemma bit_above: "0 \<le> s \<Longrightarrow> s < 2 ^ n \<Longrightarrow> n \<le> p \<Longrightarrow> \<not> bit (s::int) p"
  by (metis bit_take_bit_iff not_le take_bit_int_eq_self)

lemma test_bit_31: "0 \<le> s \<Longrightarrow> s < 2 ^ 31 \<Longrightarrow> s AND shl_int 1 31 = (0::int)"
proof (rule bit_eqI)
  fix n
  assume "0 \<le> s" "s < 2 ^ 31"
  then have "31 \<le> n \<Longrightarrow> \<not> bit s n" by (rule bit_above)
  moreover have "shl_int 1 31 = NOT (mask 31)"
    by (simp add: shl_int_def flip: minus_exp_eq_not_mask)
  ultimately show "bit (s AND shl_int 1 31) n \<longleftrightarrow> bit 0 n"
    by (cases "31 \<le> n") (auto simp: bit_simps)
qed

lemma mant_eq: "drop_bit e (s AND push_bit e (mask k)) = (s div 2 ^ e) mod 2 ^ k" for s :: int
proof -
  have "drop_bit e (s AND push_bit e (mask k)) = take_bit k (drop_bit e s)"
    by (rule bit_eqI) (auto simp: bit_simps)
  then show ?thesis by (simp only: drop_bit_eq_div take_bit_eq_mod)
qed

lemma or_add: "0 \<le> m \<Longrightarrow> m < 2 ^ k \<Longrightarrow> push_bit k e OR m = e * 2 ^ k + (m::int)"
  using concat_bit_eq [of k m e]
  by (simp add: concat_bit_def take_bit_int_eq_self push_bit_eq_mult or.commute)

lemma pow_range_pos: "2 ^ p \<le> s \<Longrightarrow> 0 \<le> (s::int)"
  by (meson order_trans zero_le_numeral zero_le_power)

subsection \<open>The codes\<close>

lemma qqic_pack:
  "e < 8 \<Longrightarrow> 0 \<le> e \<Longrightarrow> 0 \<le> m \<Longrightarrow> m < 16 \<Longrightarrow>
     push_bit 7 1 OR push_bit 4 e OR m = 128 + e * 16 + (m::int)"
  using or_add [of m 4 e] or_add [of "e * 16 + m" 7 1] by simp

lemma maxrespc_pack:
  "e < 8 \<Longrightarrow> 0 \<le> e \<Longrightarrow> 0 \<le> m \<Longrightarrow> m < 4096 \<Longrightarrow>
     push_bit 15 1 OR push_bit 12 e OR m = 32768 + e * 4096 + (m::int)"
  using or_add [of m 12 e] or_add [of "e * 4096 + m" 15 1] by simp

lemma qqic_loop_finds:
  assumes "7 \<le> p" "p \<le> 14" "2 ^ p \<le> s" "s < 2 ^ Suc p" "p \<le> pos" "pos \<le> 15"
  shows "qqic_loop s pos = word_of_int (128 + int (p - 7) * 16 + (s div 2 ^ (p - 4)) mod 16)"
  using assms(5,6)
proof (induction pos)
  case 0
  with assms(1) show ?case by simp
next
  case (Suc pos)
  have shl: "shl_int 1 (Suc pos) = 2 ^ Suc pos" using Suc.prems by (simp add: shl_int_small)
  show ?case
  proof (cases "Suc pos = p")
    case True
    have e: "p - 5 + 1 = p - 4" "int (p - 4) - 3 = int (p - 7)" "p - 4 < 20" using assms(1,2) by auto
    have m: "drop_bit (p - 4) (s AND shl_int 0xF (p - 4)) = (s div 2 ^ (p - 4)) mod 16"
      using mant_eq [of "p - 4" s 4] e(3) by (simp add: shl_int_small mask_eq_exp_minus_1)
    have "s AND shl_int 1 p \<noteq> 0" using shl and_pow_bit bit_top assms(3,4) True by metis
    moreover have "push_bit 7 1 OR push_bit 4 (int (p - 7)) OR (s div 2 ^ (p - 4)) mod 16
      = 128 + int (p - 7) * 16 + (s div 2 ^ (p - 4)) mod 16"
      using assms(1,2) by (intro qqic_pack) auto
    ultimately show ?thesis
      using True assms(1) by (subst qqic_loop.simps)
        (simp add: e m Let_def del: drop_bit_and of_nat_diff of_int_add One_nat_def)
  next
    case False
    then have "\<not> bit s (Suc pos)"
      using bit_above [of s "Suc p" "Suc pos"] pow_range_pos assms(3,4) Suc.prems by auto
    then have "s AND shl_int 1 (Suc pos) = 0" using shl and_pow_bit by metis
    with False Suc assms(1) show ?thesis by (subst qqic_loop.simps) simp
  qed
qed

lemma maxrespc_loop_finds:
  assumes "15 \<le> p" "p \<le> 22" "2 ^ p \<le> s" "s < 2 ^ Suc p" "p \<le> pos" "pos \<le> 31"
  shows "maxrespc_loop s pos = word_of_int (32768 + int (p - 15) * 4096 + (s div 2 ^ (p - 12)) mod 4096)"
  using assms(5,6)
proof (induction pos)
  case 0
  with assms(1) show ?case by simp
next
  case (Suc pos)
  show ?case
  proof (cases "Suc pos = p")
    case True
    have e: "int (p - 12) - 3 = int (p - 15)" "p - 12 < 20" using assms(1,2) by auto
    have m: "drop_bit (p - 12) (s AND shl_int 0xFFF (p - 12)) = (s div 2 ^ (p - 12)) mod 4096"
      using mant_eq [of "p - 12" s 12] e(2) by (simp add: shl_int_small mask_eq_exp_minus_1)
    have "shl_int 1 p = 2 ^ p" using assms(2) by (simp add: shl_int_small)
    then have "s AND shl_int 1 p \<noteq> 0" using and_pow_bit bit_top assms(3,4) by metis
    moreover have "push_bit 15 1 OR push_bit 12 (int (p - 15)) OR (s div 2 ^ (p - 12)) mod 4096
      = 32768 + int (p - 15) * 4096 + (s div 2 ^ (p - 12)) mod 4096"
      using assms(1,2) by (intro maxrespc_pack) auto
    ultimately show ?thesis
      using True assms(1) by (subst maxrespc_loop.simps)
        (simp add: e m Let_def del: drop_bit_and of_nat_diff of_int_add)
  next
    case False
    have s: "0 \<le> s" using pow_range_pos assms(3) .
    have "s AND shl_int 1 (Suc pos) = 0"
    proof (cases "Suc pos = 31")
      case True
      have "(2::int) ^ Suc p \<le> 2 ^ 31" using assms(2) by (intro power_increasing) auto
      with True s assms(4) show ?thesis using test_bit_31 [of s] by simp
    next
      case f: False
      have "\<not> bit s (Suc pos)"
        using bit_above [of s "Suc p" "Suc pos"] s assms(4) Suc.prems False by auto
      with f Suc.prems show ?thesis using and_pow_bit [of s "Suc pos"] by (simp add: shl_int_small)
    qed
    with False Suc assms(1) show ?thesis by (subst maxrespc_loop.simps) simp
  qed
qed

lemma qqic_value:
  "128 \<le> uint c \<Longrightarrow> qqic_to_qqi c = (16 + uint c mod 16) * 2 ^ nat (uint c div 16 mod 8 + 3)"
proof -
  assume c: "128 \<le> uint c"
  have "uint c < 256" using uint_lt2p [of c] by simp
  then have b: "bit (uint c) 7" using bit_top [of 7 "uint c"] c by simp
  have e: "drop_bit 4 (uint c AND 0x70) = uint c div 16 mod 8"
    using mant_eq [of 4 "uint c" 3] by (simp add: mask_eq_exp_minus_1)
  have m: "uint c AND 0xF = uint c mod 16"
    using mant_eq [of 0 "uint c" 4] by (simp add: mask_eq_exp_minus_1)
  have "(uint c mod 16) OR 0x10 = 16 + uint c mod 16"
    using or_add [of "uint c mod 16" 4 1] by (simp add: or.commute)
  then show ?thesis
    using b and_pow_bit [of "uint c" 7] by 
    (simp add: qqic_to_qqi_def e m Let_def push_bit_eq_mult del: drop_bit_and)
qed

lemma qqic_value_small: "uint c < 128 \<Longrightarrow> qqic_to_qqi c = uint c"
  using bit_above [of "uint c" 7 7] and_pow_bit [of "uint c" 7] by (simp add: qqic_to_qqi_def)

lemma maxrespc_value:
  "32768 \<le> uint c \<Longrightarrow>
     maxrespc_mldv2_to_maxrespi c = (4096 + uint c mod 4096) * 2 ^ nat (uint c div 4096 mod 8 + 3)"
proof -
  assume c: "32768 \<le> uint c"
  have "uint c < 65536" using uint_lt2p [of c] by simp
  then have b: "bit (uint c) 15" using bit_top [of 15 "uint c"] c by simp
  have e: "drop_bit 12 (uint c AND 0x7000) = uint c div 4096 mod 8"
    using mant_eq [of 12 "uint c" 3] by (simp add: mask_eq_exp_minus_1)
  have m: "uint c AND 0xFFF = uint c mod 4096"
    using mant_eq [of 0 "uint c" 12] by (simp add: mask_eq_exp_minus_1)
  have "(uint c mod 4096) OR 0x1000 = 4096 + uint c mod 4096"
    using or_add [of "uint c mod 4096" 12 1] by (simp add: or.commute)
  then show ?thesis
    using b and_pow_bit [of "uint c" 15] by 
    (simp add: maxrespc_mldv2_to_maxrespi_def e m Let_def push_bit_eq_mult del: drop_bit_and)
qed

lemma maxrespc_value_small: "uint c < 32768 \<Longrightarrow> maxrespc_mldv2_to_maxrespi c = uint c"
  using bit_above [of "uint c" 15 15] and_pow_bit [of "uint c" 15]
  by (simp add: maxrespc_mldv2_to_maxrespi_def)

lemma quot_range: "0 < K \<Longrightarrow> a * K \<le> s \<Longrightarrow> s < b * K \<Longrightarrow> a \<le> s div K \<and> s div K < (b::int)"
proof -
  assume a: "0 < K" "a * K \<le> s" "s < b * K"
  have "a \<le> s div K" using zdiv_mono1 [OF a(2,1)] a(1) by simp
  moreover have "s div K < b"
  proof (rule ccontr)
    assume "\<not> s div K < b"
    then have "b * K \<le> (s div K) * K" using a(1) by (intro mult_right_mono) auto
    also have "\<dots> \<le> s" using a(1) by (simp add: minus_mod_eq_div_mult [symmetric])
    finally show False using a(3) by simp
  qed
  ultimately show ?thesis by simp
qed

lemma unpack_float:
  fixes u :: int
  assumes "8 * B \<le> u" "u < 16 * B" "0 < B"
  shows "u = 8 * B + (u div B mod 8) * B + u mod B"
proof -
  have q: "8 \<le> u div B" "u div B < 16" using quot_range [OF assms(3,1,2)] by simp_all
  have "q mod 8 = q - 8" if "8 \<le> q" "q < 16" for q :: int
    using that mod_pos_pos_trivial [of "q - 8" 8] minus_mod_self2 [of q 8] by simp
  with q have "(u div B mod 8) * B = (u div B) * B - 8 * B" by (simp add: left_diff_distrib)
  then show ?thesis by simp
qed

lemma pack_qqic:
  fixes e m :: int
  assumes "0 \<le> e" "e < 8" "0 \<le> m" "m < 16"
  shows "(128 + e * 16 + m) mod 16 = m" and "(128 + e * 16 + m) div 16 mod 8 = e"
proof -
  have *: "128 + e * 16 + m = m + (8 + e) * 16" by simp
  show "(128 + e * 16 + m) mod 16 = m"
    unfolding * mod_mult_self1 using assms(3,4) by (rule mod_pos_pos_trivial)
  have "(m + (8 + e) * 16) div 16 = (8 + e) + m div 16" by (rule div_mult_self1) simp
  then have "(128 + e * 16 + m) div 16 = 8 + e" unfolding * using assms(3,4) by simp
  moreover have "(8 + e) mod 8 = e" using assms by simp
  ultimately show "(128 + e * 16 + m) div 16 mod 8 = e" by simp
qed

lemma top_bit_exists:
  assumes "1 \<le> (s::int)"
  obtains p where "2 ^ p \<le> s" and "s < 2 ^ Suc p"
proof -
  obtain p :: nat where "2 ^ p \<le> nat s" and "nat s < 2 ^ (p + 1)"
    using ex_power_ivl1 [of 2 "nat s"] assms by (metis nat_mono nat_1 order_refl One_nat_def)
  then have "int (2 ^ p) \<le> s" and "s < int (2 ^ (p + 1))"
    using assms by (simp_all add: nat_less_iff le_nat_iff)
  then show ?thesis using that by simp
qed

lemma pow_between:
  assumes "2 ^ a \<le> s" "(s::int) < 2 ^ b" "2 ^ p \<le> s" "s < 2 ^ Suc p"
  shows "a \<le> p \<and> p < b"
proof -
  have "(2::int) ^ a < 2 ^ Suc p" and "(2::int) ^ p < 2 ^ b" using assms by linarith+
  then have "a < Suc p" and "p < b"
    using power_less_imp_less_exp [of "2::int"] one_less_numeral_iff semiring_norm(76) by blast+
  then show ?thesis by simp
qed

text \<open>Encoding a value whose leading bit is at position \<open>p\<close> keeps the five leading bits.\<close>

lemma qqic_decode_encode:
  assumes "7 \<le> p" "p \<le> 14" "2 ^ p \<le> s" "s < 2 ^ Suc p"
  shows "qqic_to_qqi (qqi_to_qqic s) = (s div 2 ^ (p - 4)) * 2 ^ (p - 4)"
proof -
  let ?m = "(s div 2 ^ (p - 4)) mod 16" and ?e = "int (p - 7)"
  have pw: "(2::int) ^ p = 16 * 2 ^ (p - 4)" 
    using power_add [of "2::int" 4 "p - 4"] assms(1) by simp
  have q: "16 \<le> s div 2 ^ (p - 4)" "s div 2 ^ (p - 4) < 32"
    using quot_range [of "2 ^ (p - 4)" 16 s 32] assms(3,4) pw by auto
  have "q = 16 + q mod 16" if "16 \<le> q" "q < 32" for q :: int using that by presburger
  with q have m: "s div 2 ^ (p - 4) = 16 + ?m" by blast
  have "(2::int) ^ 7 \<le> 2 ^ p" using assms(1) by (intro power_increasing) auto
  then have "qqi_to_qqic s = word_of_int (128 + ?e * 16 + ?m)"
    unfolding qqi_to_qqic_def using qqic_loop_finds [of p s 15] assms by simp
  then have u: "uint (qqi_to_qqic s) = 128 + ?e * 16 + ?m"
    using assms(1,2) by (simp only: uint_word_of_int_eq) (auto simp: take_bit_int_eq_self)
  have e: "0 \<le> ?e" "?e < 8" and n: "nat (?e + 3) = p - 4" using assms(1,2) by simp_all
  have "128 \<le> uint (qqi_to_qqic s)" unfolding u using e(1) by simp
  from qqic_value [OF this] have "qqic_to_qqi (qqi_to_qqic s) = (16 + ?m) * 2 ^ nat (?e + 3)"
    unfolding u pack_qqic [OF e pos_mod_sign pos_mod_bound, OF zero_less_numeral zero_less_numeral] .
  then show ?thesis unfolding n m [symmetric] .
qed

lemma float_range:
  "0 \<le> m \<Longrightarrow> m < 2 ^ k \<Longrightarrow>
     2 ^ (k + j) \<le> (2 ^ k + m) * 2 ^ j \<and> (2 ^ k + m) * 2 ^ j < (2::int) ^ Suc (k + j)"
proof -
  assume m: "0 \<le> m" "m < 2 ^ k"
  have "2 ^ k * 2 ^ j \<le> (2 ^ k + m) * 2 ^ j" using m by (intro mult_right_mono) auto
  moreover have "(2 ^ k + m) * 2 ^ j < (2 * 2 ^ k) * (2::int) ^ j" using m by (intro mult_strict_right_mono) auto
  ultimately show ?thesis by (simp add: power_add mult.assoc)
qed

text \<open>decoding any of the 256 QQIC codes to seconds and encoding the seconds again gives the
  code back: every interval a code can express is encoded without loss.\<close>

theorem qqic_round_trip: "qqi_to_qqic (qqic_to_qqi c) = c"
proof (cases "uint c < 128")
  case True
  then show ?thesis by (simp add: qqic_value_small qqi_to_qqic_def)
next
  case False
  have c: "uint c < 256" using uint_lt2p [of c] by simp
  define e where "e = nat (uint c div 16 mod 8)"
  define m where "m = uint c mod 16"
  have e: "int e = uint c div 16 mod 8" by (simp add: e_def)
  have em: "e < 8" "0 \<le> m" "m < 16" "uint c = 128 + int e * 16 + m"
    using unpack_float [of 16 "uint c"] c False unfolding e m_def by (simp_all add: e_def nat_less_iff not_less)
  have s: "qqic_to_qqi c = (16 + m) * 2 ^ (e + 3)"
    using False by (simp add: qqic_value e_def m_def nat_add_distrib)
  have r: "2 ^ (e + 7) \<le> qqic_to_qqi c" "qqic_to_qqi c < 2 ^ Suc (e + 7)"
    using float_range [of m 4 "e + 3"] em unfolding s by (simp_all add: add.commute)
  have "(2::int) ^ 7 \<le> 2 ^ (e + 7)" by (intro power_increasing) auto
  with r(1) have "qqi_to_qqic (qqic_to_qqi c) = qqic_loop (qqic_to_qqi c) 15"
    by (simp add: qqi_to_qqic_def)
  also have "\<dots> = word_of_int (128 + int e * 16 + ((16 + m) * 2 ^ (e + 3) div 2 ^ (e + 3)) mod 16)"
    using qqic_loop_finds [of "e + 7" "qqic_to_qqi c" 15] r em(1) by (simp add: s add.commute)
  also have "(16 + m) * 2 ^ (e + 3) div 2 ^ (e + 3) mod 16 = m" using em by simp
  finally show ?thesis using em(4) by (metis word_of_int_uint)
qed

text \<open>C23: the MLDv2 maximum response code of a 16-bit code's own delay is that code again,
  for every code but one.  The code \<open>0x7FFF\<close> stands for 32767 ms, and encoding 32767 ms
  returns 0: the test \<^verbatim>\<open>msec.count() < 32767\<close> leaves it to a loop that looks for a bit at
  position 15 or above.\<close>

theorem maxrespc_mldv2_round_trip:
  "maxrespi_to_maxrespc_mldv2 (maxrespc_mldv2_to_maxrespi c) = (if c = 0x7FFF then 0 else c)"
proof (cases "uint c < 32768")
  case True
  show ?thesis
  proof (cases "c = 0x7FFF")
    case True
    have "maxrespi_to_maxrespc_mldv2 (maxrespc_mldv2_to_maxrespi 0x7FFF) = 0" by code_simp
    with True show ?thesis by simp
  next
    case False
    then have "uint c \<noteq> 32767" by (metis word_of_int_uint word_of_int_numeral)
    with True False show ?thesis by (simp add: maxrespc_value_small maxrespi_to_maxrespc_mldv2_def)
  qed
next
  case False
  have c: "uint c < 65536" using uint_lt2p [of c] by simp
  define e where "e = nat (uint c div 4096 mod 8)"
  define m where "m = uint c mod 4096"
  have e: "int e = uint c div 4096 mod 8" by (simp add: e_def)
  have em: "e < 8" "0 \<le> m" "m < 4096" "uint c = 32768 + int e * 4096 + m"
    using unpack_float [of 4096 "uint c"] c False unfolding e m_def by (simp_all add: e_def nat_less_iff not_less)
  have s: "maxrespc_mldv2_to_maxrespi c = (4096 + m) * 2 ^ (e + 3)"
    using False by (simp add: maxrespc_value e_def m_def nat_add_distrib)
  have r: "2 ^ (e + 15) \<le> maxrespc_mldv2_to_maxrespi c" "maxrespc_mldv2_to_maxrespi c < 2 ^ Suc (e + 15)"
    using float_range [of m 12 "e + 3"] em unfolding s by (simp_all add: add.commute)
  have "(2::int) ^ 15 \<le> 2 ^ (e + 15)" by (intro power_increasing) auto
  with r(1) have "maxrespi_to_maxrespc_mldv2 (maxrespc_mldv2_to_maxrespi c) = maxrespc_loop (maxrespc_mldv2_to_maxrespi c) 31"
    by (simp add: maxrespi_to_maxrespc_mldv2_def)
  also have "\<dots> = word_of_int (32768 + int e * 4096 + ((4096 + m) * 2 ^ (e + 3) div 2 ^ (e + 3)) mod 4096)"
    using maxrespc_loop_finds [of "e + 15" "maxrespc_mldv2_to_maxrespi c" 31] r em(1) by (simp add: s add.commute)
  also have "(4096 + m) * 2 ^ (e + 3) div 2 ^ (e + 3) mod 4096 = m" using em by simp
  finally have "maxrespi_to_maxrespc_mldv2 (maxrespc_mldv2_to_maxrespi c) = c" using em(4) by (metis word_of_int_uint)
  moreover have "c \<noteq> 0x7FFF" using False by auto
  ultimately show ?thesis by simp
qed



subsection \<open>Copy-on-write of the tank\<close>

text \<open>An object that claims the default tank points to it: the default tank is never written.\<close>

definition tv_ok :: "timers_values \<Rightarrow> bool" where
  "tv_ok tv \<longleftrightarrow> (is_default tv \<longrightarrow> tank tv = default_timers_values_tank)"

lemmas tv_setter_defs =
  set_robustness_variable_def set_query_interval_def set_query_response_interval_def
  set_startup_query_interval_def set_startup_query_count_def set_last_listener_query_interval_def
  set_last_listener_query_count_def set_unsolicited_report_interval_def

lemma tv_ok_new [simp]: "tv_ok new_timers_values"
  by (simp add: tv_ok_def new_timers_values_def)

lemma set_new_tank_tank: "tv_ok tv \<Longrightarrow> tank (set_new_tank tv) = tank tv"
  by (simp add: tv_ok_def set_new_tank_def)

lemma copy_tank: "tv_ok tv \<Longrightarrow> tv_ok this \<Longrightarrow> tank (copy_timers_values this tv) = tank tv"
  by (simp add: tv_ok_def copy_timers_values_def reset_to_default_tank_def Let_def)

lemma tv_ok_copy: "tv_ok tv \<Longrightarrow> tv_ok this \<Longrightarrow> tv_ok (copy_timers_values this tv)"
  by (simp add: tv_ok_def copy_timers_values_def reset_to_default_tank_def Let_def)

lemma tv_ok_setters:
  "tv_ok (set_robustness_variable r tv)" "tv_ok (set_query_interval i tv)"
  "tv_ok (set_query_response_interval i tv)" "tv_ok (set_startup_query_interval i tv)"
  "tv_ok (set_startup_query_count r tv)" "tv_ok (set_last_listener_query_interval i tv)"
  "tv_ok (set_last_listener_query_count r tv)" "tv_ok (set_unsolicited_report_interval i tv)"
  by (simp_all add: tv_setter_defs set_new_tank_def tv_ok_def Let_def)

end
