(* ===== verification/Membership_Db.thy ===== *)
theory Membership_Db
  imports Addr_Storage Timers_Values
begin

section \<open>Messages and the membership database (message_format.hpp, membership_db.hpp)\<close>

text \<open>
  The messages the components exchange and the membership database of a querier.  A
  \<^verbatim>\<open>std::shared_ptr\<close> to a timer message is the message itself with the identity of the
  object (\<open>tm_ptr\<close>), which is what the code compares with \<^verbatim>\<open>get()\<close>; a null pointer is
  \<open>None\<close>.  A \<^verbatim>\<open>source_list<source>\<close> is a container keyed by the source address that holds
  the two mutable members of \<^verbatim>\<open>source\<close>.  Times are nanoseconds of the steady clock,
  durations milliseconds, as in the code.
\<close>

subsection \<open>Message types\<close>

datatype message_type =
  INIT_MSG | TEST_MSG | EXIT_MSG | FILTER_TIMER_MSG | SOURCE_TIMER_MSG | NEW_SOURCE_MSG
| NEW_SOURCE_TIMER_MSG | RET_GROUP_TIMER_MSG | RET_SOURCE_TIMER_MSG | OLDER_HOST_PRESENT_TIMER_MSG
| GENERAL_QUERY_TIMER_MSG | CONFIG_MSG | GROUP_RECORD_MSG | DEBUG_MSG

datatype message_priority = USER_INPUT | SYSTEMIC | LOSEABLE

fun prio_value :: "message_priority \<Rightarrow> nat" where
  "prio_value USER_INPUT = 1"
| "prio_value SYSTEMIC = 10"
| "prio_value LOSEABLE = 100"

subsection \<open>Timer messages and sources\<close>

record timer_msg =
  tm_ptr :: nat
  tm_type :: message_type
  tm_if_index :: u32
  tm_gaddr :: addr_storage
  tm_saddr :: addr_storage              \<comment> \<open>of a \<open>new_source_timer_msg\<close>\<close>
  tm_end_time :: int
  tm_is_used_as_source_timer :: bool    \<comment> \<open>of a \<open>filter_timer_msg\<close>\<close>

record source =
  shared_source_timer :: "timer_msg option"
  retransmission_count :: int

text \<open>\<^verbatim>\<open>source(const addr_storage&)\<close>: no timer, not in a retransmission state.\<close>

definition new_source :: source where
  "new_source = \<lparr>shared_source_timer = None, retransmission_count = - 1\<rparr>"

type_synonym source_list = "(addr_storage, source) smap"

definition source_list_of :: "addr_storage list \<Rightarrow> source_list" where
  "source_list_of as = fold (\<lambda>a. sm_insert a new_source) as []"

record group_record_msg =
  gr_if_index :: u32
  gr_record_type :: mcast_addr_record_type
  gr_gaddr :: addr_storage
  gr_slist :: source_list
  gr_grp_mem_proto :: group_mem_protocol

subsection \<open>The database\<close>

record gaddr_info =
  filter_mode :: mc_filter
  shared_filter_timer :: "timer_msg option"
  compatibility_mode_variable :: group_mem_protocol
  older_host_present_timer :: "timer_msg option"
  group_retransmission_timer :: "timer_msg option"
  group_retransmission_count :: int
  source_retransmission_timer :: "timer_msg option"
  include_requested_list :: source_list
  exclude_list :: source_list

definition new_gaddr_info :: "group_mem_protocol \<Rightarrow> gaddr_info" where
  "new_gaddr_info gmp =
     \<lparr>filter_mode = INCLUDE_MODE, shared_filter_timer = None, compatibility_mode_variable = gmp,
      older_host_present_timer = None, group_retransmission_timer = None,
      group_retransmission_count = - 1, source_retransmission_timer = None,
      include_requested_list = [], exclude_list = []\<rparr>"

definition is_in_backward_compatibility_mode :: "gaddr_info \<Rightarrow> bool" where
  "is_in_backward_compatibility_mode gi \<longleftrightarrow> \<not> is_newest_version (compatibility_mode_variable gi)"

definition is_under_bakcward_compatibility_effects :: "gaddr_info \<Rightarrow> bool" where
  "is_under_bakcward_compatibility_effects gi \<longleftrightarrow> older_host_present_timer gi \<noteq> None"

record membership_db =
  general_query_timer :: "timer_msg option"
  db_startup_query_count :: int
  querier_version_mode :: group_mem_protocol
  is_querier :: bool
  group_info :: "(addr_storage, gaddr_info) smap"

definition new_membership_db :: "group_mem_protocol \<Rightarrow> membership_db" where
  "new_membership_db gmp =
     \<lparr>general_query_timer = None, db_startup_query_count = 0, querier_version_mode = gmp,
      is_querier = True, group_info = []\<rparr>"

subsection \<open>References held by the database\<close>

text \<open>
  \<^verbatim>\<open>std::shared_ptr::unique\<close> asks whether any other reference to the object is left.
  When a timer message has been taken out of the timing database and the message queue,
  the references that can be left are the ones of the membership database.
\<close>

definition refers :: "timer_msg option \<Rightarrow> nat \<Rightarrow> bool" where
  "refers t p \<longleftrightarrow> (case t of None \<Rightarrow> False | Some m \<Rightarrow> tm_ptr m = p)"

definition slist_refers :: "source_list \<Rightarrow> nat \<Rightarrow> bool" where
  "slist_refers l p \<longleftrightarrow> list_ex (\<lambda>e. refers (shared_source_timer (snd e)) p) l"

definition ginfo_refers :: "gaddr_info \<Rightarrow> nat \<Rightarrow> bool" where
  "ginfo_refers gi p \<longleftrightarrow>
     refers (shared_filter_timer gi) p \<or> refers (older_host_present_timer gi) p
   \<or> refers (group_retransmission_timer gi) p \<or> refers (source_retransmission_timer gi) p
   \<or> slist_refers (include_requested_list gi) p \<or> slist_refers (exclude_list gi) p"

definition db_refers :: "membership_db \<Rightarrow> nat \<Rightarrow> bool" where
  "db_refers db p \<longleftrightarrow>
     refers (general_query_timer db) p \<or> list_ex (\<lambda>e. ginfo_refers (snd e) p) (group_info db)"

subsection \<open>Facts\<close>

lemma refers_simps [simp]:
  "\<not> refers None p" "refers (Some m) p \<longleftrightarrow> tm_ptr m = p"
  by (simp_all add: refers_def)

lemma slist_refers_iff:
  "smap_ok l \<Longrightarrow> slist_refers l p \<longleftrightarrow>
     (\<exists>k s. map_of l k = Some s \<and> refers (shared_source_timer s) p)"
  by (force simp: slist_refers_def list_ex_iff smap_elem_lookup [symmetric])

lemma source_list_of_ok [simp]: "smap_ok (source_list_of as)"
proof -
  have "smap_ok l \<Longrightarrow> smap_ok (fold (\<lambda>a. sm_insert a new_source) as l)" for l :: source_list
    by (induction as arbitrary: l) auto
  then show ?thesis by (simp add: source_list_of_def)
qed

lemma source_list_of_keys [simp]: "sm_keys (source_list_of as) = set as"
proof -
  have "sm_keys (fold (\<lambda>a. sm_insert a new_source) as l) = set as \<union> sm_keys l" for l :: source_list
    by (induction as arbitrary: l) auto
  then show ?thesis by (simp add: source_list_of_def)
qed

lemma source_list_of_fresh: "(k, s) \<in> set (source_list_of as) \<Longrightarrow> s = new_source"
proof -
  have "(k, s) \<in> set (fold (\<lambda>a. sm_insert a new_source) as l) \<Longrightarrow> (k, s) \<notin> set l \<Longrightarrow> s = new_source"
    for l :: source_list
    by (induction as arbitrary: l) (simp, fastforce dest: sm_insert_set)
  then show "(k, s) \<in> set (source_list_of as) \<Longrightarrow> s = new_source"
    by (simp add: source_list_of_def)
qed

end
