(* ===== verification/Timing.thy ===== *)
theory Timing
  imports Membership_Db
begin

section \<open>The world of a worker and the timing database (timing.hpp, timing.cpp)\<close>

text \<open>
  The effects of the program outside of its own objects.  \<open>clock\<close> gives the value of every
  read of \<^verbatim>\<open>steady_clock::now()\<close> in nanoseconds, \<open>sock_rc\<close> the result of every socket call
  that can fail; both are functions of the number of the call, so that every theorem holds
  for all behaviours of the clock and of the kernel.  \<open>next_ptr\<close> is the identity the next
  \<^verbatim>\<open>std::make_shared\<close> returns.  \<open>timing_db\<close> is the database of the timing thread, a
  \<^verbatim>\<open>std::map\<close> keyed by the time a message is due.  \<open>log\<close> records what the components do, in
  order; a notification of the routing management carries the database it can read at that
  moment.  \<open>crashed\<close> is set where the code would follow a null pointer.
\<close>

record query_packet =
  qp_dst :: addr_storage
  qp_code :: nat          \<comment> \<open>maximum response code, 8 bit for IGMP and 16 bit for MLD\<close>
  qp_group :: addr_storage
  qp_suppress :: bool
  qp_qrv :: nat           \<comment> \<open>3 bit\<close>
  qp_qqic :: u8
  qp_num_of_srcs :: u16
  qp_srcs :: "addr_storage list"
  qp_size :: nat

datatype socket_option =
  Create_raw_socket addr_family
| Set_loop_back bool
| Set_no_ip_hdr bool
| Set_auto_icmp6_checksum bool
| Add_router_alert_header
| Set_kernel_table int
| Set_mrt_flag bool
| Set_receive_timeout int
| Set_recv_icmpv6_msg
| Set_recv_pkt_info

datatype event =
  Add_time int timer_msg
| Join_group addr_storage u32
| Leave_group addr_storage u32
| Set_source_filter u32 addr_storage mc_filter "addr_storage list"
| Choose_if u32
| Send_packet u32 query_packet
| Set_option socket_option
| Add_vif int u32 addr_storage
| Del_vif int
| Bind_vif_to_table u32 int
| Unbind_vif_from_table u32 int
| Add_mroute int addr_storage addr_storage "int list"
| Del_mroute int addr_storage addr_storage
| State_change u32 addr_storage membership_db

type_synonym timing_db = "(int, nat \<times> timer_msg) smap"

record world =
  clock :: "nat \<Rightarrow> int"
  reads :: nat
  next_ptr :: nat
  timing_db :: timing_db
  sock_rc :: "nat \<Rightarrow> bool"
  sock_calls :: nat
  log :: "event list"
  crashed :: bool

text \<open>Following a null pointer: what the program does afterwards is not defined.\<close>

definition crash :: "world \<Rightarrow> world" where
  "crash w = w\<lparr>crashed := True\<rparr>"

definition emit :: "event \<Rightarrow> world \<Rightarrow> world" where
  "emit e w = w\<lparr>log := log w @ [e]\<rparr>"

definition now :: "world \<Rightarrow> int \<times> world" where
  "now w = (clock w (reads w), w\<lparr>reads := Suc (reads w)\<rparr>)"

definition sock_call :: "event \<Rightarrow> world \<Rightarrow> bool \<times> world" where
  "sock_call e w = (sock_rc w (sock_calls w), emit e (w\<lparr>sock_calls := Suc (sock_calls w)\<rparr>))"

definition ms :: "int \<Rightarrow> int" where
  "ms d = d * 1000000"

text \<open>The constructors of the timer messages read the clock once.\<close>

definition make_timer ::
  "message_type \<Rightarrow> u32 \<Rightarrow> addr_storage \<Rightarrow> addr_storage \<Rightarrow> int \<Rightarrow> world \<Rightarrow> timer_msg \<times> world" where
  "make_timer ty if_index gaddr saddr duration w =
     (let (t, w) = now w
      in (\<lparr>tm_ptr = next_ptr w, tm_type = ty, tm_if_index = if_index, tm_gaddr = gaddr,
           tm_saddr = saddr, tm_end_time = t + ms duration, tm_is_used_as_source_timer = False\<rparr>,
          w\<lparr>next_ptr := Suc (next_ptr w)\<rparr>))"

definition is_remaining_time_greater_than :: "timer_msg \<Rightarrow> int \<Rightarrow> world \<Rightarrow> bool \<times> world" where
  "is_remaining_time_greater_than tm comp_time w =
     (let (t, w) = now w in (t + ms comp_time \<le> tm_end_time tm, w))"

subsection \<open>The timing thread\<close>

definition add_time :: "int \<Rightarrow> nat \<Rightarrow> timer_msg \<Rightarrow> world \<Rightarrow> world" where
  "add_time delay msg_worker pr_msg w =
     (let (t, w) = now w
      in emit (Add_time delay pr_msg)
           (w\<lparr>timing_db := sm_insert (t + ms delay) (msg_worker, pr_msg) (timing_db w)\<rparr>))"

text \<open>
  One round of \<^verbatim>\<open>worker_thread\<close>: the entries that are due leave the database in order and
  are handed to their workers; the loop stops at the first entry that is not due.
\<close>

fun timing_expire :: "int \<Rightarrow> timing_db \<Rightarrow> (nat \<times> timer_msg) list \<times> timing_db" where
  "timing_expire t [] = ([], [])"
| "timing_expire t ((k, v) # db) =
     (if k \<le> t then (let (due, rest) = timing_expire t db in (v # due, rest))
      else ([], (k, v) # db))"

definition timing_round :: "world \<Rightarrow> (nat \<times> timer_msg) list \<times> world" where
  "timing_round w =
     (let (t, w) = now w; (due, rest) = timing_expire t (timing_db w)
      in (due, w\<lparr>timing_db := rest\<rparr>))"

definition stop_all_time :: "nat \<Rightarrow> world \<Rightarrow> world" where
  "stop_all_time msg_worker w =
     w\<lparr>timing_db := filter (\<lambda>e. fst (snd e) \<noteq> msg_worker) (timing_db w)\<rparr>"

subsection \<open>Facts\<close>

lemmas world_defs [model_defs] = emit_def now_def sock_call_def make_timer_def add_time_def

lemma timing_expire_eq:
  "smap_ok db \<Longrightarrow> timing_expire t db =
     (map snd (filter (\<lambda>e. fst e \<le> t) db), filter (\<lambda>e. \<not> fst e \<le> t) db)"
proof (induction db)
  case (Cons e db)
  obtain k v where e: "e = (k, v)" by (cases e)
  have rest: "k' > k" if "(k', v') \<in> set db" for k' v'
    using Cons.prems that by (auto simp: e sm_keys_def)
  show ?case
  proof (cases "k \<le> t")
    case True
    with Cons show ?thesis by (simp add: e)
  next
    case False
    then have "filter (\<lambda>e. fst e \<le> t) db = []" "filter (\<lambda>e. \<not> fst e \<le> t) db = db"
      using rest by (force simp: filter_empty_conv, force simp: filter_id_conv)
    with False show ?thesis by (simp add: e)
  qed
qed simp

lemma smap_ok_timing_expire: "smap_ok db \<Longrightarrow> smap_ok (snd (timing_expire t db))"
  by (simp add: timing_expire_eq)

text \<open>The timing thread hands out exactly the entries that are due, in the order of their due
  times, and keeps exactly the others.\<close>

theorem timing_round_due:
  assumes "smap_ok (timing_db w)"
  shows "fst (timing_round w) = map snd (filter (\<lambda>e. fst e \<le> clock w (reads w)) (timing_db w))
    \<and> timing_db (snd (timing_round w)) = filter (\<lambda>e. clock w (reads w) < fst e) (timing_db w)
    \<and> smap_ok (timing_db (snd (timing_round w)))"
  using assms by (simp add: timing_round_def now_def timing_expire_eq not_le)

text \<open>Adding a timer keeps every pending entry; the new one is pending at its due time, unless
  that very time is taken, in which case it is dropped.\<close>

theorem add_time_lookup:
  assumes "smap_ok (timing_db w)"
  shows "map_of (timing_db (add_time d wk tm w)) t =
      (if t = clock w (reads w) + ms d \<and> map_of (timing_db w) t = None then Some (wk, tm)
       else map_of (timing_db w) t)
    \<and> smap_ok (timing_db (add_time d wk tm w))"
  using assms by (auto simp: add_time_def now_def emit_def smap_laws)

definition example_timer :: "nat \<Rightarrow> timer_msg" where
  "example_timer p =
     \<lparr>tm_ptr = p, tm_type = SOURCE_TIMER_MSG, tm_if_index = 2, tm_gaddr = Addr4 0xE8010203,
      tm_saddr = Addr_Unspec, tm_end_time = 5, tm_is_used_as_source_timer = False\<rparr>"

definition example_world :: world where
  "example_world =
     \<lparr>clock = (\<lambda>n. 1000 * int n), reads = 0, next_ptr = 0, timing_db = [], sock_rc = (\<lambda>n. True),
      sock_calls = 0, log = [], crashed = False\<rparr>"

lemma timing_round_due_witness:
  "fst (timing_round (example_world\<lparr>timing_db := [(- 1, 0, example_timer 1), (7, 0, example_timer 2)]\<rparr>))
     = [(0, example_timer 1)]"
  using timing_round_due [of "example_world\<lparr>timing_db := [(- 1, 0, example_timer 1), (7, 0, example_timer 2)]\<rparr>"]
  by (simp add: example_world_def)

lemma add_time_lookup_witness:
  "map_of (timing_db (add_time 1 0 (example_timer 2) (example_world\<lparr>timing_db := [(1000000, 0, example_timer 1)]\<rparr>)))
     1000000 = Some (0, example_timer 1)"
  using add_time_lookup [of "example_world\<lparr>timing_db := [(1000000, 0, example_timer 1)]\<rparr>" 1 0 "example_timer 2" 1000000]
  by (simp add: example_world_def ms_def)

end
