(* ===== verification/Sender.thy ===== *)
theory Sender
  imports Timing
begin

section \<open>The senders (sender.hpp, igmp_sender.cpp, mld_sender.cpp)\<close>

text \<open>
  The two subclasses of \<^verbatim>\<open>sender\<close>.  Reports go upstream through the kernel's socket filter
  (\<^verbatim>\<open>join_group\<close>, \<^verbatim>\<open>leave_group\<close>, \<^verbatim>\<open>set_source_filter\<close>), queries are packets.  A packet is
  here the values of its fields that depend on the call; the theory \<open>Packets\<close> has its bytes.  The result of
  \<^verbatim>\<open>set_source_filter\<close>, \<^verbatim>\<open>choose_if\<close> and \<^verbatim>\<open>send_packet\<close> comes from the kernel (\<open>sock_rc\<close>).
\<close>

datatype sender_kind = IGMP_SENDER | MLD_SENDER

definition IPV4_ALL_HOST_ADDR :: addr_storage where
  "IPV4_ALL_HOST_ADDR = Addr4 0xE0000001"          \<comment> \<open>224.0.0.1\<close>

definition IPV6_ALL_NODES_ADDR :: addr_storage where
  "IPV6_ALL_NODES_ADDR = Addr6 0xFF020000 0 0 1"   \<comment> \<open>ff02::1\<close>

text \<open>\<^verbatim>\<open>igmp_sender::send_record\<close> and \<^verbatim>\<open>mld_sender::send_record\<close>; the second tests the
  filter mode \<open>EXCLUDE_MODE\<close> twice.\<close>

definition join_with_filter ::
  "u32 \<Rightarrow> mc_filter \<Rightarrow> addr_storage \<Rightarrow> source_list \<Rightarrow> world \<Rightarrow> bool \<times> world" where
  "join_with_filter if_index fm gaddr slist w =
     sock_call (Set_source_filter if_index gaddr fm (map fst slist)) (emit (Join_group gaddr if_index) w)"

definition igmp_send_record ::
  "u32 \<Rightarrow> mc_filter \<Rightarrow> addr_storage \<Rightarrow> source_list \<Rightarrow> world \<Rightarrow> bool \<times> world" where
  "igmp_send_record if_index fm gaddr slist w =
     (if fm = INCLUDE_MODE \<and> slist = [] then (True, emit (Leave_group gaddr if_index) w)
      else if fm = EXCLUDE_MODE \<or> fm = INCLUDE_MODE then join_with_filter if_index fm gaddr slist w
      else (False, w))"

definition mld_send_record ::
  "u32 \<Rightarrow> mc_filter \<Rightarrow> addr_storage \<Rightarrow> source_list \<Rightarrow> world \<Rightarrow> bool \<times> world" where
  "mld_send_record if_index fm gaddr slist w =
     (if fm = INCLUDE_MODE \<and> slist = [] then (True, emit (Leave_group gaddr if_index) w)
      else if fm = EXCLUDE_MODE \<or> fm = EXCLUDE_MODE then join_with_filter if_index fm gaddr slist w
      else (False, w))"

fun send_record ::
  "sender_kind \<Rightarrow> u32 \<Rightarrow> mc_filter \<Rightarrow> addr_storage \<Rightarrow> source_list \<Rightarrow> world \<Rightarrow> bool \<times> world" where
  "send_record IGMP_SENDER = igmp_send_record"
| "send_record MLD_SENDER = mld_send_record"

subsection \<open>Queries\<close>

definition query_qrv :: "timers_values \<Rightarrow> nat" where
  "query_qrv tv = (if get_robustness_variable tv \<le> 7 then unat (get_robustness_variable tv) else 0)"

definition igmpv3_query ::
  "timers_values \<Rightarrow> addr_storage \<Rightarrow> bool \<Rightarrow> source_list \<Rightarrow> query_packet" where
  "igmpv3_query tv gaddr s_flag slist =
     \<lparr>qp_dst = (if addr_eq gaddr (addr_of_family AF_INET) then IPV4_ALL_HOST_ADDR else gaddr),
      qp_code = unat (if addr_eq gaddr (addr_of_family AF_INET)
                      then maxrespi_to_maxrespc_igmpv3 (get_query_response_interval tv)
                      else maxrespi_to_maxrespc_igmpv3 (get_last_listener_query_time tv)),
      qp_group = gaddr, qp_suppress = s_flag, qp_qrv = query_qrv tv,
      qp_qqic = qqi_to_qqic (get_query_interval tv),
      qp_num_of_srcs = of_nat (length slist), qp_srcs = map fst slist,
      qp_size = 20 + 4 + 12 + length slist * 4\<rparr>"

definition mldv2_query ::
  "timers_values \<Rightarrow> addr_storage \<Rightarrow> bool \<Rightarrow> source_list \<Rightarrow> query_packet" where
  "mldv2_query tv gaddr s_flag slist =
     \<lparr>qp_dst = (if addr_eq gaddr (addr_of_family AF_INET6) then IPV6_ALL_NODES_ADDR else gaddr),
      qp_code = unat (if addr_eq gaddr (addr_of_family AF_INET6)
                      then maxrespi_to_maxrespc_mldv2 (get_query_response_interval tv)
                      else maxrespi_to_maxrespc_mldv2 (get_last_listener_query_time tv)),
      qp_group = gaddr, qp_suppress = s_flag, qp_qrv = query_qrv tv,
      qp_qqic = qqi_to_qqic (get_query_interval tv),
      qp_num_of_srcs = of_nat (length slist), qp_srcs = map fst slist,
      qp_size = 28 + length slist * 16\<rparr>"

fun build_query ::
  "sender_kind \<Rightarrow> timers_values \<Rightarrow> addr_storage \<Rightarrow> bool \<Rightarrow> source_list \<Rightarrow> query_packet" where
  "build_query IGMP_SENDER = igmpv3_query"
| "build_query MLD_SENDER = mldv2_query"

definition send_query ::
  "sender_kind \<Rightarrow> u32 \<Rightarrow> timers_values \<Rightarrow> addr_storage \<Rightarrow> bool \<Rightarrow> source_list \<Rightarrow> world \<Rightarrow> bool \<times> world" where
  "send_query k if_index tv gaddr s_flag slist w =
     (let (rc, w) = sock_call (Choose_if if_index) w
      in if \<not> rc then (False, w)
         else sock_call (Send_packet if_index (build_query k tv gaddr s_flag slist)) w)"

fun any_addr :: "sender_kind \<Rightarrow> addr_storage" where
  "any_addr IGMP_SENDER = addr_of_family AF_INET"
| "any_addr MLD_SENDER = addr_of_family AF_INET6"

definition sender_send_general_query ::
  "sender_kind \<Rightarrow> u32 \<Rightarrow> timers_values \<Rightarrow> world \<Rightarrow> bool \<times> world" where
  "sender_send_general_query k if_index tv w = send_query k if_index tv (any_addr k) False [] w"

definition send_mc_addr_specific_query ::
  "sender_kind \<Rightarrow> u32 \<Rightarrow> timers_values \<Rightarrow> addr_storage \<Rightarrow> bool \<Rightarrow> world \<Rightarrow> bool \<times> world" where
  "send_mc_addr_specific_query k if_index tv gaddr s_flag w = send_query k if_index tv gaddr s_flag [] w"

text \<open>
  The loop of \<^verbatim>\<open>send_mc_addr_and_src_specific_query\<close>: it lowers the retransmission count of
  the sources in a retransmission state, and sorts them by whether their timer is above the
  limit.  The copies are taken after the decrement; the list is visited in order, so the two
  copies are ordered.  Results: the list, \<open>rc\<close>, \<open>slist_lower\<close>, \<open>slist_higher\<close>.
\<close>

fun src_query_loop ::
  "int \<Rightarrow> source_list \<Rightarrow> world \<Rightarrow> source_list \<times> bool \<times> source_list \<times> source_list \<times> world" where
  "src_query_loop llqt [] w = ([], False, [], [], w)"
| "src_query_loop llqt ((a, s) # l) w =
     (if retransmission_count s > 0 then
        let s' = s\<lparr>retransmission_count := retransmission_count s - 1\<rparr> in
        case shared_source_timer s' of
          Some t \<Rightarrow>
            (let (greater, w) = is_remaining_time_greater_than t llqt w;
                 (l', rc, lo, hi, w) = src_query_loop llqt l w;
                 rc = (rc \<or> retransmission_count s' > 0)
             in if greater then ((a, s') # l', rc, lo, (a, s') # hi, w)
                else ((a, s') # l', rc, (a, s') # lo, hi, w))
        | None \<Rightarrow>
            (let (l', rc, lo, hi, w) = src_query_loop llqt l w
             in ((a, s') # l', rc \<or> retransmission_count s' > 0, lo, hi, w))
      else
        let (l', rc, lo, hi, w) = src_query_loop llqt l w in ((a, s) # l', rc, lo, hi, w))"

definition send_mc_addr_and_src_specific_query ::
  "sender_kind \<Rightarrow> u32 \<Rightarrow> timers_values \<Rightarrow> addr_storage \<Rightarrow> source_list \<Rightarrow> world
     \<Rightarrow> bool \<times> source_list \<times> world" where
  "send_mc_addr_and_src_specific_query k if_index tv gaddr slist w =
     (let (slist, rc, lo, hi, w) = src_query_loop (get_last_listener_query_time tv) slist w;
          w = (if hi \<noteq> [] then snd (send_query k if_index tv gaddr True hi w) else w);
          w = (if lo \<noteq> [] then snd (send_query k if_index tv gaddr False lo w) else w)
      in (rc, slist, w))"

subsection \<open>Frame facts: what sending leaves alone\<close>

text \<open>
  Sending never touches the timing database nor the identities of objects; the log only grows.
\<close>

fun is_sending :: "event \<Rightarrow> bool" where
  "is_sending (Join_group g i) = True"
| "is_sending (Leave_group g i) = True"
| "is_sending (Set_source_filter i g fm l) = True"
| "is_sending (Choose_if i) = True"
| "is_sending (Send_packet i p) = True"
| "is_sending e = False"

definition io_only :: "world \<Rightarrow> world \<Rightarrow> bool" where
  "io_only w w' \<longleftrightarrow> timing_db w' = timing_db w \<and> next_ptr w' = next_ptr w \<and> clock w' = clock w
     \<and> sock_rc w' = sock_rc w \<and> crashed w' = crashed w \<and> reads w \<le> reads w'
     \<and> (\<exists>es. log w' = log w @ es \<and> (\<forall>e \<in> set es. is_sending e))"

lemma io_only_refl [simp, intro]: "io_only w w"
  by (simp add: io_only_def)

lemma io_only_trans: "io_only w w' \<Longrightarrow> io_only w' w'' \<Longrightarrow> io_only w w''"
  unfolding io_only_def by (auto simp: ball_Un; fastforce)

lemma io_only_sock_call:
  "is_sending e \<Longrightarrow> io_only w (snd (sock_call e w))"
  by (simp add: io_only_def sock_call_def emit_def)

lemma io_only_remaining: "io_only w (snd (is_remaining_time_greater_than t c w))"
  by (simp add: io_only_def is_remaining_time_greater_than_def now_def)

lemma io_only_send_query: "io_only w (snd (send_query k i tv g s l w))"
  unfolding send_query_def Let_def
  by (auto split: prod.split intro: io_only_trans [OF io_only_sock_call io_only_sock_call] io_only_sock_call
      simp: case_prod_unfold)

lemma io_only_send_record: "io_only w (snd (send_record k i fm g l w))"
  by (cases k)
     (auto simp: io_only_def igmp_send_record_def mld_send_record_def join_with_filter_def sock_call_def emit_def)

subsection \<open>The source specific query\<close>

definition tick_source :: "addr_storage \<Rightarrow> source \<Rightarrow> source" where
  "tick_source a s =
     (if retransmission_count s > 0 then s\<lparr>retransmission_count := retransmission_count s - 1\<rparr> else s)"

definition queried :: "source_list \<Rightarrow> addr_storage set" where
  "queried l = {a. \<exists>s. (a, s) \<in> set l \<and> retransmission_count s > 0 \<and> shared_source_timer s \<noteq> None}"

lemma tick_source_simps [simp]:
  "shared_source_timer (tick_source a s) = shared_source_timer s"
  "retransmission_count (tick_source a s) > 0 \<longleftrightarrow> retransmission_count s > 1"
  by (auto simp: tick_source_def Let_def)

lemma queried_simps [simp]:
  "queried [] = {}"
  "queried ((a, s) # l) = (if retransmission_count s > 0 \<and> shared_source_timer s \<noteq> None
     then insert a (queried l) else queried l)"
  by (auto simp: queried_def)

lemma src_query_loop_frame: "src_query_loop c l w = (l', rc, lo, hi, w') \<Longrightarrow> io_only w w'"
proof (induction l arbitrary: w l' rc lo hi w')
  case (Cons e l)
  obtain a s where e: "e = (a, s)" by (cases e)
  show ?case
    using Cons.prems
    by (auto simp: e Let_def split: if_splits option.splits prod.splits
        dest!: Cons.IH intro: io_only_trans [OF io_only_remaining])
       (metis io_only_remaining io_only_trans snd_conv)+
qed auto

lemma src_query_loop_result:
  "src_query_loop c l w = (l', rc, lo, hi, w') \<Longrightarrow>
     l' = sm_map tick_source l \<and> (rc \<longleftrightarrow> (\<exists>e \<in> set l. retransmission_count (snd e) > 1))"
proof (induction l arbitrary: w l' rc lo hi w')
  case (Cons e l)
  obtain a s where e: "e = (a, s)" by (cases e)
  show ?case
    using Cons.prems
    by (auto simp: e Let_def sm_map_def tick_source_def split: if_splits option.splits prod.splits
        dest!: Cons.IH)
qed auto

lemma src_query_loop_Cons:
  assumes "src_query_loop c ((a, s) # l) w = (l', rc, lo, hi, w')"
  obtains (skip) w1 l1 rc1 where "src_query_loop c l w1 = (l1, rc1, lo, hi, w')"
      "\<not> (retransmission_count s > 0 \<and> shared_source_timer s \<noteq> None)"
  | (lower) w1 l1 rc1 lo1 where "src_query_loop c l w1 = (l1, rc1, lo1, hi, w')"
      "retransmission_count s > 0 \<and> shared_source_timer s \<noteq> None" "lo = (a, tick_source a s) # lo1"
  | (higher) w1 l1 rc1 hi1 where "src_query_loop c l w1 = (l1, rc1, lo, hi1, w')"
      "retransmission_count s > 0 \<and> shared_source_timer s \<noteq> None" "hi = (a, tick_source a s) # hi1"
proof (cases "retransmission_count s > 0 \<and> shared_source_timer s \<noteq> None")
  case True
  then obtain t where t: "shared_source_timer s = Some t" by auto
  obtain g w1 where g: "is_remaining_time_greater_than t c w = (g, w1)" by fastforce
  obtain l1 rc1 lo1 hi1 w2 where r: "src_query_loop c l w1 = (l1, rc1, lo1, hi1, w2)"
    by (metis prod_cases5)
  show thesis
  proof (cases g)
    case True': True
    show thesis
      using assms True t g r True' by (intro higher [of w1 l1 rc1 hi1]) (auto simp: tick_source_def Let_def)
  next
    case False
    show thesis
      using assms True t g r False by (intro lower [of w1 l1 rc1 lo1]) (auto simp: tick_source_def Let_def)
  qed
next
  case False
  obtain l1 rc1 lo1 hi1 w2 where r: "src_query_loop c l w = (l1, rc1, lo1, hi1, w2)"
    by (metis prod_cases5)
  show thesis
    using assms False r by (intro skip [of w l1 rc1]) (auto simp: Let_def split: if_splits)
qed

lemma src_query_loop_parts:
  "src_query_loop c l w = (l', rc, lo, hi, w') \<Longrightarrow>
     sm_keys lo \<union> sm_keys hi = queried l \<and> sm_keys lo \<subseteq> sm_keys l \<and> sm_keys hi \<subseteq> sm_keys l
     \<and> (smap_ok l \<longrightarrow> sm_keys lo \<inter> sm_keys hi = {})"
proof (induction l arbitrary: w l' rc lo hi w')
  case (Cons e l)
  obtain a s where e: "e = (a, s)" by (cases e)
  from Cons.prems [unfolded e] show ?case
  proof (cases rule: src_query_loop_Cons)
    case (skip w1 l1 rc1)
    with Cons.IH [OF skip(1)] show ?thesis by (auto simp: e)
  next
    case (lower w1 l1 rc1 lo1)
    with Cons.IH [OF lower(1)] show ?thesis by (auto simp: e)
  next
    case (higher w1 l1 rc1 hi1)
    with Cons.IH [OF higher(1)] show ?thesis by (auto simp: e)
  qed
qed auto

lemma io_only_send_src_query:
  "send_mc_addr_and_src_specific_query k i tv g l w = (rc, l', w') \<Longrightarrow> io_only w w'"
  unfolding send_mc_addr_and_src_specific_query_def Let_def
  by (auto split: prod.splits if_splits dest!: src_query_loop_frame intro: io_only_trans io_only_send_query)
     (metis io_only_trans io_only_send_query)

lemma send_src_query_result:
  "send_mc_addr_and_src_specific_query k i tv g l w = (rc, l', w') \<Longrightarrow>
     l' = sm_map tick_source l \<and> (rc \<longleftrightarrow> (\<exists>e \<in> set l. retransmission_count (snd e) > 1))"
  unfolding send_mc_addr_and_src_specific_query_def Let_def
  by (auto split: prod.splits dest!: src_query_loop_result)

end
