(* ===== verification/Querier.thy ===== *)
theory Querier
  imports Sender
begin

section \<open>The querier (querier.hpp, querier.cpp)\<close>

text \<open>
  One querier per downstream interface.  An operation takes the querier and the world and
  returns both.  The code passes a reference to the record of the group (\<^verbatim>\<open>gaddr_info&\<close>)
  down to the helpers; here a helper takes the record and returns it, and the caller stores it
  back.  \<^verbatim>\<open>send_Q\<close> on sources is always called with \<^verbatim>\<open>slist\<close> referring to the
  \<^verbatim>\<open>include_requested_list\<close> of the same record, so it takes the record only.  A
  notification hands the current state of the database to the callback (the event
  \<open>State_change\<close> of the log); it is always the last effect of a handler on the outside.
\<close>

record querier =
  q_msg_worker :: nat
  q_if_index :: u32
  q_db :: membership_db
  q_timers_values :: timers_values
  q_sender :: sender_kind

definition set_group :: "addr_storage \<Rightarrow> gaddr_info \<Rightarrow> querier \<Rightarrow> querier" where
  "set_group g gi q = q\<lparr>q_db := (q_db q)\<lparr>group_info := sm_assign g gi (group_info (q_db q))\<rparr>\<rparr>"

definition erase_group :: "addr_storage \<Rightarrow> querier \<Rightarrow> querier" where
  "erase_group g q = q\<lparr>q_db := (q_db q)\<lparr>group_info := sm_erase g (group_info (q_db q))\<rparr>\<rparr>"

definition find_group :: "addr_storage \<Rightarrow> querier \<Rightarrow> gaddr_info option" where
  "find_group g q = map_of (group_info (q_db q)) g"

subsection \<open>Start-up\<close>

definition IPV4_ALL_IGMP_ROUTERS_ADDR :: addr_storage where
  "IPV4_ALL_IGMP_ROUTERS_ADDR = Addr4 0xE0000002"            \<comment> \<open>224.0.0.2\<close>
definition IPV4_IGMPV3_ADDR :: addr_storage where
  "IPV4_IGMPV3_ADDR = Addr4 0xE0000016"                      \<comment> \<open>224.0.0.22\<close>
definition IPV6_ALL_NODE_LOCAL_ROUTER :: addr_storage where
  "IPV6_ALL_NODE_LOCAL_ROUTER = Addr6 0xFF010000 0 0 2"      \<comment> \<open>ff01::2\<close>
definition IPV6_ALL_SITE_LOCAL_ROUTER :: addr_storage where
  "IPV6_ALL_SITE_LOCAL_ROUTER = Addr6 0xFF050000 0 0 2"      \<comment> \<open>ff05::2\<close>
definition IPV6_ALL_MLDv2_CAPABLE_ROUTERS :: addr_storage where
  "IPV6_ALL_MLDv2_CAPABLE_ROUTERS = Addr6 0xFF020000 0 0 0x16" \<comment> \<open>ff02::16\<close>

text \<open>\<^verbatim>\<open>rc = rc && m_sender->send_record(...)\<close>: no call once one has failed.\<close>

fun send_router_groups ::
  "sender_kind \<Rightarrow> u32 \<Rightarrow> mc_filter \<Rightarrow> addr_storage list \<Rightarrow> world \<Rightarrow> bool \<times> world" where
  "send_router_groups k if_index mf [] w = (True, w)"
| "send_router_groups k if_index mf (g # gs) w =
     (let (rc, w) = send_record k if_index mf g [] w
      in if rc then send_router_groups k if_index mf gs w else (False, w))"

definition router_groups_function :: "bool \<Rightarrow> querier \<Rightarrow> world \<Rightarrow> bool \<times> world" where
  "router_groups_function subscribe q w =
     (let mf = (if subscribe then EXCLUDE_MODE else INCLUDE_MODE);
          gmp = querier_version_mode (q_db q)
      in if is_IPv4 gmp
         then send_router_groups (q_sender q) (q_if_index q) mf
                [IPV4_ALL_IGMP_ROUTERS_ADDR, IPV4_IGMPV3_ADDR] w
         else if is_IPv6 gmp
         then send_router_groups (q_sender q) (q_if_index q) mf
                [IPV6_ALL_NODE_LOCAL_ROUTER, IPV6_ALL_SITE_LOCAL_ROUTER, IPV6_ALL_MLDv2_CAPABLE_ROUTERS] w
         else (False, w))"

definition send_general_query :: "querier \<Rightarrow> world \<Rightarrow> bool \<times> querier \<times> world" where
  "send_general_query q w =
     (let db = q_db q; tv = q_timers_values q;
          db = (if general_query_timer db = None
                then db\<lparr>db_startup_query_count := to_int (get_startup_query_count tv - 1)\<rparr> else db);
          (db, t) = (if db_startup_query_count db > 0
                     then (db\<lparr>db_startup_query_count := db_startup_query_count db - 1\<rparr>,
                           get_startup_query_interval tv)
                     else (db, get_query_interval tv));
          (gqt, w) = make_timer GENERAL_QUERY_TIMER_MSG (q_if_index q) Addr_Unspec Addr_Unspec (t * 1000) w;
          q = q\<lparr>q_db := db\<lparr>general_query_timer := Some gqt\<rparr>\<rparr>;
          w = add_time (t * 1000) (q_msg_worker q) gqt w;
          (rc, w) = sender_send_general_query (q_sender q) (q_if_index q) tv w
      in (rc, q, w))"

datatype querier_error = Router_Groups_Failed | Query_Startup_Failed

definition new_querier ::
  "nat \<Rightarrow> group_mem_protocol \<Rightarrow> u32 \<Rightarrow> sender_kind \<Rightarrow> timers_values \<Rightarrow> world
     \<Rightarrow> (querier_error + querier) \<times> world" where
  "new_querier wk gmp if_index k tv w =
     (let q = \<lparr>q_msg_worker = wk, q_if_index = if_index, q_db = new_membership_db gmp,
               q_timers_values = copy_timers_values new_timers_values tv, q_sender = k\<rparr>;
          (rc, w) = router_groups_function True q w
      in if \<not> rc then (Inl Router_Groups_Failed, w)
         else let (rc, q, w) = send_general_query q w
              in if \<not> rc then (Inl Query_Startup_Failed, w) else (Inr q, w))"

definition delete_querier :: "querier \<Rightarrow> world \<Rightarrow> world" where
  "delete_querier q w = snd (router_groups_function False q w)"

subsection \<open>Table actions\<close>

text \<open>\<^verbatim>\<open>mali(gaddr, ginfo)\<close>, \<^verbatim>\<open>mali(gaddr, slist)\<close> and \<^verbatim>\<open>mali(gaddr, slist, tmp_slist)\<close>.\<close>

definition mali_filter :: "querier \<Rightarrow> addr_storage \<Rightarrow> gaddr_info \<Rightarrow> world \<Rightarrow> gaddr_info \<times> world" where
  "mali_filter q gaddr gi w =
     (let d = get_multicast_address_listening_interval (q_timers_values q);
          (ft, w) = make_timer FILTER_TIMER_MSG (q_if_index q) gaddr Addr_Unspec d w
      in (gi\<lparr>shared_filter_timer := Some ft\<rparr>, add_time d (q_msg_worker q) ft w))"

definition mali_list :: "querier \<Rightarrow> addr_storage \<Rightarrow> source_list \<Rightarrow> world \<Rightarrow> source_list \<times> world" where
  "mali_list q gaddr slist w =
     (let d = get_multicast_address_listening_interval (q_timers_values q);
          (st, w) = make_timer SOURCE_TIMER_MSG (q_if_index q) gaddr Addr_Unspec d w;
          slist = sm_map (\<lambda>a s. s\<lparr>shared_source_timer := Some st, retransmission_count := - 1\<rparr>) slist
      in (slist, if slist \<noteq> [] then add_time d (q_msg_worker q) st w else w))"

definition mali :: "querier \<Rightarrow> addr_storage \<Rightarrow> source_list \<Rightarrow> source_list \<Rightarrow> world \<Rightarrow> source_list \<times> world" where
  "mali q gaddr slist tmp_slist w =
     (let (tmp_slist, w) = mali_list q gaddr tmp_slist w
      in (fold (\<lambda>e l. case map_of l (fst e) of
                 Some s \<Rightarrow> sm_assign (fst e)
                   (s\<lparr>shared_source_timer := shared_source_timer (snd e), retransmission_count := - 1\<rparr>) l
               | None \<Rightarrow> l) tmp_slist slist, w))"

text \<open>\<^verbatim>\<open>send_Q(gaddr, ginfo)\<close>: the multicast address specific query, in its three parts.  The
  filter timer is followed without a check; a null pointer there is a crash.\<close>

definition start_group_query :: "querier \<Rightarrow> addr_storage \<Rightarrow> gaddr_info \<Rightarrow> world \<Rightarrow> gaddr_info \<times> world" where
  "start_group_query q gaddr gi w =
     (if group_retransmission_timer gi = None then
        let tv = q_timers_values q; llqt = get_last_listener_query_time tv;
            (ft, w) = make_timer FILTER_TIMER_MSG (q_if_index q) gaddr Addr_Unspec llqt w
        in (gi\<lparr>group_retransmission_count := to_int (get_last_listener_query_count tv),
              shared_filter_timer := Some ft\<rparr>, add_time llqt (q_msg_worker q) ft w)
      else (gi, w))"

definition schedule_group_query :: "querier \<Rightarrow> addr_storage \<Rightarrow> gaddr_info \<Rightarrow> world \<Rightarrow> gaddr_info \<times> world" where
  "schedule_group_query q gaddr gi w =
     (if group_retransmission_count gi > 0 then
        let llqi = get_last_listener_query_interval (q_timers_values q);
            (rt, w) = make_timer RET_GROUP_TIMER_MSG (q_if_index q) gaddr Addr_Unspec llqi w
        in (gi\<lparr>group_retransmission_timer := Some rt\<rparr>, add_time llqi (q_msg_worker q) rt w)
      else (gi, w))"

definition filter_timer_above_llqt :: "querier \<Rightarrow> gaddr_info \<Rightarrow> world \<Rightarrow> bool \<times> world" where
  "filter_timer_above_llqt q gi w =
     (case shared_filter_timer gi of
        Some ft \<Rightarrow> is_remaining_time_greater_than ft (get_last_listener_query_time (q_timers_values q)) w
      | None \<Rightarrow> (False, crash w))"

definition send_Q_group :: "querier \<Rightarrow> addr_storage \<Rightarrow> gaddr_info \<Rightarrow> world \<Rightarrow> gaddr_info \<times> world" where
  "send_Q_group q gaddr gi w =
     (let (gi, w) = start_group_query q gaddr gi w
      in if group_retransmission_count gi > 0 then
           let gi = gi\<lparr>group_retransmission_count := group_retransmission_count gi - 1\<rparr>;
               (gi, w) = schedule_group_query q gaddr gi w;
               (s_flag, w) = filter_timer_above_llqt q gi w;
               (rc, w) = send_mc_addr_specific_query (q_sender q) (q_if_index q) (q_timers_values q) gaddr s_flag w
           in (gi, w)
         else (gi\<lparr>group_retransmission_timer := None, group_retransmission_count := - 1\<rparr>, w))"

text \<open>\<^verbatim>\<open>send_Q(gaddr, ginfo, slist, tmp_list, in_retransmission_state)\<close>: the loop over
  \<^verbatim>\<open>tmp_list\<close>, then the query.\<close>

fun send_Q_mark :: "timer_msg \<Rightarrow> int \<Rightarrow> source_list \<Rightarrow> source_list \<Rightarrow> bool \<times> source_list" where
  "send_Q_mark st llqc slist [] = (False, slist)"
| "send_Q_mark st llqc slist (e # tmp) =
     (case map_of slist (fst e) of
        Some s \<Rightarrow>
          (if retransmission_count s < 1
           then (True, snd (send_Q_mark st llqc
                   (sm_assign (fst e) (s\<lparr>shared_source_timer := Some st, retransmission_count := llqc\<rparr>) slist) tmp))
           else send_Q_mark st llqc slist tmp)
      | None \<Rightarrow> send_Q_mark st llqc slist tmp)"

definition send_Q ::
  "querier \<Rightarrow> addr_storage \<Rightarrow> gaddr_info \<Rightarrow> source_list \<Rightarrow> bool \<Rightarrow> world \<Rightarrow> gaddr_info \<times> world" where
  "send_Q q gaddr gi tmp_list in_retransmission_state w =
     (let tv = q_timers_values q; llqt = get_last_listener_query_time tv;
          (st, w) = make_timer SOURCE_TIMER_MSG (q_if_index q) gaddr Addr_Unspec llqt w;
          (is_used, slist) = send_Q_mark st (to_long (get_last_listener_query_count tv))
                               (include_requested_list gi) tmp_list;
          w = (if is_used then add_time llqt (q_msg_worker q) st w else w)
      in if is_used \<or> in_retransmission_state then
           let (rc, slist, w) = send_mc_addr_and_src_specific_query (q_sender q) (q_if_index q) tv gaddr slist w;
               gi = gi\<lparr>include_requested_list := slist\<rparr>
           in if rc then
                let llqi = get_last_listener_query_interval tv;
                    (rst, w) = make_timer RET_SOURCE_TIMER_MSG (q_if_index q) gaddr Addr_Unspec llqi w
                in (gi\<lparr>source_retransmission_timer := Some rst\<rparr>, add_time llqi (q_msg_worker q) rst w)
              else (gi, w)
         else (gi\<lparr>include_requested_list := slist\<rparr>, w))"

subsection \<open>Reception of group records\<close>

definition state_change_notification :: "addr_storage \<Rightarrow> querier \<Rightarrow> world \<Rightarrow> world" where
  "state_change_notification gaddr q w = emit (State_change (q_if_index q) gaddr (q_db q)) w"

text \<open>The tables of RFC 3810, 7.4.1 and 7.4.2.  The flag tells whether the record ends with a
  notification.\<close>

fun receive_record_in_include_mode ::
  "querier \<Rightarrow> mcast_addr_record_type \<Rightarrow> addr_storage \<Rightarrow> source_list \<Rightarrow> gaddr_info \<Rightarrow> world
     \<Rightarrow> bool \<times> gaddr_info \<times> world" where
  "receive_record_in_include_mode q ALLOW_NEW_SOURCES gaddr B gi w =
     (let A = sl_add (include_requested_list gi) B;
          (A, w) = mali q gaddr A B w
      in (True, gi\<lparr>include_requested_list := A\<rparr>, w))"
| "receive_record_in_include_mode q BLOCK_OLD_SOURCES gaddr B gi w =
     (let (gi, w) = send_Q q gaddr gi (sl_mul (include_requested_list gi) B) False w
      in (False, gi, w))"
| "receive_record_in_include_mode q CHANGE_TO_EXCLUDE_MODE gaddr B gi w =
     (let gi = gi\<lparr>filter_mode := EXCLUDE_MODE\<rparr>;
          gi = gi\<lparr>include_requested_list := sl_mul (include_requested_list gi) B\<rparr>;
          gi = gi\<lparr>exclude_list := sl_sub B (include_requested_list gi)\<rparr>;
          (gi, w) = send_Q q gaddr gi (sl_mul (include_requested_list gi) B) False w;
          (gi, w) = mali_filter q gaddr gi w
      in (True, gi, w))"
| "receive_record_in_include_mode q CHANGE_TO_INCLUDE_MODE gaddr B gi w =
     (let gi = gi\<lparr>include_requested_list := sl_add (include_requested_list gi) B\<rparr>;
          (gi, w) = send_Q q gaddr gi (sl_sub (include_requested_list gi) B) False w;
          (A, w) = mali q gaddr (include_requested_list gi) B w
      in (True, gi\<lparr>include_requested_list := A\<rparr>, w))"
| "receive_record_in_include_mode q MODE_IS_EXCLUDE gaddr B gi w =
     (let gi = gi\<lparr>filter_mode := EXCLUDE_MODE\<rparr>;
          gi = gi\<lparr>include_requested_list := sl_mul (include_requested_list gi) B\<rparr>;
          gi = gi\<lparr>exclude_list := sl_sub B (include_requested_list gi)\<rparr>;
          (gi, w) = mali_filter q gaddr gi w
      in (True, gi, w))"
| "receive_record_in_include_mode q MODE_IS_INCLUDE gaddr B gi w =
     (let A = sl_add (include_requested_list gi) B;
          (A, w) = mali q gaddr A B w
      in (True, gi\<lparr>include_requested_list := A\<rparr>, w))"
| "receive_record_in_include_mode q (UNKNOWN_RECORD n) gaddr B gi w = (False, gi, w)"

fun receive_record_in_exclude_mode ::
  "querier \<Rightarrow> mcast_addr_record_type \<Rightarrow> addr_storage \<Rightarrow> source_list \<Rightarrow> gaddr_info \<Rightarrow> world
     \<Rightarrow> bool \<times> gaddr_info \<times> world" where
  "receive_record_in_exclude_mode q ALLOW_NEW_SOURCES gaddr A gi w =
     (let X = sl_add (include_requested_list gi) A; Y = sl_sub (exclude_list gi) A;
          (X, w) = mali q gaddr X A w
      in (True, gi\<lparr>include_requested_list := X, exclude_list := Y\<rparr>, w))"
| "receive_record_in_exclude_mode q BLOCK_OLD_SOURCES gaddr A gi w =
     (let gi = gi\<lparr>include_requested_list :=
                    sl_add (include_requested_list gi) (sl_sub A (exclude_list gi))\<rparr>;
          (gi, w) = send_Q q gaddr gi (sl_sub A (exclude_list gi)) False w
      in (False, gi, w))"
| "receive_record_in_exclude_mode q CHANGE_TO_EXCLUDE_MODE gaddr A gi w =
     (let X = sl_mul (include_requested_list gi) A;
          X = sl_add X (sl_sub A (exclude_list gi));
          Y = sl_mul (exclude_list gi) A;
          gi = gi\<lparr>include_requested_list := X, exclude_list := Y\<rparr>;
          (gi, w) = send_Q q gaddr gi X False w;
          (gi, w) = mali_filter q gaddr gi w
      in (True, gi, w))"
| "receive_record_in_exclude_mode q CHANGE_TO_INCLUDE_MODE gaddr A gi w =
     (let gi = gi\<lparr>include_requested_list := sl_add (include_requested_list gi) A,
                  exclude_list := sl_sub (exclude_list gi) A\<rparr>;
          (gi, w) = send_Q q gaddr gi (sl_sub (include_requested_list gi) A) False w;
          (gi, w) = send_Q_group q gaddr gi w;
          (X, w) = mali q gaddr (include_requested_list gi) A w
      in (True, gi\<lparr>include_requested_list := X\<rparr>, w))"
| "receive_record_in_exclude_mode q MODE_IS_EXCLUDE gaddr A gi w =
     (let (A, w) = mali q gaddr A (sl_sub (sl_sub A (include_requested_list gi)) (exclude_list gi)) w;
          X = sl_mul (include_requested_list gi) A;
          X = sl_add X (sl_sub A (exclude_list gi));
          Y = sl_mul (exclude_list gi) A;
          gi = gi\<lparr>include_requested_list := X, exclude_list := Y\<rparr>;
          (gi, w) = mali_filter q gaddr gi w
      in (True, gi, w))"
| "receive_record_in_exclude_mode q MODE_IS_INCLUDE gaddr A gi w =
     (let X = sl_add (include_requested_list gi) A; Y = sl_sub (exclude_list gi) A;
          (X, w) = mali q gaddr X A w
      in (True, gi\<lparr>include_requested_list := X, exclude_list := Y\<rparr>, w))"
| "receive_record_in_exclude_mode q (UNKNOWN_RECORD n) gaddr A gi w = (False, gi, w)"

text \<open>The backwards compatibility part of \<^verbatim>\<open>receive_record\<close>.\<close>

definition compatibility_update ::
  "querier \<Rightarrow> addr_storage \<Rightarrow> group_mem_protocol \<Rightarrow> gaddr_info \<Rightarrow> world \<Rightarrow> gaddr_info \<times> world" where
  "compatibility_update q gaddr proto gi w =
     (if \<not> is_newest_version proto \<and> is_older_or_equal_version proto (querier_version_mode (q_db q)) then
        let d = get_older_host_present_interval (q_timers_values q);
            (ohpt, w) = make_timer OLDER_HOST_PRESENT_TIMER_MSG (q_if_index q) gaddr Addr_Unspec d w
        in (gi\<lparr>compatibility_mode_variable := proto, older_host_present_timer := Some ohpt\<rparr>,
            add_time d (q_msg_worker q) ohpt w)
      else (gi, w))"

definition notify_if :: "bool \<Rightarrow> addr_storage \<Rightarrow> querier \<Rightarrow> world \<Rightarrow> world" where
  "notify_if b gaddr q w = (if b then state_change_notification gaddr q w else w)"

text \<open>The switch over the filter mode at the end of \<^verbatim>\<open>receive_record\<close>.\<close>

definition process_record ::
  "querier \<Rightarrow> mcast_addr_record_type \<Rightarrow> addr_storage \<Rightarrow> source_list \<Rightarrow> gaddr_info \<Rightarrow> world \<Rightarrow> querier \<times> world" where
  "process_record q rt gaddr slist gi w =
     (case filter_mode gi of
        INCLUDE_MODE \<Rightarrow>
          (let (n, gi, w) = receive_record_in_include_mode q rt gaddr slist gi w;
               q = set_group gaddr gi q;
               w = notify_if n gaddr q w
           in if filter_mode gi = INCLUDE_MODE \<and> include_requested_list gi = []
              then (erase_group gaddr q, w) else (q, w))
      | EXCLUDE_MODE \<Rightarrow>
          (let (n, gi, w) = receive_record_in_exclude_mode q rt gaddr slist gi w;
               q = set_group gaddr gi q
           in (q, notify_if n gaddr q w)))"

definition receive_record :: "querier \<Rightarrow> group_record_msg \<Rightarrow> world \<Rightarrow> querier \<times> world" where
  "receive_record q gr w =
     (let gaddr = gr_gaddr gr;
          gi = (case find_group gaddr q of Some gi \<Rightarrow> gi
                | None \<Rightarrow> new_gaddr_info (querier_version_mode (q_db q)));
          (gi, w) = compatibility_update q gaddr (gr_grp_mem_proto gr) gi w;
          compatible = is_in_backward_compatibility_mode gi;
          slist = (if compatible \<and> gr_record_type gr = CHANGE_TO_EXCLUDE_MODE then [] else gr_slist gr)
      in if compatible \<and> gr_record_type gr = BLOCK_OLD_SOURCES then (set_group gaddr gi q, w)
         else process_record q (gr_record_type gr) gaddr slist gi w)"

subsection \<open>Expiry of timers\<close>

definition drop_expired :: "nat \<Rightarrow> source_list \<Rightarrow> source_list" where
  "drop_expired p l = filter (\<lambda>e. \<not> refers (shared_source_timer (snd e)) p) l"

definition timer_triggerd_source_timer ::
  "querier \<Rightarrow> addr_storage \<Rightarrow> gaddr_info \<Rightarrow> timer_msg \<Rightarrow> world \<Rightarrow> querier \<times> world" where
  "timer_triggerd_source_timer q gaddr gi msg w =
     (let p = tm_ptr msg;
          kept = drop_expired p (include_requested_list gi);
          gone = filter (\<lambda>e. refers (shared_source_timer (snd e)) p) (include_requested_list gi)
      in case filter_mode gi of
           INCLUDE_MODE \<Rightarrow>
             (let q = (if kept = [] then erase_group gaddr q
                       else set_group gaddr (gi\<lparr>include_requested_list := kept\<rparr>) q)
              in (q, state_change_notification gaddr q w))
         | EXCLUDE_MODE \<Rightarrow>
             (let gone = sm_map (\<lambda>a s. s\<lparr>shared_source_timer := None\<rparr>) gone;
                  q = set_group gaddr (gi\<lparr>include_requested_list := kept,
                        exclude_list := sl_add (exclude_list gi) gone\<rparr>) q
              in (q, state_change_notification gaddr q w)))"

text \<open>
  \<^verbatim>\<open>timer_triggerd_filter_timer\<close>.  The flag \<open>is_used_as_source_timer\<close> is set by
  \<^verbatim>\<open>filter_time\<close> only, which has no caller; were it set, the record could be gone after the
  first part, and the reference to it would dangle.
\<close>

definition timer_triggerd_filter_timer ::
  "querier \<Rightarrow> addr_storage \<Rightarrow> gaddr_info \<Rightarrow> timer_msg \<Rightarrow> world \<Rightarrow> querier \<times> world" where
  "timer_triggerd_filter_timer q gaddr gi0 msg w =
     (let (q, w) = (if tm_is_used_as_source_timer msg
                    then timer_triggerd_source_timer q gaddr gi0 msg w else (q, w))
      in case find_group gaddr q of
           None \<Rightarrow> (q, crash w)
         | Some gi \<Rightarrow>
             (if \<not> refers (shared_filter_timer gi) (tm_ptr msg) then (q, w)
              else if filter_mode gi = EXCLUDE_MODE then
                let q = (if include_requested_list gi = [] then erase_group gaddr q
                         else set_group gaddr (gi\<lparr>filter_mode := INCLUDE_MODE,
                                shared_filter_timer := None, exclude_list := []\<rparr>) q)
                in (q, state_change_notification gaddr q w)
              else (q, w)))"

definition timer_triggerd_ret_group_timer ::
  "querier \<Rightarrow> addr_storage \<Rightarrow> gaddr_info \<Rightarrow> timer_msg \<Rightarrow> world \<Rightarrow> querier \<times> world" where
  "timer_triggerd_ret_group_timer q gaddr gi msg w =
     (if refers (group_retransmission_timer gi) (tm_ptr msg)
      then let (gi, w) = send_Q_group q (tm_gaddr msg) gi w in (set_group gaddr gi q, w)
      else (q, w))"

definition timer_triggerd_ret_source_timer ::
  "querier \<Rightarrow> addr_storage \<Rightarrow> gaddr_info \<Rightarrow> timer_msg \<Rightarrow> world \<Rightarrow> querier \<times> world" where
  "timer_triggerd_ret_source_timer q gaddr gi msg w =
     (if refers (source_retransmission_timer gi) (tm_ptr msg)
      then let (gi, w) = send_Q q (tm_gaddr msg) gi [] True w in (set_group gaddr gi q, w)
      else (q, w))"

definition timer_triggerd_general_query_timer :: "querier \<Rightarrow> timer_msg \<Rightarrow> world \<Rightarrow> querier \<times> world" where
  "timer_triggerd_general_query_timer q msg w =
     (if refers (general_query_timer (q_db q)) (tm_ptr msg)
      then snd (send_general_query q w) else (q, w))"

definition timer_triggerd_older_host_present_timer ::
  "querier \<Rightarrow> addr_storage \<Rightarrow> gaddr_info \<Rightarrow> timer_msg \<Rightarrow> world \<Rightarrow> querier \<times> world" where
  "timer_triggerd_older_host_present_timer q gaddr gi msg w =
     (if refers (older_host_present_timer gi) (tm_ptr msg) then
        if is_newest_version (compatibility_mode_variable gi) then
          let q = set_group gaddr (gi\<lparr>older_host_present_timer := None\<rparr>) q
          in (q, state_change_notification gaddr q w)
        else case get_next_newer_version (compatibility_mode_variable gi) of
          None \<Rightarrow> (q, crash w)
        | Some v \<Rightarrow>
            (let tv = q_timers_values q;
                 delay = (if is_newest_version v then get_multicast_address_listening_interval tv
                          else get_older_host_present_interval tv);
                 (ohpt, w) = make_timer OLDER_HOST_PRESENT_TIMER_MSG (q_if_index q) gaddr Addr_Unspec delay w
             in (set_group gaddr (gi\<lparr>compatibility_mode_variable := v,
                   older_host_present_timer := Some ohpt\<rparr>) q,
                 add_time delay (q_msg_worker q) ohpt w))
      else (q, w))"

text \<open>
  \<^verbatim>\<open>timer_triggerd\<close>.  The message is outdated when the caller's pointer is the only one;
  \<open>shared\<close> tells whether a reference from outside of the database (of the timing thread
  that has not yet erased its entry) is left.
\<close>

definition timer_triggerd :: "bool \<Rightarrow> querier \<Rightarrow> timer_msg \<Rightarrow> world \<Rightarrow> querier \<times> world" where
  "timer_triggerd shared q msg w =
     (let gaddr = tm_gaddr msg in
      if \<not> (db_refers (q_db q) (tm_ptr msg) \<or> shared) then (q, w)
      else if tm_type msg = GENERAL_QUERY_TIMER_MSG then timer_triggerd_general_query_timer q msg w
      else if tm_type msg \<in> {FILTER_TIMER_MSG, SOURCE_TIMER_MSG, RET_GROUP_TIMER_MSG,
                              RET_SOURCE_TIMER_MSG, OLDER_HOST_PRESENT_TIMER_MSG} then
        (case find_group gaddr q of
           None \<Rightarrow> (q, w)
         | Some gi \<Rightarrow>
             (if tm_type msg = FILTER_TIMER_MSG then timer_triggerd_filter_timer q gaddr gi msg w
              else if tm_type msg = SOURCE_TIMER_MSG then timer_triggerd_source_timer q gaddr gi msg w
              else if tm_type msg = RET_GROUP_TIMER_MSG then timer_triggerd_ret_group_timer q gaddr gi msg w
              else if tm_type msg = RET_SOURCE_TIMER_MSG then timer_triggerd_ret_source_timer q gaddr gi msg w
              else timer_triggerd_older_host_present_timer q gaddr gi msg w))
      else (q, w))"

subsection \<open>Queries about the state\<close>

type_synonym forward_list = "(addr_storage \<times> u32 list) list"

definition suggest_to_forward_traffic ::
  "querier \<Rightarrow> addr_storage \<Rightarrow> forward_list \<Rightarrow> (addr_storage \<Rightarrow> bool) \<Rightarrow> forward_list" where
  "suggest_to_forward_traffic q gaddr rt_slist interface_filter_fun =
     (let push = (\<lambda>ok. map (\<lambda>e. if ok (fst e) \<and> interface_filter_fun (fst e)
                                 then (fst e, snd e @ [q_if_index q]) else e) rt_slist)
      in if is_querier (q_db q) then
           case find_group gaddr q of
             None \<Rightarrow> rt_slist
           | Some gi \<Rightarrow>
               (if is_under_bakcward_compatibility_effects gi then push (\<lambda>a. True)
                else case filter_mode gi of
                  INCLUDE_MODE \<Rightarrow> push (\<lambda>a. sm_mem a (include_requested_list gi))
                | EXCLUDE_MODE \<Rightarrow> push (\<lambda>a. \<not> sm_mem a (exclude_list gi)))
         else rt_slist)"

definition get_group_membership_infos :: "membership_db \<Rightarrow> addr_storage \<Rightarrow> mc_filter \<times> source_list" where
  "get_group_membership_infos db gaddr =
     (case map_of (group_info db) gaddr of
        None \<Rightarrow> (INCLUDE_MODE, [])
      | Some gi \<Rightarrow>
          (if is_under_bakcward_compatibility_effects gi then (EXCLUDE_MODE, [])
           else (filter_mode gi,
                 case filter_mode gi of INCLUDE_MODE \<Rightarrow> include_requested_list gi
                 | EXCLUDE_MODE \<Rightarrow> exclude_list gi)))"

end
