(* ===== verification/Querier_Actions.thy ===== *)
theory Querier_Actions
  imports Querier
begin

section \<open>Effects of the table actions\<close>

text \<open>
  What \<^verbatim>\<open>mali\<close> and \<^verbatim>\<open>send_Q\<close> do to a source list, to a group record and to the world,
  stated once for the proofs about the record tables and the timers.
\<close>

subsection \<open>The world only moves forward\<close>

definition new_events :: "world \<Rightarrow> world \<Rightarrow> event list" where
  "new_events w w' = drop (length (log w)) (log w')"

definition extends :: "world \<Rightarrow> world \<Rightarrow> bool" where
  "extends w w' \<longleftrightarrow> (\<exists>es. log w' = log w @ es) \<and> next_ptr w \<le> next_ptr w'
     \<and> clock w' = clock w \<and> sock_rc w' = sock_rc w \<and> (crashed w \<longrightarrow> crashed w')"

lemma extends_refl [simp, intro]: "extends w w"
  by (simp add: extends_def)

lemma extends_trans [trans]: "extends w w' \<Longrightarrow> extends w' w'' \<Longrightarrow> extends w w''"
  unfolding extends_def by auto

lemma extends_log: "extends w w' \<Longrightarrow> e \<in> set (log w) \<Longrightarrow> e \<in> set (log w')"
  by (auto simp: extends_def)

lemma io_only_extends: "io_only w w' \<Longrightarrow> extends w w'"
  by (auto simp: io_only_def extends_def)

lemma extends_emit [simp, intro]: "extends w (emit e w)"
  by (simp add: extends_def emit_def)

lemma extends_make_timer: "make_timer ty i g s d w = (t, w') \<Longrightarrow> extends w w'"
  by (auto simp: make_timer_def now_def extends_def)

lemma extends_add_time [simp, intro]: "extends w (add_time d wk t w)"
  by (auto simp: add_time_def now_def emit_def extends_def)

lemma extends_crash [simp, intro]: "extends w (crash w)"
  by (auto simp: crash_def extends_def)

text \<open>A timer the timing database was asked to deliver.\<close>

definition scheduled :: "world \<Rightarrow> timer_msg \<Rightarrow> bool" where
  "scheduled w t \<longleftrightarrow> (\<exists>d. Add_time d t \<in> set (log w)) \<and> tm_ptr t < next_ptr w"

lemma scheduled_mono: "scheduled w t \<Longrightarrow> extends w w' \<Longrightarrow> scheduled w' t"
  unfolding scheduled_def extends_def by auto

lemma scheduled_new:
  "make_timer ty i g s d w = (t, w1) \<Longrightarrow> scheduled (add_time d wk t w1) t"
  by (auto simp: make_timer_def now_def add_time_def emit_def scheduled_def)

lemma make_timer_fields:
  "make_timer ty i g s d w = (t, w') \<Longrightarrow>
     tm_ptr t = next_ptr w \<and> tm_type t = ty \<and> tm_if_index t = i \<and> tm_gaddr t = g
     \<and> tm_end_time t = clock w (reads w) + ms d \<and> next_ptr w' = Suc (next_ptr w)
     \<and> \<not> tm_is_used_as_source_timer t \<and> log w' = log w \<and> crashed w' = crashed w \<and> timing_db w' = timing_db w"
  by (auto simp: make_timer_def now_def)

text \<open>A pointer that is null or refers to a scheduled timer of a type, for a group of the querier.\<close>

definition timer_for :: "querier \<Rightarrow> message_type \<Rightarrow> addr_storage \<Rightarrow> world \<Rightarrow> timer_msg option \<Rightarrow> bool" where
  "timer_for q ty g w ot \<longleftrightarrow> (\<forall>t. ot = Some t \<longrightarrow> scheduled w t \<and> tm_type t = ty \<and> tm_gaddr t = g
     \<and> tm_if_index t = q_if_index q \<and> \<not> tm_is_used_as_source_timer t)"

lemma timer_for_None [simp]: "timer_for q ty g w None"
  by (simp add: timer_for_def)

lemma timer_for_mono: "timer_for q ty g w ot \<Longrightarrow> extends w w' \<Longrightarrow> timer_for q ty g w' ot"
  by (auto simp: timer_for_def intro: scheduled_mono)

lemma timer_for_new:
  "make_timer ty (q_if_index q) g s d w = (t, w1) \<Longrightarrow> timer_for q ty g (add_time d wk t w1) (Some t)"
  using make_timer_fields scheduled_new by (fastforce simp: timer_for_def)

subsection \<open>mali\<close>

lemma lookup_in_keys: "map_of l k = Some s \<Longrightarrow> k \<in> sm_keys l"
  by (auto simp: sm_keys_dom)

text \<open>Updating the elements of a list one by one, as the loops over \<^verbatim>\<open>tmp_slist\<close> do.\<close>

lemma fold_update_keys:
  "sm_keys (fold (\<lambda>e l. case map_of l (fst e) of Some s \<Rightarrow> sm_assign (fst e) (f e s) l | None \<Rightarrow> l) tmp l)
     = sm_keys l"
  by (induction tmp arbitrary: l) (auto split: option.splits dest: lookup_in_keys)

lemma fold_update_ok:
  "smap_ok l \<Longrightarrow>
   smap_ok (fold (\<lambda>e l. case map_of l (fst e) of Some s \<Rightarrow> sm_assign (fst e) (f e s) l | None \<Rightarrow> l) tmp l)"
  by (induction tmp arbitrary: l) (auto split: option.splits)

lemma fold_update_lookup:
  assumes "smap_ok l" "distinct (map fst tmp)"
  shows "map_of (fold (\<lambda>e l. case map_of l (fst e) of Some s \<Rightarrow> sm_assign (fst e) (f e s) l | None \<Rightarrow> l) tmp l) k
    = (case map_of l k of None \<Rightarrow> None
       | Some s \<Rightarrow> Some (case map_of tmp k of None \<Rightarrow> s | Some v \<Rightarrow> f (k, v) s))"
  using assms
proof (induction tmp arbitrary: l)
  case Nil
  then show ?case by (simp split: option.splits)
next
  case (Cons e tmp)
  obtain a v where e: "e = (a, v)" by (cases e)
  show ?case
  proof (cases "map_of l a")
    case None
    with Cons show ?thesis by (auto simp: e split: option.splits)
  next
    case (Some s)
    have a: "map_of tmp a = None" using Cons.prems by (simp add: e map_of_eq_None_iff)
    have "map_of (fold (\<lambda>e l. case map_of l (fst e) of Some s \<Rightarrow> sm_assign (fst e) (f e s) l | None \<Rightarrow> l) tmp
        (sm_assign a (f (a, v) s) l)) k
      = (case map_of (sm_assign a (f (a, v) s) l) k of None \<Rightarrow> None
         | Some s \<Rightarrow> Some (case map_of tmp k of None \<Rightarrow> s | Some v \<Rightarrow> f (k, v) s))"
      using Cons by simp
    then show ?thesis using Some a Cons.prems by (auto simp: e smap_laws split: option.splits)
  qed
qed

definition refresh :: "timer_msg \<Rightarrow> source \<Rightarrow> source" where
  "refresh st s = s\<lparr>shared_source_timer := Some st, retransmission_count := - 1\<rparr>"

lemma mali_list_lookup:
  "mali_list q g tmp w = (tmp', w') \<Longrightarrow> make_timer SOURCE_TIMER_MSG (q_if_index q) g Addr_Unspec
       (get_multicast_address_listening_interval (q_timers_values q)) w = (st, w1) \<Longrightarrow>
     tmp' = sm_map (\<lambda>a. refresh st) tmp
     \<and> w' = (if tmp = [] then w1 else add_time (get_multicast_address_listening_interval (q_timers_values q))
                (q_msg_worker q) st w1)"
  by (auto simp: mali_list_def refresh_def [abs_def] Let_def)

lemma mali_result:
  assumes "mali q g l tmp w = (l', w')" "smap_ok l" "smap_ok tmp"
  obtains st w1 where
    "make_timer SOURCE_TIMER_MSG (q_if_index q) g Addr_Unspec
       (get_multicast_address_listening_interval (q_timers_values q)) w = (st, w1)"
    "w' = (if tmp = [] then w1 else add_time (get_multicast_address_listening_interval (q_timers_values q))
       (q_msg_worker q) st w1)"
    "sm_keys l' = sm_keys l" "smap_ok l'"
    "\<And>k. map_of l' k = (if k \<in> sm_keys tmp then map_option (refresh st) (map_of l k) else map_of l k)"
proof -
  obtain st w1 where st: "make_timer SOURCE_TIMER_MSG (q_if_index q) g Addr_Unspec
       (get_multicast_address_listening_interval (q_timers_values q)) w = (st, w1)" by fastforce
  obtain tmp' w2 where t: "mali_list q g tmp w = (tmp', w2)" by fastforce
  note r = mali_list_lookup [OF t st]
  let ?f = "\<lambda>e s. s\<lparr>shared_source_timer := shared_source_timer (snd e), retransmission_count := - 1\<rparr>"
  have l': "l' = fold (\<lambda>e l. case map_of l (fst e) of Some s \<Rightarrow> sm_assign (fst e) (?f e s) l | None \<Rightarrow> l) tmp' l"
    and w': "w' = w2"
    using assms(1) t by (auto simp: mali_def)
  have ok: "smap_ok tmp'" using r assms(3) by simp
  have "map_of l' k = (if k \<in> sm_keys tmp then map_option (refresh st) (map_of l k) else map_of l k)" for k
    unfolding l' fold_update_lookup [OF assms(2) smap_ok_distinct [OF ok], of ?f]
    using r by (auto simp: lookup_map refresh_def map_of_None_keys split: option.splits)
       (auto simp: sm_keys_dom)
  then show thesis
    using that [OF st] r w' fold_update_keys [of ?f tmp' l] fold_update_ok [OF assms(2), of ?f tmp'] l' by simp
qed

lemma extends_mali: "mali q g l tmp w = (l', w') \<Longrightarrow> extends w w'"
  by (auto simp: mali_def mali_list_def Let_def split: prod.splits
      intro: extends_trans [OF extends_make_timer])

lemma mali_filter_result:
  assumes "mali_filter q g gi w = (gi', w')"
  obtains ft where "gi' = gi\<lparr>shared_filter_timer := Some ft\<rparr>" "scheduled w' ft"
    "tm_type ft = FILTER_TIMER_MSG" "tm_gaddr ft = g" "tm_ptr ft = next_ptr w" "extends w w'"
    "\<not> tm_is_used_as_source_timer ft" "tm_if_index ft = q_if_index q" "crashed w' = crashed w"
    "Add_time (get_multicast_address_listening_interval (q_timers_values q)) ft \<in> set (new_events w w')"
proof -
  let ?d = "get_multicast_address_listening_interval (q_timers_values q)"
  obtain ft w1 where ft: "make_timer FILTER_TIMER_MSG (q_if_index q) g Addr_Unspec ?d w = (ft, w1)" by fastforce
  with assms have r: "gi' = gi\<lparr>shared_filter_timer := Some ft\<rparr>" "w' = add_time ?d (q_msg_worker q) ft w1"
    by (auto simp: mali_filter_def)
  have "extends w w'" using ft r by (auto intro: extends_trans [OF extends_make_timer])
  moreover have "Add_time ?d ft \<in> set (new_events w w')" "crashed w' = crashed w"
    using make_timer_fields [OF ft] by (auto simp: r new_events_def add_time_def now_def emit_def)
  ultimately show thesis
    using that [OF r(1)] scheduled_new [OF ft] make_timer_fields [OF ft] r(2) by simp
qed

subsection \<open>The source specific query\<close>

definition mark :: "timer_msg \<Rightarrow> int \<Rightarrow> source_list \<Rightarrow> addr_storage \<Rightarrow> source \<Rightarrow> source" where
  "mark st c tmp k s =
     (if k \<in> sm_keys tmp \<and> retransmission_count s < 1
      then s\<lparr>shared_source_timer := Some st, retransmission_count := c\<rparr> else s)"

lemma send_Q_mark_result:
  "send_Q_mark st c l tmp = (u, l') \<Longrightarrow> smap_ok l \<Longrightarrow>
     smap_ok l' \<and> sm_keys l' = sm_keys l
     \<and> (\<forall>k. map_of l' k = map_option (mark st c tmp k) (map_of l k))
     \<and> (u \<longleftrightarrow> (\<exists>k s. k \<in> sm_keys tmp \<and> map_of l k = Some s \<and> retransmission_count s < 1))"
proof (induction tmp arbitrary: l u l')
  case Nil
  then show ?case by (auto simp: mark_def option.map_id0 [unfolded id_def])
next
  case (Cons e tmp)
  obtain a v where e: "e = (a, v)" by (cases e)
  consider (none) "map_of l a = None" | (busy) s where "map_of l a = Some s" "\<not> retransmission_count s < 1"
    | (set) s where "map_of l a = Some s" "retransmission_count s < 1" by fastforce
  then show ?case
  proof cases
    case none
    with Cons.prems have "send_Q_mark st c l tmp = (u, l')" by (simp add: e)
    moreover have "map_option (mark st c tmp k) (map_of l k) = map_option (mark st c (e # tmp) k) (map_of l k)" for k
      using none by (cases "map_of l k") (auto simp: e mark_def)
    ultimately show ?thesis using Cons.IH [of l u l'] Cons.prems(2) none by (auto simp: e)
  next
    case busy
    with Cons.prems have "send_Q_mark st c l tmp = (u, l')" by (simp add: e)
    moreover have "map_option (mark st c tmp k) (map_of l k) = map_option (mark st c (e # tmp) k) (map_of l k)" for k
      using busy by (cases "map_of l k") (auto simp: e mark_def)
    ultimately show ?thesis using Cons.IH [of l u l'] Cons.prems(2) busy by (auto simp: e)
  next
    case set
    let ?l = "sm_assign a (s\<lparr>shared_source_timer := Some st, retransmission_count := c\<rparr>) l"
    obtain u1 where "send_Q_mark st c ?l tmp = (u1, l')" and u: "u"
      using Cons.prems set by (cases "send_Q_mark st c ?l tmp") (auto simp: e)
    from Cons.IH [OF this(1)] Cons.prems(2) have
      ih: "smap_ok l'" "sm_keys l' = insert a (sm_keys l)"
        "\<forall>k. map_of l' k = map_option (mark st c tmp k) (map_of ?l k)"
      by simp_all
    moreover have "insert a (sm_keys l) = sm_keys l" using lookup_in_keys [OF set(1)] by auto
    moreover have "map_option (mark st c tmp k) (map_of ?l k) = map_option (mark st c (e # tmp) k) (map_of l k)" for k
      using set Cons.prems(2) by (cases "map_of l k") (auto simp: e mark_def smap_laws)
    ultimately show ?thesis using u set by (auto simp: e)
  qed
qed

lemma gaddr_info_same:
  "\<exists>l' t. gi\<lparr>include_requested_list := l\<rparr> = gi\<lparr>include_requested_list := l', source_retransmission_timer := t\<rparr>"
  "\<exists>l' t'. gi\<lparr>include_requested_list := l, source_retransmission_timer := t\<rparr>
     = gi\<lparr>include_requested_list := l', source_retransmission_timer := t'\<rparr>"
  by (rule exI [of _ l], rule exI [of _ "source_retransmission_timer gi"], simp) (intro exI, rule refl)

lemma send_Q_result:
  assumes "send_Q q g gi tmp ret w = (gi', w')" "smap_ok (include_requested_list gi)"
  obtains st w1 used where
    "make_timer SOURCE_TIMER_MSG (q_if_index q) g Addr_Unspec
       (get_last_listener_query_time (q_timers_values q)) w = (st, w1)"
    "used \<longleftrightarrow> (\<exists>k s. k \<in> sm_keys tmp \<and> map_of (include_requested_list gi) k = Some s
                   \<and> retransmission_count s < 1)"
    "used \<Longrightarrow> scheduled w' st"
    "used \<Longrightarrow> Add_time (get_last_listener_query_time (q_timers_values q)) st \<in> set (new_events w w')"
    "smap_ok (include_requested_list gi')"
    "sm_keys (include_requested_list gi') = sm_keys (include_requested_list gi)"
    "\<And>k. map_of (include_requested_list gi') k =
       map_option ((if used \<or> ret then tick_source k else id)
          \<circ> mark st (to_long (get_last_listener_query_count (q_timers_values q))) tmp k)
         (map_of (include_requested_list gi) k)"
    "\<exists>l t. gi' = gi\<lparr>include_requested_list := l, source_retransmission_timer := t\<rparr>"
    "source_retransmission_timer gi' = source_retransmission_timer gi \<or>
       timer_for q RET_SOURCE_TIMER_MSG g w' (source_retransmission_timer gi')"
    "extends w w'" "crashed w' = crashed w"
proof -
  let ?tv = "q_timers_values q"
  let ?llqt = "get_last_listener_query_time ?tv"
  let ?c = "to_long (get_last_listener_query_count ?tv)"
  obtain st w1 where st: "make_timer SOURCE_TIMER_MSG (q_if_index q) g Addr_Unspec ?llqt w = (st, w1)"
    by fastforce
  obtain u l1 where m: "send_Q_mark st ?c (include_requested_list gi) tmp = (u, l1)" by fastforce
  have mr: "smap_ok l1" "sm_keys l1 = sm_keys (include_requested_list gi)"
    and used: "u \<longleftrightarrow> (\<exists>k s. k \<in> sm_keys tmp \<and> map_of (include_requested_list gi) k = Some s
          \<and> retransmission_count s < 1)"
    using send_Q_mark_result [OF m assms(2)] by blast+
  have look: "map_of l1 k = map_option (mark st ?c tmp k) (map_of (include_requested_list gi) k)" for k
    using send_Q_mark_result [OF m assms(2)] by blast
  let ?w2 = "if u then add_time ?llqt (q_msg_worker q) st w1 else w1"
  have e2: "extends w ?w2" using extends_make_timer [OF st] by (auto intro: extends_trans)
  have sch: "u \<Longrightarrow> scheduled ?w2 st" using scheduled_new [OF st] by simp
  have log2: "u \<Longrightarrow> log ?w2 = log w @ [Add_time ?llqt st]"
    using make_timer_fields [OF st] by (simp add: add_time_def now_def emit_def)
  have c2: "crashed ?w2 = crashed w"
    using make_timer_fields [OF st] by (simp add: add_time_def now_def emit_def)
  have ev: "u \<Longrightarrow> extends ?w2 w' \<Longrightarrow> Add_time ?llqt st \<in> set (new_events w w')"
    using log2 by (auto simp: extends_def new_events_def)
  show thesis
  proof (cases "u \<or> ret")
    case False
    with assms(1) st m have r: "gi' = gi\<lparr>include_requested_list := l1\<rparr>" "w' = w1"
      by (auto simp: send_Q_def)
    have fr: "\<exists>l t. gi' = gi\<lparr>include_requested_list := l, source_retransmission_timer := t\<rparr>"
      unfolding r by (rule gaddr_info_same)
    show thesis
    proof (rule that [OF st, of u])
      show "map_of (include_requested_list gi') k =
          map_option ((if u \<or> ret then tick_source k else id) \<circ> mark st ?c tmp k)
            (map_of (include_requested_list gi) k)" for k
        using False by (simp add: r look)
      show "extends w w'" "crashed w' = crashed w" using e2 c2 False r by simp_all
      show "u \<longleftrightarrow> (\<exists>k s. k \<in> sm_keys tmp \<and> map_of (include_requested_list gi) k = Some s
          \<and> retransmission_count s < 1)" by (rule used)
    qed (use mr False r fr in simp_all)
  next
    case True
    obtain rc l2 w3 where s: "send_mc_addr_and_src_specific_query (q_sender q) (q_if_index q) ?tv g l1 ?w2 = (rc, l2, w3)"
      by (metis prod_cases3)
    have l2: "l2 = sm_map tick_source l1" using send_src_query_result [OF s] by simp
    have io: "io_only ?w2 w3" by (rule io_only_send_src_query [OF s])
    have e3: "extends ?w2 w3" using io by (rule io_only_extends)
    obtain rst w4 where rst: "make_timer RET_SOURCE_TIMER_MSG (q_if_index q) g Addr_Unspec
        (get_last_listener_query_interval ?tv) w3 = (rst, w4)" by fastforce
    have r: "gi' = (if rc then gi\<lparr>include_requested_list := l2, source_retransmission_timer := Some rst\<rparr>
                    else gi\<lparr>include_requested_list := l2\<rparr>)"
      "w' = (if rc then add_time (get_last_listener_query_interval ?tv) (q_msg_worker q) rst w4 else w3)"
      using assms(1) st m s rst True by (auto simp: send_Q_def Let_def split: if_splits)
    have e4: "extends w3 w'" using r(2) extends_make_timer [OF rst] by (auto intro: extends_trans)
    have e24: "extends ?w2 w'" using e3 e4 by (rule extends_trans)
    have i: "include_requested_list gi' = sm_map tick_source l1" using r(1) l2 by simp
    show thesis
    proof (rule that [OF st, of u])
      show "u \<Longrightarrow> scheduled w' st" using scheduled_mono [OF sch e24] .
      show "u \<Longrightarrow> Add_time ?llqt st \<in> set (new_events w w')" using ev e24 by simp
      show "map_of (include_requested_list gi') k =
          map_option ((if u \<or> ret then tick_source k else id) \<circ> mark st ?c tmp k)
            (map_of (include_requested_list gi) k)" for k
        using True by (simp add: i look lookup_map option.map_comp comp_def)
      show "source_retransmission_timer gi' = source_retransmission_timer gi \<or>
         timer_for q RET_SOURCE_TIMER_MSG g w' (source_retransmission_timer gi')"
        using r timer_for_new [OF rst] by auto
      show "\<exists>l t. gi' = gi\<lparr>include_requested_list := l, source_retransmission_timer := t\<rparr>"
        by (cases rc) (simp only: r(1) if_True, rule gaddr_info_same, simp only: r(1) if_False, rule gaddr_info_same)
      show "extends w w'" using e2 e24 by (rule extends_trans)
      show "crashed w' = crashed w"
        using c2 io r(2) make_timer_fields [OF rst] by (simp add: io_only_def add_time_def now_def emit_def)
      show "u \<longleftrightarrow> (\<exists>k s. k \<in> sm_keys tmp \<and> map_of (include_requested_list gi) k = Some s
          \<and> retransmission_count s < 1)" by (rule used)
    qed (use mr i in simp_all)
  qed
qed

subsection \<open>The multicast address specific query\<close>

definition group_frame :: "gaddr_info \<Rightarrow> gaddr_info \<Rightarrow> bool" where
  "group_frame gi gi' \<longleftrightarrow> filter_mode gi' = filter_mode gi
     \<and> compatibility_mode_variable gi' = compatibility_mode_variable gi
     \<and> older_host_present_timer gi' = older_host_present_timer gi
     \<and> source_retransmission_timer gi' = source_retransmission_timer gi
     \<and> include_requested_list gi' = include_requested_list gi \<and> exclude_list gi' = exclude_list gi"

lemma start_group_query_result:
  assumes "start_group_query q g gi w = (gi', w')"
  shows "group_frame gi gi' \<and> group_retransmission_timer gi' = group_retransmission_timer gi"
    and "timer_for q FILTER_TIMER_MSG g w (shared_filter_timer gi) \<Longrightarrow>
         timer_for q FILTER_TIMER_MSG g w' (shared_filter_timer gi')"
    and "extends w w' \<and> crashed w' = crashed w"
    and "group_retransmission_timer gi = None \<Longrightarrow> shared_filter_timer gi' \<noteq> None
         \<and> group_retransmission_count gi' = to_int (get_last_listener_query_count (q_timers_values q))"
    and "group_retransmission_timer gi \<noteq> None \<Longrightarrow> gi' = gi"
proof -
  let ?llqt = "get_last_listener_query_time (q_timers_values q)"
  obtain ft v where ft: "make_timer FILTER_TIMER_MSG (q_if_index q) g Addr_Unspec ?llqt w = (ft, v)" by fastforce
  note f = make_timer_fields [OF ft] and e = extends_make_timer [OF ft] and tf = timer_for_new [OF ft]
  show "group_frame gi gi' \<and> group_retransmission_timer gi' = group_retransmission_timer gi"
    and "timer_for q FILTER_TIMER_MSG g w (shared_filter_timer gi) \<Longrightarrow>
         timer_for q FILTER_TIMER_MSG g w' (shared_filter_timer gi')"
    and "group_retransmission_timer gi = None \<Longrightarrow> shared_filter_timer gi' \<noteq> None
         \<and> group_retransmission_count gi' = to_int (get_last_listener_query_count (q_timers_values q))"
    and "group_retransmission_timer gi \<noteq> None \<Longrightarrow> gi' = gi"
    using assms ft tf by (auto simp: start_group_query_def Let_def group_frame_def split: if_splits)
  show "extends w w' \<and> crashed w' = crashed w"
    using assms ft f extends_trans [OF e extends_add_time]
    by (auto simp: start_group_query_def Let_def add_time_def now_def emit_def split: if_splits)
qed

lemma schedule_group_query_result:
  assumes "schedule_group_query q g gi w = (gi', w')"
  shows "group_frame gi gi' \<and> shared_filter_timer gi' = shared_filter_timer gi
      \<and> group_retransmission_count gi' = group_retransmission_count gi"
    and "timer_for q RET_GROUP_TIMER_MSG g w (group_retransmission_timer gi) \<Longrightarrow>
         timer_for q RET_GROUP_TIMER_MSG g w' (group_retransmission_timer gi')"
    and "extends w w' \<and> crashed w' = crashed w"
    and "group_retransmission_count gi > 0 \<Longrightarrow> group_retransmission_timer gi' \<noteq> None"
    and "\<not> group_retransmission_count gi > 0 \<Longrightarrow> gi' = gi"
proof -
  let ?llqi = "get_last_listener_query_interval (q_timers_values q)"
  obtain rt v where rt: "make_timer RET_GROUP_TIMER_MSG (q_if_index q) g Addr_Unspec ?llqi w = (rt, v)" by fastforce
  note f = make_timer_fields [OF rt] and e = extends_make_timer [OF rt] and tf = timer_for_new [OF rt]
  show "group_frame gi gi' \<and> shared_filter_timer gi' = shared_filter_timer gi
      \<and> group_retransmission_count gi' = group_retransmission_count gi"
    and "timer_for q RET_GROUP_TIMER_MSG g w (group_retransmission_timer gi) \<Longrightarrow>
         timer_for q RET_GROUP_TIMER_MSG g w' (group_retransmission_timer gi')"
    and "group_retransmission_count gi > 0 \<Longrightarrow> group_retransmission_timer gi' \<noteq> None"
    and "\<not> group_retransmission_count gi > 0 \<Longrightarrow> gi' = gi"
    using assms rt tf by (auto simp: schedule_group_query_def Let_def group_frame_def split: if_splits)
  show "extends w w' \<and> crashed w' = crashed w"
    using assms rt f extends_trans [OF e extends_add_time]
    by (auto simp: schedule_group_query_def Let_def add_time_def now_def emit_def split: if_splits)
qed

lemma filter_timer_above_llqt_result:
  "filter_timer_above_llqt q gi w = (b, w') \<Longrightarrow>
     extends w w' \<and> (crashed w' \<longleftrightarrow> crashed w \<or> shared_filter_timer gi = None)"
  using io_only_extends [OF io_only_remaining]
  by (auto simp: filter_timer_above_llqt_def crash_def is_remaining_time_greater_than_def now_def extends_def
      split: option.splits)

lemma send_Q_group_result:
  assumes "send_Q_group q g gi w = (gi', w')"
    and "timer_for q FILTER_TIMER_MSG g w (shared_filter_timer gi)"
    and "timer_for q RET_GROUP_TIMER_MSG g w (group_retransmission_timer gi)"
  shows "group_frame gi gi'
    \<and> timer_for q FILTER_TIMER_MSG g w' (shared_filter_timer gi')
    \<and> timer_for q RET_GROUP_TIMER_MSG g w' (group_retransmission_timer gi')
    \<and> (shared_filter_timer gi \<noteq> None \<longrightarrow> shared_filter_timer gi' \<noteq> None)
    \<and> (group_retransmission_timer gi \<noteq> None \<longrightarrow> shared_filter_timer gi' = shared_filter_timer gi)
    \<and> extends w w'
    \<and> (crashed w' \<longleftrightarrow> crashed w \<or> group_retransmission_timer gi \<noteq> None \<and> shared_filter_timer gi = None
         \<and> group_retransmission_count gi > 0)"
proof -
  obtain gi1 w1 where s1: "start_group_query q g gi w = (gi1, w1)" by fastforce
  note r1 = start_group_query_result [OF s1]
  define gi1' where "gi1' = gi1\<lparr>group_retransmission_count := group_retransmission_count gi1 - 1\<rparr>"
  obtain gi2 w2 where s2: "schedule_group_query q g gi1' w1 = (gi2, w2)" by fastforce
  note r2 = schedule_group_query_result [OF s2]
  obtain sf w3 where s3: "filter_timer_above_llqt q gi2 w2 = (sf, w3)" by fastforce
  note r3 = filter_timer_above_llqt_result [OF s3]
  obtain rc w4 where s4: "send_mc_addr_specific_query (q_sender q) (q_if_index q) (q_timers_values q) g sf w3 = (rc, w4)"
    by fastforce
  have io: "io_only w3 w4"
    using io_only_send_query [of w3 "q_sender q" "q_if_index q" "q_timers_values q" g sf "[]"] s4
    by (simp add: send_mc_addr_specific_query_def)
  have t1: "timer_for q RET_GROUP_TIMER_MSG g w1 (group_retransmission_timer gi1)"
    using timer_for_mono [OF assms(3)] r1(1,3) by auto
  show ?thesis
  proof (cases "group_retransmission_count gi1 > 0")
    case True
    with assms(1) s1 s2 s3 s4 have r: "gi' = gi2" "w' = w4"
      by (auto simp: send_Q_group_def gi1'_def)
    have e: "extends w1 w'" "extends w2 w'" and e0: "extends w w1"
      using r(2) r1(3) r2(3) r3 io_only_extends [OF io] by (meson extends_trans)+
    have g2: "shared_filter_timer gi2 = shared_filter_timer gi1" "group_frame gi gi2"
      using r1(1) r2(1) by (auto simp: gi1'_def group_frame_def)
    have "timer_for q FILTER_TIMER_MSG g w' (shared_filter_timer gi')"
      using timer_for_mono [OF r1(2) [OF assms(2)] e(1)] by (simp add: r g2)
    moreover have "timer_for q RET_GROUP_TIMER_MSG g w' (group_retransmission_timer gi')"
      using timer_for_mono [OF r2(2) e(2)] t1 by (simp add: r gi1'_def)
    moreover have "crashed w' \<longleftrightarrow> crashed w \<or> shared_filter_timer gi1 = None"
      using r1(3) r2(3) r3 io by (auto simp: r(2) io_only_def g2)
    ultimately show ?thesis
      using r1(4,5) extends_trans [OF e0 e(1)] True by (cases "group_retransmission_timer gi = None") (auto simp: r(1) g2)
  next
    case False
    with assms(1) s1 False have r: "w' = w1"
      "gi' = gi1\<lparr>group_retransmission_timer := None, group_retransmission_count := - 1\<rparr>"
      by (auto simp: send_Q_group_def)
    with r1 assms(2) False show ?thesis
      by (cases "group_retransmission_timer gi = None") (auto simp: group_frame_def)
  qed
qed

end
