(* ===== verification/Querier_Table.thy ===== *)
theory Querier_Table
  imports Querier_Actions
begin

section \<open>The record tables of the querier: specification, refinement, invariant\<close>

text \<open>
  The abstract specification is the pair of tables of RFC 3810, 7.4.1 and 7.4.2 (RFC 3376,
  6.4): the state of a group is its filter mode with the sets of addresses, and a record
  changes it by set operations.  The handlers of the querier refine it.  The invariant
  \<open>ginfo_inv\<close> of a group record says that every requested source runs a timer that was handed
  to the timing database, that the exclude list runs none, and what belongs to each mode.
\<close>

subsection \<open>Specification\<close>

datatype router_state = Incl "addr_storage set" | Excl "addr_storage set" "addr_storage set"

fun rfc_next :: "router_state \<Rightarrow> mcast_addr_record_type \<Rightarrow> addr_storage set \<Rightarrow> router_state" where
  "rfc_next (Incl A) ALLOW_NEW_SOURCES B = Incl (A \<union> B)"
| "rfc_next (Incl A) BLOCK_OLD_SOURCES B = Incl A"
| "rfc_next (Incl A) CHANGE_TO_EXCLUDE_MODE B = Excl (A \<inter> B) (B - A)"
| "rfc_next (Incl A) CHANGE_TO_INCLUDE_MODE B = Incl (A \<union> B)"
| "rfc_next (Incl A) MODE_IS_EXCLUDE B = Excl (A \<inter> B) (B - A)"
| "rfc_next (Incl A) MODE_IS_INCLUDE B = Incl (A \<union> B)"
| "rfc_next (Excl X Y) ALLOW_NEW_SOURCES A = Excl (X \<union> A) (Y - A)"
| "rfc_next (Excl X Y) BLOCK_OLD_SOURCES A = Excl (X \<union> (A - Y)) Y"
| "rfc_next (Excl X Y) CHANGE_TO_EXCLUDE_MODE A = Excl (A - Y) (Y \<inter> A)"
| "rfc_next (Excl X Y) CHANGE_TO_INCLUDE_MODE A = Excl (X \<union> A) (Y - A)"
| "rfc_next (Excl X Y) MODE_IS_EXCLUDE A = Excl (A - Y) (Y \<inter> A)"
| "rfc_next (Excl X Y) MODE_IS_INCLUDE A = Excl (X \<union> A) (Y - A)"
| "rfc_next st (UNKNOWN_RECORD n) A = st"

definition abs_group :: "gaddr_info \<Rightarrow> router_state" where
  "abs_group gi = (case filter_mode gi of
     INCLUDE_MODE \<Rightarrow> Incl (sm_keys (include_requested_list gi))
   | EXCLUDE_MODE \<Rightarrow> Excl (sm_keys (include_requested_list gi)) (sm_keys (exclude_list gi)))"

subsection \<open>Invariant\<close>

definition src_timed :: "querier \<Rightarrow> addr_storage \<Rightarrow> world \<Rightarrow> source \<Rightarrow> bool" where
  "src_timed q g w s \<longleftrightarrow> shared_source_timer s \<noteq> None
     \<and> timer_for q SOURCE_TIMER_MSG g w (shared_source_timer s)"

definition requested_ok :: "querier \<Rightarrow> addr_storage \<Rightarrow> world \<Rightarrow> source_list \<Rightarrow> bool" where
  "requested_ok q g w l \<longleftrightarrow> smap_ok l \<and> (\<forall>k s. map_of l k = Some s \<longrightarrow> src_timed q g w s)"

definition untimed :: "source_list \<Rightarrow> bool" where
  "untimed l \<longleftrightarrow> smap_ok l \<and> (\<forall>k s. map_of l k = Some s \<longrightarrow> shared_source_timer s = None)"

definition ginfo_inv :: "querier \<Rightarrow> addr_storage \<Rightarrow> world \<Rightarrow> gaddr_info \<Rightarrow> bool" where
  "ginfo_inv q g w gi \<longleftrightarrow>
     requested_ok q g w (include_requested_list gi) \<and> untimed (exclude_list gi)
   \<and> timer_for q FILTER_TIMER_MSG g w (shared_filter_timer gi)
   \<and> timer_for q OLDER_HOST_PRESENT_TIMER_MSG g w (older_host_present_timer gi)
   \<and> timer_for q RET_GROUP_TIMER_MSG g w (group_retransmission_timer gi)
   \<and> timer_for q RET_SOURCE_TIMER_MSG g w (source_retransmission_timer gi)
   \<and> (case filter_mode gi of
        INCLUDE_MODE \<Rightarrow> exclude_list gi = [] \<and> shared_filter_timer gi = None
      | EXCLUDE_MODE \<Rightarrow> shared_filter_timer gi \<noteq> None
          \<and> sm_keys (include_requested_list gi) \<inter> sm_keys (exclude_list gi) = {})"

text \<open>A source list as the receivers build it.\<close>

definition fresh_slist :: "source_list \<Rightarrow> bool" where
  "fresh_slist l \<longleftrightarrow> smap_ok l \<and> (\<forall>k s. map_of l k = Some s \<longrightarrow> s = new_source)"

lemma src_timed_mono: "src_timed q g w s \<Longrightarrow> extends w w' \<Longrightarrow> src_timed q g w' s"
  by (auto simp: src_timed_def intro: timer_for_mono)

lemma requested_ok_mono: "requested_ok q g w l \<Longrightarrow> extends w w' \<Longrightarrow> requested_ok q g w' l"
  by (auto simp: requested_ok_def intro: src_timed_mono)

lemma ginfo_inv_mono: "ginfo_inv q g w gi \<Longrightarrow> extends w w' \<Longrightarrow> ginfo_inv q g w' gi"
  by (auto simp: ginfo_inv_def intro: timer_for_mono requested_ok_mono)

lemma fresh_untimed: "fresh_slist l \<Longrightarrow> untimed l"
  by (simp add: fresh_slist_def untimed_def) (metis new_source_def source.select_convs(1))

lemma fresh_source_list_of: "fresh_slist (source_list_of as)"
  by (auto simp: fresh_slist_def dest: map_of_SomeD source_list_of_fresh)

lemma fresh_Nil [simp]: "fresh_slist []"
  by (simp add: fresh_slist_def)

subsection \<open>The actions establish the invariant\<close>

lemma mali_requested:
  assumes "mali q g l tmp w = (l', w')" "smap_ok l" "smap_ok tmp"
    and "\<And>k s. map_of l k = Some s \<Longrightarrow> k \<notin> sm_keys tmp \<Longrightarrow> src_timed q g w s"
  shows "requested_ok q g w' l' \<and> sm_keys l' = sm_keys l \<and> extends w w' \<and> crashed w' = crashed w"
  using assms(1-3)
proof (cases rule: mali_result)
  case r: (1 st w1)
  have e: "extends w w'" by (rule extends_mali [OF assms(1)])
  have "src_timed q g w' s" if "map_of l' k = Some s" for k s
  proof (cases "k \<in> sm_keys tmp")
    case True
    then have "tmp \<noteq> []" by auto
    then have "timer_for q SOURCE_TIMER_MSG g w' (Some st)" using timer_for_new [OF r(1)] r(2) by simp
    with that True show ?thesis by (auto simp: r(5) refresh_def src_timed_def)
  next
    case False
    with that assms(4) [of k s] src_timed_mono [OF _ e] show ?thesis by (simp add: r(5))
  qed
  moreover have "crashed w' = crashed w"
    using make_timer_fields [OF r(1)] by (simp add: r(2) add_time_def now_def emit_def)
  ultimately show ?thesis using r(3,4) e by (simp add: requested_ok_def)
qed

definition query_frame :: "gaddr_info \<Rightarrow> gaddr_info \<Rightarrow> bool" where
  "query_frame gi gi' \<longleftrightarrow> filter_mode gi' = filter_mode gi
     \<and> shared_filter_timer gi' = shared_filter_timer gi
     \<and> compatibility_mode_variable gi' = compatibility_mode_variable gi
     \<and> older_host_present_timer gi' = older_host_present_timer gi
     \<and> group_retransmission_timer gi' = group_retransmission_timer gi
     \<and> group_retransmission_count gi' = group_retransmission_count gi \<and> exclude_list gi' = exclude_list gi"

lemma send_Q_requested_on:
  assumes "send_Q q g gi tmp ret w = (gi', w')" "smap_ok (include_requested_list gi)"
    and "\<And>k s. k \<in> S \<Longrightarrow> map_of (include_requested_list gi) k = Some s \<Longrightarrow>
           src_timed q g w s \<or> k \<in> sm_keys tmp \<and> retransmission_count s < 1"
    and "timer_for q RET_SOURCE_TIMER_MSG g w (source_retransmission_timer gi)"
  shows "smap_ok (include_requested_list gi')
    \<and> (\<forall>k s. k \<in> S \<longrightarrow> map_of (include_requested_list gi') k = Some s \<longrightarrow> src_timed q g w' s)
    \<and> sm_keys (include_requested_list gi') = sm_keys (include_requested_list gi)
    \<and> timer_for q RET_SOURCE_TIMER_MSG g w' (source_retransmission_timer gi')
    \<and> query_frame gi gi' \<and> extends w w' \<and> crashed w' = crashed w"
  using assms(1,2)
proof (cases rule: send_Q_result)
  case (1 st w1 used)
  let ?c = "to_long (get_last_listener_query_count (q_timers_values q))"
  have "src_timed q g w' s'" if k: "k \<in> S" and s': "map_of (include_requested_list gi') k = Some s'" for k s'
  proof -
    obtain s where s: "map_of (include_requested_list gi) k = Some s"
      and t: "shared_source_timer s' = shared_source_timer (mark st ?c tmp k s)"
      using s' unfolding 1(7) by (auto split: if_splits)
    show ?thesis
    proof (cases "k \<in> sm_keys tmp \<and> retransmission_count s < 1")
      case True
      with s have used by (auto simp: 1(2))
      with 1(3) make_timer_fields [OF 1(1)] True t show ?thesis
        by (auto simp: src_timed_def mark_def timer_for_def)
    next
      case False
      then have "shared_source_timer s' = shared_source_timer s" using t by (auto simp: mark_def)
      moreover have "src_timed q g w' s" using assms(3) [OF k s] False src_timed_mono [OF _ 1(10)] by blast
      ultimately show ?thesis by (simp add: src_timed_def)
    qed
  qed
  moreover have "timer_for q RET_SOURCE_TIMER_MSG g w' (source_retransmission_timer gi')"
    using 1(9) timer_for_mono [OF assms(4) 1(10)] by auto
  moreover have "query_frame gi gi'" using 1(8) by (auto simp: query_frame_def)
  ultimately show ?thesis using 1(5,6,10,11) by simp
qed

lemma send_Q_requested:
  assumes "send_Q q g gi tmp ret w = (gi', w')" "smap_ok (include_requested_list gi)"
    and "\<And>k s. map_of (include_requested_list gi) k = Some s \<Longrightarrow>
           src_timed q g w s \<or> k \<in> sm_keys tmp \<and> retransmission_count s < 1"
    and "timer_for q RET_SOURCE_TIMER_MSG g w (source_retransmission_timer gi)"
  shows "requested_ok q g w' (include_requested_list gi')
    \<and> sm_keys (include_requested_list gi') = sm_keys (include_requested_list gi)
    \<and> timer_for q RET_SOURCE_TIMER_MSG g w' (source_retransmission_timer gi')
    \<and> query_frame gi gi' \<and> extends w w' \<and> crashed w' = crashed w"
  using send_Q_requested_on [OF assms(1,2) _ assms(4), of UNIV] assms(3) by (simp add: requested_ok_def)

subsection \<open>The records\<close>

text \<open>What a record does to the record of its group: the new state is the one of the table,
  the invariant is kept, and the compatibility variables are not touched.\<close>

definition table_step ::
  "querier \<Rightarrow> addr_storage \<Rightarrow> mcast_addr_record_type \<Rightarrow> source_list \<Rightarrow> gaddr_info \<Rightarrow> world \<Rightarrow> gaddr_info \<Rightarrow> world \<Rightarrow> bool"
  where
  "table_step q g rt B gi w gi' w' \<longleftrightarrow>
     ginfo_inv q g w' gi' \<and> abs_group gi' = rfc_next (abs_group gi) rt (sm_keys B)
   \<and> extends w w' \<and> crashed w' = crashed w
   \<and> older_host_present_timer gi' = older_host_present_timer gi
   \<and> compatibility_mode_variable gi' = compatibility_mode_variable gi"

lemma ginfo_inv_lists:
  assumes "ginfo_inv q g w gi"
  shows "smap_ok (include_requested_list gi)" "smap_ok (exclude_list gi)" "untimed (exclude_list gi)"
    and "\<And>k s. map_of (include_requested_list gi) k = Some s \<Longrightarrow> src_timed q g w s"
    and "requested_ok q g w (include_requested_list gi)"
  using assms by (auto simp: ginfo_inv_def requested_ok_def untimed_def)

lemma ginfo_inv_timers:
  assumes "ginfo_inv q g w gi"
  shows "timer_for q FILTER_TIMER_MSG g w (shared_filter_timer gi)"
    and "timer_for q OLDER_HOST_PRESENT_TIMER_MSG g w (older_host_present_timer gi)"
    and "timer_for q RET_GROUP_TIMER_MSG g w (group_retransmission_timer gi)"
    and "timer_for q RET_SOURCE_TIMER_MSG g w (source_retransmission_timer gi)"
  using assms by (auto simp: ginfo_inv_def)

lemma fresh_lookup: "fresh_slist B \<Longrightarrow> map_of B k = Some s \<Longrightarrow> s = new_source"
  by (simp add: fresh_slist_def)

lemma fresh_ok: "fresh_slist B \<Longrightarrow> smap_ok B"
  by (simp add: fresh_slist_def)

lemma untimed_sub: "untimed l \<Longrightarrow> untimed (sl_sub l r)"
  by (auto simp: untimed_def smap_laws split: if_splits)

lemma untimed_mul: "untimed l \<Longrightarrow> smap_ok r \<Longrightarrow> untimed (sl_mul l r)"
  by (auto simp: untimed_def smap_laws split: if_splits)

lemma new_source_count [simp]: "retransmission_count new_source = - 1"
  by (simp add: new_source_def)

lemma timed_outside:
  assumes "requested_ok q g w l" "map_of (sl_add l B) k = Some s" "k \<notin> sm_keys B"
  shows "src_timed q g w s"
  using assms by (auto simp: requested_ok_def sl_add_lookup map_of_None_keys [symmetric] split: option.splits)

text \<open>Include mode.\<close>

lemma include_allow:
  assumes i: "ginfo_inv q g w gi" "filter_mode gi = INCLUDE_MODE" and f: "fresh_slist B"
    and m: "mali q g (sl_add (include_requested_list gi) B) B w = (A, w')"
    and rt: "rt \<in> {ALLOW_NEW_SOURCES, MODE_IS_INCLUDE}"
  shows "table_step q g rt B gi w (gi\<lparr>include_requested_list := A\<rparr>) w'"
proof -
  note l = ginfo_inv_lists [OF i(1)] and ok = fresh_ok [OF f]
  have "requested_ok q g w' A \<and> sm_keys A = sm_keys (sl_add (include_requested_list gi) B)
      \<and> extends w w' \<and> crashed w' = crashed w"
    by (rule mali_requested [OF m]) (use l ok timed_outside [OF l(5)] in auto)
  with i rt show ?thesis
    by (auto simp: table_step_def ginfo_inv_def abs_group_def intro: timer_for_mono)
qed

lemma include_to_ex_lists:
  assumes i: "ginfo_inv q g w gi" "filter_mode gi = INCLUDE_MODE" and f: "fresh_slist B"
  defines "gi1 \<equiv> gi\<lparr>filter_mode := EXCLUDE_MODE, include_requested_list := sl_mul (include_requested_list gi) B,
      exclude_list := sl_sub B (sl_mul (include_requested_list gi) B)\<rparr>"
  shows "requested_ok q g w (include_requested_list gi1)" "untimed (exclude_list gi1)"
    and "sm_keys (include_requested_list gi1) = sm_keys (include_requested_list gi) \<inter> sm_keys B"
    and "sm_keys (exclude_list gi1) = sm_keys B - sm_keys (include_requested_list gi)"
proof -
  note l = ginfo_inv_lists [OF i(1)] and ok = fresh_ok [OF f]
  show "requested_ok q g w (include_requested_list gi1)"
    using l ok by (auto simp: gi1_def requested_ok_def smap_laws split: if_splits)
  show "untimed (exclude_list gi1)"
    using untimed_sub [OF fresh_untimed [OF f]] by (simp add: gi1_def)
  show "sm_keys (include_requested_list gi1) = sm_keys (include_requested_list gi) \<inter> sm_keys B"
    "sm_keys (exclude_list gi1) = sm_keys B - sm_keys (include_requested_list gi)"
    using l ok by (auto simp: gi1_def)
qed

lemma include_is_ex:
  assumes i: "ginfo_inv q g w gi" "filter_mode gi = INCLUDE_MODE" and f: "fresh_slist B"
    and m: "mali_filter q g (gi\<lparr>filter_mode := EXCLUDE_MODE,
        include_requested_list := sl_mul (include_requested_list gi) B,
        exclude_list := sl_sub B (sl_mul (include_requested_list gi) B)\<rparr>) w = (gi', w')"
  shows "table_step q g MODE_IS_EXCLUDE B gi w gi' w'"
  using m
proof (cases rule: mali_filter_result)
  case (1 ft)
  note l = include_to_ex_lists [OF i f] and t = ginfo_inv_timers [OF i(1)]
  have "timer_for q FILTER_TIMER_MSG g w' (Some ft)" using 1 by (simp add: timer_for_def)
  with 1 l t i(2) show ?thesis
    by (auto simp: table_step_def ginfo_inv_def abs_group_def intro: timer_for_mono requested_ok_mono)
qed

lemma include_to_ex:
  assumes i: "ginfo_inv q g w gi" "filter_mode gi = INCLUDE_MODE" and f: "fresh_slist B"
    and s: "send_Q q g (gi\<lparr>filter_mode := EXCLUDE_MODE,
        include_requested_list := sl_mul (include_requested_list gi) B,
        exclude_list := sl_sub B (sl_mul (include_requested_list gi) B)\<rparr>) tmp False w = (gi1, w1)"
    and m: "mali_filter q g gi1 w1 = (gi', w')"
  shows "table_step q g CHANGE_TO_EXCLUDE_MODE B gi w gi' w'"
  using m
proof (cases rule: mali_filter_result)
  case (1 ft)
  note l = include_to_ex_lists [OF i f] and t = ginfo_inv_timers [OF i(1)]
  have sr: "requested_ok q g w1 (include_requested_list gi1)"
    "sm_keys (include_requested_list gi1) = sm_keys (include_requested_list gi) \<inter> sm_keys B"
    "timer_for q RET_SOURCE_TIMER_MSG g w1 (source_retransmission_timer gi1)"
    "extends w w1" "crashed w1 = crashed w"
    and fr: "query_frame (gi\<lparr>filter_mode := EXCLUDE_MODE,
        include_requested_list := sl_mul (include_requested_list gi) B,
        exclude_list := sl_sub B (sl_mul (include_requested_list gi) B)\<rparr>) gi1"
    using send_Q_requested [OF s] l(1,3) t(4) by (auto simp: requested_ok_def)
  have "timer_for q FILTER_TIMER_MSG g w' (Some ft)" using 1 by (simp add: timer_for_def)
  moreover have "extends w w'" using sr(4) 1(6) by (rule extends_trans)
  ultimately show ?thesis
    using 1(1,6,9) l(2,4) t(2,3) i(2) sr fr
    by (auto simp: table_step_def ginfo_inv_def abs_group_def query_frame_def intro: timer_for_mono requested_ok_mono)
qed

lemma include_block:
  assumes i: "ginfo_inv q g w gi" "filter_mode gi = INCLUDE_MODE"
    and s: "send_Q q g gi tmp False w = (gi', w')"
  shows "table_step q g BLOCK_OLD_SOURCES B gi w gi' w'"
  using send_Q_requested [OF s] ginfo_inv_lists [OF i(1)] ginfo_inv_timers [OF i(1)] i
  by (auto simp: table_step_def ginfo_inv_def abs_group_def query_frame_def intro: timer_for_mono)

lemma include_to_in:
  assumes i: "ginfo_inv q g w gi" "filter_mode gi = INCLUDE_MODE" and f: "fresh_slist B"
    and s: "send_Q q g (gi\<lparr>include_requested_list := sl_add (include_requested_list gi) B\<rparr>) tmp False w = (gi1, w1)"
    and m: "mali q g (include_requested_list gi1) B w1 = (A, w')"
  shows "table_step q g CHANGE_TO_INCLUDE_MODE B gi w (gi1\<lparr>include_requested_list := A\<rparr>) w'"
proof -
  note l = ginfo_inv_lists [OF i(1)] and t = ginfo_inv_timers [OF i(1)] and ok = fresh_ok [OF f]
  have sr: "smap_ok (include_requested_list gi1)"
    "\<And>k s. k \<in> - sm_keys B \<Longrightarrow> map_of (include_requested_list gi1) k = Some s \<Longrightarrow> src_timed q g w1 s"
    "sm_keys (include_requested_list gi1) = sm_keys (include_requested_list gi) \<union> sm_keys B"
    "timer_for q RET_SOURCE_TIMER_MSG g w1 (source_retransmission_timer gi1)"
    "extends w w1" "crashed w1 = crashed w"
    and fr: "query_frame (gi\<lparr>include_requested_list := sl_add (include_requested_list gi) B\<rparr>) gi1"
    using send_Q_requested_on [OF s, of "- sm_keys B"] timed_outside [OF l(5)] l(1) t(4) by simp_all
  have mr: "requested_ok q g w' A" "sm_keys A = sm_keys (include_requested_list gi1)" "extends w1 w'"
    "crashed w' = crashed w1"
    using mali_requested [OF m sr(1) ok] sr(2) by auto
  have "extends w w'" using sr(5) mr(3) by (rule extends_trans)
  then show ?thesis
    using mr sr(3-6) fr i t
    by (auto simp: table_step_def ginfo_inv_def abs_group_def query_frame_def intro: timer_for_mono)
qed

theorem include_mode_refines:
  assumes "receive_record_in_include_mode q rt g B gi w = (n, gi', w')"
    and "ginfo_inv q g w gi" "filter_mode gi = INCLUDE_MODE" "fresh_slist B"
  shows "table_step q g rt B gi w gi' w'"
proof (cases rt)
  case ALLOW_NEW_SOURCES
  with assms(1) show ?thesis
    by (auto simp: Let_def split: prod.splits intro: include_allow [OF assms(2-4)])
next
  case MODE_IS_INCLUDE
  with assms(1) show ?thesis
    by (auto simp: Let_def split: prod.splits intro: include_allow [OF assms(2-4)])
next
  case BLOCK_OLD_SOURCES
  with assms(1) show ?thesis
    by (auto split: prod.splits intro: include_block [OF assms(2,3)])
next
  case CHANGE_TO_EXCLUDE_MODE
  with assms(1) show ?thesis
    by (auto simp: Let_def split: prod.splits intro: include_to_ex [OF assms(2-4)])
next
  case CHANGE_TO_INCLUDE_MODE
  with assms(1) show ?thesis
    by (auto simp: Let_def split: prod.splits intro: include_to_in [OF assms(2-4)])
next
  case MODE_IS_EXCLUDE
  with assms(1) show ?thesis
    by (auto simp: Let_def split: prod.splits intro: include_is_ex [OF assms(2-4)])
next
  case (UNKNOWN_RECORD u)
  with assms show ?thesis by (auto simp: table_step_def)
qed

text \<open>Exclude mode.\<close>

lemma ginfo_inv_exclude:
  assumes "ginfo_inv q g w gi" "filter_mode gi = EXCLUDE_MODE"
  shows "shared_filter_timer gi \<noteq> None" "sm_keys (include_requested_list gi) \<inter> sm_keys (exclude_list gi) = {}"
  using assms by (auto simp: ginfo_inv_def)

lemma exclude_allow:
  assumes i: "ginfo_inv q g w gi" "filter_mode gi = EXCLUDE_MODE" and f: "fresh_slist A"
    and m: "mali q g (sl_add (include_requested_list gi) A) A w = (X, w')"
    and rt: "rt \<in> {ALLOW_NEW_SOURCES, MODE_IS_INCLUDE}"
  shows "table_step q g rt A gi w (gi\<lparr>include_requested_list := X, exclude_list := sl_sub (exclude_list gi) A\<rparr>) w'"
proof -
  note l = ginfo_inv_lists [OF i(1)] and ok = fresh_ok [OF f]
  have "requested_ok q g w' X \<and> sm_keys X = sm_keys (sl_add (include_requested_list gi) A)
      \<and> extends w w' \<and> crashed w' = crashed w"
    by (rule mali_requested [OF m]) (use l ok timed_outside [OF l(5)] in auto)
  with i rt untimed_sub [OF l(3), of A] show ?thesis
    by (auto simp: table_step_def ginfo_inv_def abs_group_def intro: timer_for_mono)
qed

lemma exclude_block:
  assumes i: "ginfo_inv q g w gi" "filter_mode gi = EXCLUDE_MODE" and f: "fresh_slist A"
    and s: "send_Q q g (gi\<lparr>include_requested_list := sl_add (include_requested_list gi) (sl_sub A (exclude_list gi))\<rparr>)
        (sl_sub A (exclude_list gi)) False w = (gi', w')"
  shows "table_step q g BLOCK_OLD_SOURCES A gi w gi' w'"
proof -
  note l = ginfo_inv_lists [OF i(1)] and t = ginfo_inv_timers [OF i(1)] and ok = fresh_ok [OF f]
  let ?N = "sl_sub A (exclude_list gi)"
  have "src_timed q g w s \<or> k \<in> sm_keys ?N \<and> retransmission_count s < 1"
    if "map_of (sl_add (include_requested_list gi) ?N) k = Some s" for k s
    using that l fresh_lookup [OF f, of k s]
    by (auto simp: sl_add_lookup sl_sub_lookup split: option.splits if_splits dest: lookup_in_keys)
  with send_Q_requested [OF s] l(1) t(4) have
    "requested_ok q g w' (include_requested_list gi')"
    "sm_keys (include_requested_list gi') = sm_keys (include_requested_list gi) \<union> sm_keys ?N"
    "timer_for q RET_SOURCE_TIMER_MSG g w' (source_retransmission_timer gi')"
    "query_frame (gi\<lparr>include_requested_list := sl_add (include_requested_list gi) ?N\<rparr>) gi'"
    "extends w w'" "crashed w' = crashed w"
    by simp_all
  with i show ?thesis
    by (auto simp: table_step_def ginfo_inv_def abs_group_def query_frame_def intro: timer_for_mono)
qed

lemma exclude_to_in:
  assumes i: "ginfo_inv q g w gi" "filter_mode gi = EXCLUDE_MODE" and f: "fresh_slist A"
    and s: "send_Q q g (gi\<lparr>include_requested_list := sl_add (include_requested_list gi) A,
        exclude_list := sl_sub (exclude_list gi) A\<rparr>) tmp False w = (gi1, w1)"
    and sg: "send_Q_group q g gi1 w1 = (gi2, w2)"
    and m: "mali q g (include_requested_list gi2) A w2 = (X, w')"
  shows "table_step q g CHANGE_TO_INCLUDE_MODE A gi w (gi2\<lparr>include_requested_list := X\<rparr>) w'"
proof -
  note l = ginfo_inv_lists [OF i(1)] and t = ginfo_inv_timers [OF i(1)] and ok = fresh_ok [OF f]
  have sr: "smap_ok (include_requested_list gi1)"
    "\<And>k s. k \<in> - sm_keys A \<Longrightarrow> map_of (include_requested_list gi1) k = Some s \<Longrightarrow> src_timed q g w1 s"
    "sm_keys (include_requested_list gi1) = sm_keys (include_requested_list gi) \<union> sm_keys A"
    "timer_for q RET_SOURCE_TIMER_MSG g w1 (source_retransmission_timer gi1)"
    "extends w w1" "crashed w1 = crashed w"
    and fr: "query_frame (gi\<lparr>include_requested_list := sl_add (include_requested_list gi) A,
        exclude_list := sl_sub (exclude_list gi) A\<rparr>) gi1"
    using send_Q_requested_on [OF s, of "- sm_keys A"] timed_outside [OF l(5)] l(1) t(4) by simp_all
  have g2: "group_frame gi1 gi2" "timer_for q FILTER_TIMER_MSG g w2 (shared_filter_timer gi2)"
    "timer_for q RET_GROUP_TIMER_MSG g w2 (group_retransmission_timer gi2)"
    "shared_filter_timer gi2 \<noteq> None" "extends w1 w2" "crashed w2 = crashed w1"
    using send_Q_group_result [OF sg] fr timer_for_mono [OF t(1) sr(5)] timer_for_mono [OF t(3) sr(5)]
      ginfo_inv_exclude [OF i] by (auto simp: query_frame_def)
  have il: "include_requested_list gi2 = include_requested_list gi1" using g2(1) by (simp add: group_frame_def)
  have mr: "requested_ok q g w' X" "sm_keys X = sm_keys (include_requested_list gi1)" "extends w2 w'"
    "crashed w' = crashed w2"
    using mali_requested [OF m, unfolded il, OF sr(1) ok] sr(2) src_timed_mono [OF _ g2(5)] by auto
  have e: "extends w w'" "extends w1 w'" using sr(5) g2(5) mr(3) by (meson extends_trans)+
  then show ?thesis
    using mr sr(3,4,6) fr i t(2) g2 untimed_sub [OF l(3), of A]
    by (auto simp: table_step_def ginfo_inv_def abs_group_def query_frame_def group_frame_def
        intro: timer_for_mono)
qed

lemma exclude_new_lists:
  assumes i: "ginfo_inv q g w gi" "filter_mode gi = EXCLUDE_MODE" and ok: "smap_ok A"
  shows "sm_keys (sl_add (sl_mul (include_requested_list gi) A) (sl_sub A (exclude_list gi)))
      = sm_keys A - sm_keys (exclude_list gi)"
    and "sm_keys (sl_mul (exclude_list gi) A) = sm_keys (exclude_list gi) \<inter> sm_keys A"
    and "smap_ok (sl_add (sl_mul (include_requested_list gi) A) (sl_sub A (exclude_list gi)))"
  using ginfo_inv_lists [OF i(1)] ginfo_inv_exclude [OF i] ok by auto

lemma exclude_to_ex:
  assumes i: "ginfo_inv q g w gi" "filter_mode gi = EXCLUDE_MODE" and f: "fresh_slist A"
    and X: "X = sl_add (sl_mul (include_requested_list gi) A) (sl_sub A (exclude_list gi))"
    and s: "send_Q q g (gi\<lparr>include_requested_list := X, exclude_list := sl_mul (exclude_list gi) A\<rparr>) X False w
        = (gi1, w1)"
    and m: "mali_filter q g gi1 w1 = (gi', w')"
  shows "table_step q g CHANGE_TO_EXCLUDE_MODE A gi w gi' w'"
  using m
proof (cases rule: mali_filter_result)
  case (1 ft)
  note l = ginfo_inv_lists [OF i(1)] and t = ginfo_inv_timers [OF i(1)] and ok = fresh_ok [OF f]
  note n = exclude_new_lists [OF i ok, folded X]
  have "src_timed q g w s \<or> k \<in> sm_keys X \<and> retransmission_count s < 1" if "map_of X k = Some s" for k s
    using that l ok fresh_lookup [OF f, of k s]
    by (auto simp: X sl_add_lookup sl_sub_lookup sl_mul_lookup split: option.splits if_splits dest: lookup_in_keys)
  with send_Q_requested [OF s] n(3) t(4) have sr:
    "requested_ok q g w1 (include_requested_list gi1)"
    "sm_keys (include_requested_list gi1) = sm_keys X"
    "timer_for q RET_SOURCE_TIMER_MSG g w1 (source_retransmission_timer gi1)"
    "query_frame (gi\<lparr>include_requested_list := X, exclude_list := sl_mul (exclude_list gi) A\<rparr>) gi1"
    "extends w w1" "crashed w1 = crashed w"
    by simp_all
  have "timer_for q FILTER_TIMER_MSG g w' (Some ft)" using 1 by (simp add: timer_for_def)
  moreover have "extends w w'" using sr(5) 1(6) by (rule extends_trans)
  ultimately show ?thesis
    using 1(1,6,9) i sr n untimed_mul [OF l(3) ok]
    by (auto simp: table_step_def ginfo_inv_def abs_group_def query_frame_def
        intro: timer_for_mono requested_ok_mono)
qed

lemma exclude_is_ex:
  assumes i: "ginfo_inv q g w gi" "filter_mode gi = EXCLUDE_MODE" and f: "fresh_slist A"
    and a: "mali q g A (sl_sub (sl_sub A (include_requested_list gi)) (exclude_list gi)) w = (A', w1)"
    and X: "X = sl_add (sl_mul (include_requested_list gi) A') (sl_sub A' (exclude_list gi))"
    and m: "mali_filter q g (gi\<lparr>include_requested_list := X, exclude_list := sl_mul (exclude_list gi) A'\<rparr>) w1
        = (gi', w')"
  shows "table_step q g MODE_IS_EXCLUDE A gi w gi' w'"
  using m
proof (cases rule: mali_filter_result)
  case (1 ft)
  note l = ginfo_inv_lists [OF i(1)] and ok = fresh_ok [OF f]
  let ?N = "sl_sub (sl_sub A (include_requested_list gi)) (exclude_list gi)"
  have okN: "smap_ok ?N" using ok by simp
  obtain st v where mr:
    "make_timer SOURCE_TIMER_MSG (q_if_index q) g Addr_Unspec
       (get_multicast_address_listening_interval (q_timers_values q)) w = (st, v)"
    "w1 = (if ?N = [] then v else add_time (get_multicast_address_listening_interval (q_timers_values q))
       (q_msg_worker q) st v)"
    "sm_keys A' = sm_keys A" "smap_ok A'"
    "\<And>k. map_of A' k = (if k \<in> sm_keys ?N then map_option (refresh st) (map_of A k) else map_of A k)"
    using a ok okN by (cases rule: mali_result) blast
  have e1: "extends w w1" by (rule extends_mali [OF a])
  have c1: "crashed w1 = crashed w"
    using make_timer_fields [OF mr(1)] by (simp add: mr(2) add_time_def now_def emit_def)
  note n = exclude_new_lists [OF i mr(4), folded X]
  have "src_timed q g w1 s" if s: "map_of X k = Some s" for k s
  proof (cases "k \<in> sm_keys (include_requested_list gi)")
    case True
    with s l mr(4) ginfo_inv_exclude(2) [OF i] show ?thesis
      by (auto simp: X sl_add_lookup sl_sub_lookup sl_mul_lookup sm_keys_dom split: option.splits if_splits
          intro: src_timed_mono [OF _ e1])
  next
    case False
    then have k: "map_of (include_requested_list gi) k = None" by (simp add: map_of_None_keys)
    with s l mr(4) have "map_of A' k = Some s" "k \<notin> sm_keys (exclude_list gi)"
      by (auto simp: X sl_add_lookup sl_sub_lookup sl_mul_lookup split: if_splits)
    moreover from this have "k \<in> sm_keys ?N" using False mr(3) lookup_in_keys by fastforce
    moreover from this have "?N \<noteq> []" by (metis empty_iff sm_keys_Nil)
    then have "timer_for q SOURCE_TIMER_MSG g w1 (Some st)"
      using timer_for_new [OF mr(1)] mr(2) by simp
    ultimately show ?thesis by (auto simp: mr(5) refresh_def src_timed_def)
  qed
  then have rq: "requested_ok q g w1 X" using n(3) by (simp add: requested_ok_def)
  have "timer_for q FILTER_TIMER_MSG g w' (Some ft)" using 1 by (simp add: timer_for_def)
  moreover have "extends w w'" using e1 1(6) by (rule extends_trans)
  ultimately show ?thesis
    using 1(1,6,9) i c1 n rq mr(3) untimed_mul [OF l(3) mr(4)]
    by (auto simp: table_step_def ginfo_inv_def abs_group_def intro: timer_for_mono requested_ok_mono)
qed

theorem exclude_mode_refines:
  assumes "receive_record_in_exclude_mode q rt g A gi w = (n, gi', w')"
    and "ginfo_inv q g w gi" "filter_mode gi = EXCLUDE_MODE" "fresh_slist A"
  shows "table_step q g rt A gi w gi' w'"
proof (cases rt)
  case ALLOW_NEW_SOURCES
  with assms(1) show ?thesis
    by (auto simp: Let_def split: prod.splits intro: exclude_allow [OF assms(2-4)])
next
  case MODE_IS_INCLUDE
  with assms(1) show ?thesis
    by (auto simp: Let_def split: prod.splits intro: exclude_allow [OF assms(2-4)])
next
  case BLOCK_OLD_SOURCES
  with assms(1) show ?thesis
    by (auto simp: Let_def split: prod.splits intro: exclude_block [OF assms(2-4)])
next
  case CHANGE_TO_EXCLUDE_MODE
  with assms(1) show ?thesis
    by (auto simp: Let_def split: prod.splits intro: exclude_to_ex [OF assms(2-4) refl])
next
  case CHANGE_TO_INCLUDE_MODE
  with assms(1) show ?thesis
    by (auto simp: Let_def split: prod.splits intro: exclude_to_in [OF assms(2-4)])
next
  case MODE_IS_EXCLUDE
  with assms(1) show ?thesis
    by (auto simp: Let_def split: prod.splits intro: exclude_is_ex [OF assms(2-4) _ refl])
next
  case (UNKNOWN_RECORD u)
  with assms show ?thesis by (cases "abs_group gi") (auto simp: table_step_def)
qed

end
