(* ===== verification/Querier_Inv.thy ===== *)
theory Querier_Inv
  imports Querier_Table
begin

section \<open>The querier as a state machine: invariant, refinement, reachable states\<close>

text \<open>
  The invariant of the whole database, its preservation by every handler of the querier, and
  the behaviour of each handler on the abstract state of every group.
\<close>

subsection \<open>Invariant of the database\<close>

definition same_config :: "querier \<Rightarrow> querier \<Rightarrow> bool" where
  "same_config q q' \<longleftrightarrow> q_if_index q' = q_if_index q \<and> q_timers_values q' = q_timers_values q
     \<and> q_msg_worker q' = q_msg_worker q \<and> q_sender q' = q_sender q
     \<and> querier_version_mode (q_db q') = querier_version_mode (q_db q)
     \<and> is_querier (q_db q') = is_querier (q_db q)"

lemma same_config_refl [simp]: "same_config q q"
  by (simp add: same_config_def)

lemma same_config_trans: "same_config q q' \<Longrightarrow> same_config q' q'' \<Longrightarrow> same_config q q''"
  by (simp add: same_config_def)

lemma same_config_set [simp]: "same_config q (set_group g gi q)" "same_config q (erase_group g q)"
  by (simp_all add: same_config_def set_group_def erase_group_def)

lemma ginfo_inv_config: "q_if_index q' = q_if_index q \<Longrightarrow> ginfo_inv q' g w gi = ginfo_inv q g w gi"
  by (simp add: ginfo_inv_def requested_ok_def src_timed_def timer_for_def)

text \<open>A group in compatibility mode either runs its older host present timer or has the version
  the querier is configured for.\<close>

definition compat_ok :: "querier \<Rightarrow> gaddr_info \<Rightarrow> bool" where
  "compat_ok q gi \<longleftrightarrow> is_newest_version (compatibility_mode_variable gi)
     \<or> older_host_present_timer gi \<noteq> None \<or> compatibility_mode_variable gi = querier_version_mode (q_db q)"

text \<open>With the newest protocol version configured, a group in include mode has a source.\<close>

definition in_use :: "querier \<Rightarrow> gaddr_info \<Rightarrow> bool" where
  "in_use q gi \<longleftrightarrow> is_newest_version (querier_version_mode (q_db q)) \<longrightarrow>
     filter_mode gi = INCLUDE_MODE \<longrightarrow> include_requested_list gi \<noteq> []"

definition group_ok :: "querier \<Rightarrow> addr_storage \<Rightarrow> world \<Rightarrow> gaddr_info \<Rightarrow> bool" where
  "group_ok q g w gi \<longleftrightarrow> ginfo_inv q g w gi \<and> compat_ok q gi \<and> in_use q gi"

definition db_inv :: "querier \<Rightarrow> world \<Rightarrow> bool" where
  "db_inv q w \<longleftrightarrow> smap_ok (group_info (q_db q))
     \<and> (\<forall>g gi. find_group g q = Some gi \<longrightarrow> group_ok q g w gi)
     \<and> timer_for q GENERAL_QUERY_TIMER_MSG Addr_Unspec w (general_query_timer (q_db q))"

lemma group_ok_config: "same_config q q' \<Longrightarrow> group_ok q' g w gi = group_ok q g w gi"
  using ginfo_inv_config [of q' q g w gi] by (simp add: same_config_def group_ok_def compat_ok_def in_use_def)

lemma group_ok_mono: "group_ok q g w gi \<Longrightarrow> extends w w' \<Longrightarrow> group_ok q g w' gi"
  by (auto simp: group_ok_def intro: ginfo_inv_mono)

lemma db_inv_mono: "db_inv q w \<Longrightarrow> extends w w' \<Longrightarrow> db_inv q w'"
  by (auto simp: db_inv_def intro: timer_for_mono group_ok_mono)

lemma find_set_group:
  "smap_ok (group_info (q_db q)) \<Longrightarrow> find_group g' (set_group g gi q) = (if g' = g then Some gi else find_group g' q)"
  by (simp add: find_group_def set_group_def smap_laws)

lemma find_erase_group: "find_group g' (erase_group g q) = (if g' = g then None else find_group g' q)"
  by (simp add: find_group_def erase_group_def smap_laws)

lemma timer_for_config: "q_if_index q' = q_if_index q \<Longrightarrow> timer_for q' ty g w t = timer_for q ty g w t"
  by (simp add: timer_for_def)

lemma db_inv_set_group:
  assumes "db_inv q w" "extends w w'" "group_ok q g w' gi"
  shows "db_inv (set_group g gi q) w'"
proof -
  have c: "same_config q (set_group g gi q)" by simp
  have "db_inv q w'" using assms db_inv_mono by blast
  then show ?thesis using assms(3) unfolding db_inv_def
    by (auto simp: find_set_group group_ok_config [OF c] split: if_splits)
       (simp_all add: set_group_def timer_for_def)
qed

lemma db_inv_erase_group:
  assumes "db_inv q w" "extends w w'"
  shows "db_inv (erase_group g q) w'"
proof -
  have c: "same_config q (erase_group g q)" by simp
  have "db_inv q w'" using assms db_inv_mono by blast
  then show ?thesis unfolding db_inv_def
    by (auto simp: find_erase_group group_ok_config [OF c] split: if_splits)
       (simp_all add: erase_group_def timer_for_def)
qed

lemma db_inv_find: "db_inv q w \<Longrightarrow> find_group g q = Some gi \<Longrightarrow> group_ok q g w gi"
  by (simp add: db_inv_def)

lemma extends_notify [simp]: "extends w (state_change_notification g q w)" "extends w (notify_if b g q w)"
  by (simp_all add: state_change_notification_def notify_if_def)

lemma crashed_notify [simp]:
  "crashed (state_change_notification g q w) = crashed w" "crashed (notify_if b g q w) = crashed w"
  by (simp_all add: state_change_notification_def notify_if_def emit_def)

subsection \<open>The abstract state of the querier\<close>

definition abs_querier :: "querier \<Rightarrow> addr_storage \<Rightarrow> router_state" where
  "abs_querier q g = (case find_group g q of None \<Rightarrow> Incl {} | Some gi \<Rightarrow> abs_group gi)"

text \<open>The record of a group a record message starts from, and after the compatibility update.\<close>

definition group_or_new :: "querier \<Rightarrow> addr_storage \<Rightarrow> gaddr_info" where
  "group_or_new q g = (case find_group g q of Some gi \<Rightarrow> gi | None \<Rightarrow> new_gaddr_info (querier_version_mode (q_db q)))"

lemma new_gaddr_info_inv: "ginfo_inv q g w (new_gaddr_info v)" "abs_group (new_gaddr_info v) = Incl {}"
  by (simp_all add: ginfo_inv_def new_gaddr_info_def requested_ok_def untimed_def abs_group_def)

lemma group_or_new_inv:
  assumes "db_inv q w"
  shows "ginfo_inv q g w (group_or_new q g)" "compat_ok q (group_or_new q g)"
    and "abs_group (group_or_new q g) = abs_querier q g"
  using db_inv_find [OF assms, of g]
  by (cases "find_group g q"; simp add: group_or_new_def abs_querier_def new_gaddr_info_inv group_ok_def;
      simp add: compat_ok_def new_gaddr_info_def)+

lemma compatibility_update_result:
  assumes "compatibility_update q g proto gi w = (gi', w')" "ginfo_inv q g w gi" "compat_ok q gi"
  shows "ginfo_inv q g w' gi'" "compat_ok q gi'" "extends w w'" "crashed w' = crashed w"
    and "abs_group gi' = abs_group gi" "filter_mode gi' = filter_mode gi"
    and "include_requested_list gi' = include_requested_list gi"
proof -
  let ?d = "get_older_host_present_interval (q_timers_values q)"
  obtain t v where t: "make_timer OLDER_HOST_PRESENT_TIMER_MSG (q_if_index q) g Addr_Unspec ?d w = (t, v)"
    by fastforce
  let ?b = "\<not> is_newest_version proto \<and> is_older_or_equal_version proto (querier_version_mode (q_db q))"
  have r: "gi' = (if ?b then gi\<lparr>compatibility_mode_variable := proto, older_host_present_timer := Some t\<rparr> else gi)"
    "w' = (if ?b then add_time ?d (q_msg_worker q) t v else w)"
    using assms(1) t by (auto simp: compatibility_update_def Let_def)
  show e: "extends w w'" using r(2) extends_make_timer [OF t] by (auto intro: extends_trans)
  show "crashed w' = crashed w"
    using r(2) make_timer_fields [OF t] by (simp add: add_time_def now_def emit_def)
  show "ginfo_inv q g w' gi'"
    using ginfo_inv_mono [OF assms(2) e] timer_for_new [OF t] r by (auto simp: ginfo_inv_def split: mc_filter.splits)
  show "compat_ok q gi'" "abs_group gi' = abs_group gi" "filter_mode gi' = filter_mode gi"
    "include_requested_list gi' = include_requested_list gi"
    using assms(3) by (simp_all add: r(1) compat_ok_def abs_group_def split: mc_filter.splits)
qed

subsection \<open>Reception of a record\<close>

text \<open>The group is in compatibility mode when the record is processed.\<close>

definition compat_when :: "querier \<Rightarrow> group_record_msg \<Rightarrow> bool" where
  "compat_when q gr \<longleftrightarrow>
     (if \<not> is_newest_version (gr_grp_mem_proto gr)
         \<and> is_older_or_equal_version (gr_grp_mem_proto gr) (querier_version_mode (q_db q))
      then True else is_in_backward_compatibility_mode (group_or_new q (gr_gaddr gr)))"

text \<open>The specification: the tables, with the exceptions of RFC 3810, 8.3.2 in compatibility mode.\<close>

definition rfc_receive :: "bool \<Rightarrow> router_state \<Rightarrow> mcast_addr_record_type \<Rightarrow> addr_storage set \<Rightarrow> router_state" where
  "rfc_receive cm st rt A =
     (if cm \<and> rt = BLOCK_OLD_SOURCES then st
      else rfc_next st rt (if cm \<and> rt = CHANGE_TO_EXCLUDE_MODE then {} else A))"

lemma compat_when_eq:
  "compatibility_update q (gr_gaddr gr) (gr_grp_mem_proto gr) (group_or_new q (gr_gaddr gr)) w = (gi, w')
     \<Longrightarrow> is_in_backward_compatibility_mode gi = compat_when q gr"
  by (auto simp: compatibility_update_def compat_when_def is_in_backward_compatibility_mode_def Let_def
      split: if_splits prod.splits)

text \<open>A record as the receivers build it: a plain list of sources, and no record that blocks
  sources from a host that speaks an older version.\<close>

definition record_ok :: "group_record_msg \<Rightarrow> bool" where
  "record_ok gr \<longleftrightarrow> fresh_slist (gr_slist gr)
     \<and> (\<not> is_newest_version (gr_grp_mem_proto gr) \<longrightarrow> gr_record_type gr \<noteq> BLOCK_OLD_SOURCES)"

lemma rfc_next_excl: "\<exists>X' Y'. rfc_next (Excl X Y) rt A = Excl X' Y'"
  by (cases rt) auto

lemma abs_group_modes:
  "abs_group gi = Excl X Y \<Longrightarrow> filter_mode gi = EXCLUDE_MODE"
  "filter_mode gi = EXCLUDE_MODE \<Longrightarrow> \<exists>X Y. abs_group gi = Excl X Y"
  "filter_mode gi = INCLUDE_MODE \<Longrightarrow> include_requested_list gi = [] \<Longrightarrow> abs_group gi = Incl {}"
  by (auto simp: abs_group_def split: mc_filter.splits)

lemma block_in_use:
  assumes "db_inv q w" "record_ok gr" "compat_when q gr" "gr_record_type gr = BLOCK_OLD_SOURCES"
    and u: "compatibility_update q (gr_gaddr gr) (gr_grp_mem_proto gr) (group_or_new q (gr_gaddr gr)) w = (gi, w0)"
  shows "in_use q gi"
proof (cases "find_group (gr_gaddr gr) q")
  case None
  then have "\<not> is_newest_version (querier_version_mode (q_db q))"
    using assms by (auto simp: compat_when_def record_ok_def group_or_new_def new_gaddr_info_def
        is_in_backward_compatibility_mode_def split: if_splits)
  then show ?thesis by (simp add: in_use_def)
next
  case (Some gi0)
  then have "group_or_new q (gr_gaddr gr) = gi0" by (simp add: group_or_new_def)
  moreover have "in_use q gi0" using db_inv_find [OF assms(1) Some] by (simp add: group_ok_def)
  ultimately show ?thesis
    using compatibility_update_result(6,7) [OF u] group_or_new_inv [OF assms(1), of "gr_gaddr gr"]
    by (simp add: in_use_def)
qed

definition record_done ::
  "querier \<Rightarrow> addr_storage \<Rightarrow> router_state \<Rightarrow> world \<Rightarrow> querier \<Rightarrow> world \<Rightarrow> bool" where
  "record_done q g st w q' w' \<longleftrightarrow> extends w w' \<and> crashed w' = crashed w \<and>
     ((\<exists>gi. q' = set_group g gi q \<and> group_ok q g w' gi \<and> abs_group gi = st)
    \<or> (\<exists>gi. q' = erase_group g (set_group g gi q)) \<and> st = Incl {})"

lemma process_record_step:
  assumes "process_record q rt g l gi w = (q', w')" "ginfo_inv q g w gi" "compat_ok q gi" "fresh_slist l"
  shows "record_done q g (rfc_next (abs_group gi) rt (sm_keys l)) w q' w'"
proof (cases "filter_mode gi")
  case INCLUDE_MODE
  obtain n gi1 w1 where r: "receive_record_in_include_mode q rt g l gi w = (n, gi1, w1)" by (metis prod_cases3)
  have t: "table_step q g rt l gi w gi1 w1" by (rule include_mode_refines [OF r assms(2) INCLUDE_MODE assms(4)])
  let ?q = "set_group g gi1 q" and ?w = "notify_if n g (set_group g gi1 q) w1"
  have e: "extends w1 ?w" by simp
  have w': "w' = ?w"
    and q': "q' = (if filter_mode gi1 = INCLUDE_MODE \<and> include_requested_list gi1 = [] then erase_group g ?q else ?q)"
    using assms(1) r INCLUDE_MODE by (auto simp: process_record_def Let_def split: if_splits)
  have "extends w w'" "crashed w' = crashed w"
    using t e extends_trans by (auto simp: table_step_def w')
  moreover have "group_ok q g w' gi1" if "\<not> (filter_mode gi1 = INCLUDE_MODE \<and> include_requested_list gi1 = [])"
    using that t assms(3) ginfo_inv_mono [OF _ e]
    by (auto simp: group_ok_def table_step_def in_use_def compat_ok_def w')
  ultimately show ?thesis
    using t q' abs_group_modes(3) [of gi1] by (auto simp: record_done_def table_step_def)
next
  case EXCLUDE_MODE
  obtain n gi1 w1 where r: "receive_record_in_exclude_mode q rt g l gi w = (n, gi1, w1)" by (metis prod_cases3)
  have t: "table_step q g rt l gi w gi1 w1" by (rule exclude_mode_refines [OF r assms(2) EXCLUDE_MODE assms(4)])
  let ?w = "notify_if n g (set_group g gi1 q) w1"
  have e: "extends w1 ?w" by simp
  have qw: "q' = set_group g gi1 q" "w' = ?w"
    using assms(1) r EXCLUDE_MODE by (auto simp: process_record_def Let_def)
  have "filter_mode gi1 = EXCLUDE_MODE"
    using t abs_group_modes(2) [OF EXCLUDE_MODE] rfc_next_excl abs_group_modes(1) unfolding table_step_def by metis
  then have "group_ok q g w' gi1"
    using t assms(3) ginfo_inv_mono [OF _ e] by (auto simp: group_ok_def table_step_def in_use_def compat_ok_def qw)
  then show ?thesis
    using t e extends_trans by (auto simp: record_done_def table_step_def qw)
qed

definition rfc_record :: "querier \<Rightarrow> group_record_msg \<Rightarrow> router_state" where
  "rfc_record q gr = rfc_receive (compat_when q gr) (abs_querier q (gr_gaddr gr)) (gr_record_type gr)
     (sm_keys (gr_slist gr))"

lemma record_done_trans:
  "record_done q g st w0 q' w' \<Longrightarrow> extends w w0 \<Longrightarrow> crashed w0 = crashed w \<Longrightarrow> record_done q g st w q' w'"
  by (auto simp: record_done_def intro: extends_trans)

lemma receive_record_step:
  assumes "receive_record q gr w = (q', w')" "db_inv q w" "record_ok gr"
  shows "record_done q (gr_gaddr gr) (rfc_record q gr) w q' w'"
proof -
  let ?g = "gr_gaddr gr"
  obtain gi0 w0 where u: "compatibility_update q ?g (gr_grp_mem_proto gr) (group_or_new q ?g) w = (gi0, w0)" by fastforce
  note gn = group_or_new_inv [OF assms(2), of ?g]
  note cu = compatibility_update_result [OF u gn(1,2)] and cw = compat_when_eq [OF u]
  let ?c = "compat_when q gr"
  let ?l = "if ?c \<and> gr_record_type gr = CHANGE_TO_EXCLUDE_MODE then [] else gr_slist gr"
  have fl: "fresh_slist ?l" using assms(3) by (simp add: record_ok_def)
  have rr: "receive_record q gr w =
      (if ?c \<and> gr_record_type gr = BLOCK_OLD_SOURCES then (set_group ?g gi0 q, w0)
       else process_record q (gr_record_type gr) ?g ?l gi0 w0)"
    unfolding receive_record_def Let_def group_or_new_def [symmetric] u cw [symmetric] by simp
  show ?thesis
  proof (cases "?c \<and> gr_record_type gr = BLOCK_OLD_SOURCES")
    case True
    then have "q' = set_group ?g gi0 q" "w' = w0" using assms(1) rr by auto
    moreover have "in_use q gi0" using block_in_use [OF assms(2,3) _ _ u] True by simp
    ultimately show ?thesis
      using cu gn(3) True by (auto simp: group_ok_def rfc_record_def rfc_receive_def record_done_def)
  next
    case False
    have "rfc_record q gr = rfc_next (abs_group gi0) (gr_record_type gr) (sm_keys ?l)"
      using False cu(5) gn(3) by (auto simp: rfc_record_def rfc_receive_def)
    with process_record_step [OF _ cu(1,2) fl, of "gr_record_type gr" q' w'] assms(1) rr False cu(3,4)
    show ?thesis by (auto intro: record_done_trans)
  qed
qed

definition stays_ok :: "querier \<Rightarrow> world \<Rightarrow> querier \<Rightarrow> world \<Rightarrow> bool" where
  "stays_ok q w q' w' \<longleftrightarrow> db_inv q' w' \<and> same_config q q' \<and> extends w w'"

lemma stays_ok_same: "db_inv q w \<Longrightarrow> extends w w' \<Longrightarrow> stays_ok q w q w'"
  by (auto simp: stays_ok_def intro: db_inv_mono)

lemma stays_ok_set: "db_inv q w \<Longrightarrow> extends w w' \<Longrightarrow> group_ok q g w' gi \<Longrightarrow> stays_ok q w (set_group g gi q) w'"
  by (auto simp: stays_ok_def intro: db_inv_set_group)

lemma stays_ok_erase: "db_inv q w \<Longrightarrow> extends w w' \<Longrightarrow> stays_ok q w (erase_group g q) w'"
  by (auto simp: stays_ok_def intro: db_inv_erase_group)

lemma abs_set_group:
  "db_inv q w \<Longrightarrow> abs_querier (set_group g gi q) g' = (if g' = g then abs_group gi else abs_querier q g')"
  by (simp add: abs_querier_def find_set_group db_inv_def)

lemma abs_erase_group:
  "abs_querier (erase_group g q) g' = (if g' = g then Incl {} else abs_querier q g')"
  by (simp add: abs_querier_def find_erase_group)

lemma smap_ok_set_group: "smap_ok (group_info (q_db q)) \<Longrightarrow> smap_ok (group_info (q_db (set_group g gi q)))"
  by (simp add: set_group_def)

lemma erase_set_group: "group_info (q_db (erase_group g (set_group g gi q))) = group_info (q_db (erase_group g q))"
proof -
  have "sm_erase k (sm_assign k v m) = sm_erase k m" for k v and m :: "('k::linorder, 'v) smap"
    by (induction m) (auto simp: sm_erase_def)
  then show ?thesis by (simp add: erase_group_def set_group_def)
qed

lemma erase_set_group_eq: "erase_group g (set_group g gi q) = erase_group g q"
  using erase_set_group [of g gi q] by (simp add: erase_group_def set_group_def)

lemma receive_record_ok:
  assumes "receive_record q gr w = (q', w')" "db_inv q w" "record_ok gr"
  shows "stays_ok q w q' w'" "crashed w' = crashed w"
    and "abs_querier q' g = (if g = gr_gaddr gr then rfc_record q gr else abs_querier q g)"
  using receive_record_step [OF assms] assms(2) unfolding record_done_def
  by (auto simp: erase_set_group_eq abs_set_group abs_erase_group intro: stays_ok_set stays_ok_erase)

subsection \<open>Expiry of a source timer\<close>

definition expired_sources :: "gaddr_info \<Rightarrow> timer_msg \<Rightarrow> addr_storage set" where
  "expired_sources gi msg =
     sm_keys (filter (\<lambda>e. refers (shared_source_timer (snd e)) (tm_ptr msg)) (include_requested_list gi))"

fun rfc_source_expiry :: "router_state \<Rightarrow> addr_storage set \<Rightarrow> router_state" where
  "rfc_source_expiry (Incl A) E = Incl (A - E)"
| "rfc_source_expiry (Excl X Y) E = Excl (X - E) (Y \<union> E)"

lemma drop_expired_keys:
  "smap_ok l \<Longrightarrow> sm_keys (drop_expired p l) =
     sm_keys l - sm_keys (filter (\<lambda>e. refers (shared_source_timer (snd e)) p) l)"
proof (induction l)
  case (Cons e l)
  have "fst e \<notin> sm_keys (filter P l)" for P
    using Cons.prems by (auto simp: sm_keys_def)
  with Cons show ?case by (auto simp: drop_expired_def)
qed (simp add: drop_expired_def)

lemma lookup_filter: "smap_ok l \<Longrightarrow> map_of (filter P l) k = Some s \<Longrightarrow> map_of l k = Some s"
  by (simp add: smap_elem_lookup [symmetric])

lemma requested_ok_filter: "requested_ok q g w l \<Longrightarrow> requested_ok q g w (filter P l)"
  by (auto simp: requested_ok_def dest: lookup_filter)

lemma untimed_add: "untimed l \<Longrightarrow> untimed r \<Longrightarrow> untimed (sl_add l r)"
  by (auto simp: untimed_def sl_add_lookup split: option.splits)

lemma untimed_reset: "smap_ok l \<Longrightarrow> untimed (sm_map (\<lambda>a s. s\<lparr>shared_source_timer := None\<rparr>) l)"
  by (auto simp: untimed_def lookup_map)

lemma source_timer_ok:
  assumes "timer_triggerd_source_timer q g gi msg w = (q', w')" "db_inv q w" "find_group g q = Some gi"
  shows "stays_ok q w q' w'" "crashed w' = crashed w"
    and "abs_querier q' g' = (if g' = g then rfc_source_expiry (abs_group gi) (expired_sources gi msg) else abs_querier q g')"
proof -
  let ?X = "include_requested_list gi"
  let ?kept = "drop_expired (tm_ptr msg) ?X"
  let ?gone = "sm_map (\<lambda>a s. s\<lparr>shared_source_timer := None\<rparr>)
      (filter (\<lambda>e. refers (shared_source_timer (snd e)) (tm_ptr msg)) ?X)"
  have ok: "group_ok q g w gi" by (rule db_inv_find [OF assms(2,3)])
  then have inv: "ginfo_inv q g w gi" by (simp add: group_ok_def)
  note l = ginfo_inv_lists [OF inv]
  have k: "sm_keys ?kept = sm_keys ?X - expired_sources gi msg"
    using drop_expired_keys [OF l(1)] by (simp add: expired_sources_def)
  have rk: "requested_ok q g w ?kept" using requested_ok_filter [OF l(5)] by (simp add: drop_expired_def)
  have gk: "sm_keys ?gone = expired_sources gi msg" by (simp add: expired_sources_def)
  have sub: "expired_sources gi msg \<subseteq> sm_keys ?X" by (auto simp: expired_sources_def sm_keys_def)
  show "stays_ok q w q' w'" "crashed w' = crashed w"
    "abs_querier q' g' = (if g' = g then rfc_source_expiry (abs_group gi) (expired_sources gi msg) else abs_querier q g')"
  proof (atomize (full), cases "filter_mode gi")
    case INCLUDE_MODE
    let ?gi = "gi\<lparr>include_requested_list := ?kept\<rparr>"
    let ?q = "if ?kept = [] then erase_group g q else set_group g ?gi q"
    have qw: "q' = ?q" "w' = state_change_notification g ?q w"
      using assms(1) INCLUDE_MODE by (auto simp: timer_triggerd_source_timer_def Let_def)
    have e: "extends w w'" by (simp add: qw)
    have "group_ok q g w ?gi" if "?kept \<noteq> []"
      using ok rk that INCLUDE_MODE by (auto simp: group_ok_def ginfo_inv_def compat_ok_def in_use_def)
    then have "stays_ok q w q' w'"
      unfolding qw(1) using group_ok_mono [OF _ e] stays_ok_set [OF assms(2) e] stays_ok_erase [OF assms(2) e] by simp
    moreover have "sm_keys ?X - expired_sources gi msg = {}" if "?kept = []"
      using k that by simp
    ultimately show "stays_ok q w q' w' \<and> crashed w' = crashed w \<and> abs_querier q' g' =
        (if g' = g then rfc_source_expiry (abs_group gi) (expired_sources gi msg) else abs_querier q g')"
      using INCLUDE_MODE k by (simp add: qw abs_set_group [OF assms(2)] abs_erase_group abs_group_def)
  next
    case EXCLUDE_MODE
    let ?gi = "gi\<lparr>include_requested_list := ?kept, exclude_list := sl_add (exclude_list gi) ?gone\<rparr>"
    have qw: "q' = set_group g ?gi q" "w' = state_change_notification g (set_group g ?gi q) w"
      using assms(1) EXCLUDE_MODE by (auto simp: timer_triggerd_source_timer_def Let_def)
    have e: "extends w w'" by (simp add: qw)
    have "untimed (sl_add (exclude_list gi) ?gone)"
      using untimed_add [OF l(3) untimed_reset] l(1) by simp
    then have "group_ok q g w ?gi"
      using ok rk EXCLUDE_MODE k gk sub l(1,2)
      by (auto simp: group_ok_def ginfo_inv_def compat_ok_def in_use_def)
    then have "stays_ok q w q' w'"
      unfolding qw(1) using group_ok_mono [OF _ e] stays_ok_set [OF assms(2) e] by simp
    then show "stays_ok q w q' w' \<and> crashed w' = crashed w \<and> abs_querier q' g' =
        (if g' = g then rfc_source_expiry (abs_group gi) (expired_sources gi msg) else abs_querier q g')"
      using EXCLUDE_MODE k gk by (simp add: qw abs_set_group [OF assms(2)] abs_group_def)
  qed
qed

subsection \<open>Expiry of the other timers\<close>

lemma filter_timer_ok:
  assumes "timer_triggerd_filter_timer q g gi msg w = (q', w')" "db_inv q w" "find_group g q = Some gi"
    and "\<not> tm_is_used_as_source_timer msg"
  shows "stays_ok q w q' w'" "crashed w' = crashed w"
    and "abs_querier q' g' = (if g' = g \<and> refers (shared_filter_timer gi) (tm_ptr msg)
           then Incl (sm_keys (include_requested_list gi)) else abs_querier q g')"
proof -
  have ok: "group_ok q g w gi" by (rule db_inv_find [OF assms(2,3)])
  then have inv: "ginfo_inv q g w gi" by (simp add: group_ok_def)
  have aq: "abs_querier q g = abs_group gi" by (simp add: abs_querier_def assms(3))
  let ?gi = "gi\<lparr>filter_mode := INCLUDE_MODE, shared_filter_timer := None, exclude_list := []\<rparr>"
  let ?q = "if include_requested_list gi = [] then erase_group g q else set_group g ?gi q"
  have ok': "include_requested_list gi \<noteq> [] \<Longrightarrow> group_ok q g w ?gi"
    using ok by (auto simp: group_ok_def ginfo_inv_def compat_ok_def in_use_def untimed_def)
  have fm: "filter_mode gi = EXCLUDE_MODE" if "refers (shared_filter_timer gi) (tm_ptr msg)"
    using inv that by (cases "filter_mode gi") (auto simp: ginfo_inv_def)
  show "stays_ok q w q' w'" "crashed w' = crashed w"
    "abs_querier q' g' = (if g' = g \<and> refers (shared_filter_timer gi) (tm_ptr msg)
       then Incl (sm_keys (include_requested_list gi)) else abs_querier q g')"
  proof (atomize (full), cases "refers (shared_filter_timer gi) (tm_ptr msg)")
    case True
    have qw: "q' = ?q" "w' = state_change_notification g ?q w"
      using assms(1,3,4) fm True by (auto simp: timer_triggerd_filter_timer_def Let_def)
    have e: "extends w w'" by (simp add: qw)
    have "stays_ok q w q' w'"
      unfolding qw(1) using group_ok_mono [OF ok' e] stays_ok_set [OF assms(2) e] stays_ok_erase [OF assms(2) e] by simp
    then show "stays_ok q w q' w' \<and> crashed w' = crashed w \<and> abs_querier q' g' =
        (if g' = g \<and> refers (shared_filter_timer gi) (tm_ptr msg)
         then Incl (sm_keys (include_requested_list gi)) else abs_querier q g')"
      using True by (simp add: qw abs_set_group [OF assms(2)] abs_erase_group abs_group_def)
  next
    case False
    then have "q' = q" "w' = w"
      using assms(1,3,4) by (auto simp: timer_triggerd_filter_timer_def Let_def)
    with False show "stays_ok q w q' w' \<and> crashed w' = crashed w \<and> abs_querier q' g' =
        (if g' = g \<and> refers (shared_filter_timer gi) (tm_ptr msg)
         then Incl (sm_keys (include_requested_list gi)) else abs_querier q g')"
      using stays_ok_same [OF assms(2)] by simp
  qed
qed

lemma ret_source_timer_ok:
  assumes "timer_triggerd_ret_source_timer q g gi msg w = (q', w')" "db_inv q w" "find_group g q = Some gi"
    and "tm_gaddr msg = g"
  shows "stays_ok q w q' w'" "crashed w' = crashed w" and "abs_querier q' g' = abs_querier q g'"
proof -
  have ok: "group_ok q g w gi" by (rule db_inv_find [OF assms(2,3)])
  then have inv: "ginfo_inv q g w gi" by (simp add: group_ok_def)
  have aq: "abs_querier q g = abs_group gi" by (simp add: abs_querier_def assms(3))
  note l = ginfo_inv_lists [OF inv]
  obtain gi1 w1 where s: "send_Q q g gi [] True w = (gi1, w1)" by fastforce
  have sr: "requested_ok q g w1 (include_requested_list gi1)"
    "sm_keys (include_requested_list gi1) = sm_keys (include_requested_list gi)"
    "timer_for q RET_SOURCE_TIMER_MSG g w1 (source_retransmission_timer gi1)"
    "query_frame gi gi1" "extends w w1" "crashed w1 = crashed w"
    using send_Q_requested [OF s l(1)] l(4) ginfo_inv_timers [OF inv] by simp_all
  have ne: "include_requested_list gi1 = [] \<longleftrightarrow> include_requested_list gi = []"
    using sr(2) by (metis sm_keys_empty_iff)
  have "ginfo_inv q g w1 gi1"
    using inv sr by (auto simp: ginfo_inv_def query_frame_def intro: timer_for_mono split: mc_filter.splits)
  with ok ne sr(4) have "group_ok q g w1 gi1"
    by (auto simp: group_ok_def compat_ok_def in_use_def query_frame_def)
  moreover have "abs_group gi1 = abs_group gi"
    using sr(2,4) by (auto simp: abs_group_def query_frame_def split: mc_filter.splits)
  ultimately show "stays_ok q w q' w'" "crashed w' = crashed w" "abs_querier q' g' = abs_querier q g'"
    using assms s sr(5,6) aq stays_ok_set [OF assms(2) sr(5), of g gi1] stays_ok_same [OF assms(2) extends_refl]
    by (auto simp: timer_triggerd_ret_source_timer_def abs_set_group [OF assms(2)] split: if_splits)
qed

text \<open>The state in which following the filter timer is a null dereference.\<close>

definition query_without_timer :: "gaddr_info \<Rightarrow> timer_msg \<Rightarrow> bool" where
  "query_without_timer gi msg \<longleftrightarrow> refers (group_retransmission_timer gi) (tm_ptr msg)
     \<and> filter_mode gi = INCLUDE_MODE \<and> group_retransmission_count gi > 0"

lemma ret_group_timer_ok:
  assumes "timer_triggerd_ret_group_timer q g gi msg w = (q', w')" "db_inv q w" "find_group g q = Some gi"
    and "tm_gaddr msg = g"
  shows "stays_ok q w q' w'" "crashed w' \<longleftrightarrow> crashed w \<or> query_without_timer gi msg"
    and "abs_querier q' g' = abs_querier q g'"
proof -
  have ok: "group_ok q g w gi" by (rule db_inv_find [OF assms(2,3)])
  then have inv: "ginfo_inv q g w gi" by (simp add: group_ok_def)
  have aq: "abs_querier q g = abs_group gi" by (simp add: abs_querier_def assms(3))
  obtain gi1 w1 where s: "send_Q_group q g gi w = (gi1, w1)" by fastforce
  note sr = send_Q_group_result [OF s ginfo_inv_timers(1,3) [OF inv]]
  have sf: "shared_filter_timer gi = None \<longleftrightarrow> filter_mode gi = INCLUDE_MODE"
    using inv by (cases "filter_mode gi") (auto simp: ginfo_inv_def)
  show "stays_ok q w q' w'" "crashed w' \<longleftrightarrow> crashed w \<or> query_without_timer gi msg"
    "abs_querier q' g' = abs_querier q g'"
  proof (atomize (full), cases "refers (group_retransmission_timer gi) (tm_ptr msg)")
    case True
    then have gt: "group_retransmission_timer gi \<noteq> None" by (auto simp: refers_def split: option.splits)
    have qw: "q' = set_group g gi1 q" "w' = w1"
      using assms(1,4) s True by (auto simp: timer_triggerd_ret_group_timer_def)
    have "ginfo_inv q g w1 gi1"
      using inv sr gt by (auto simp: ginfo_inv_def group_frame_def intro: timer_for_mono requested_ok_mono
          split: mc_filter.splits)
    with ok sr have "group_ok q g w1 gi1"
      by (auto simp: group_ok_def compat_ok_def in_use_def group_frame_def)
    moreover have "abs_group gi1 = abs_group gi" using sr by (auto simp: abs_group_def group_frame_def split: mc_filter.splits)
    ultimately show "stays_ok q w q' w' \<and> (crashed w' \<longleftrightarrow> crashed w \<or> query_without_timer gi msg)
        \<and> abs_querier q' g' = abs_querier q g'"
      using sr True sf aq gt
      by (auto simp: qw query_without_timer_def abs_set_group [OF assms(2)] intro: stays_ok_set [OF assms(2)])
  next
    case False
    then show "stays_ok q w q' w' \<and> (crashed w' \<longleftrightarrow> crashed w \<or> query_without_timer gi msg)
        \<and> abs_querier q' g' = abs_querier q g'"
      using assms(1) stays_ok_same [OF assms(2)]
      by (auto simp: timer_triggerd_ret_group_timer_def query_without_timer_def)
  qed
qed

lemma older_host_timer_ok:
  assumes "timer_triggerd_older_host_present_timer q g gi msg w = (q', w')" "db_inv q w" "find_group g q = Some gi"
  shows "stays_ok q w q' w'" "crashed w' = crashed w" and "abs_querier q' g' = abs_querier q g'"
proof -
  have ok: "group_ok q g w gi" by (rule db_inv_find [OF assms(2,3)])
  have aq: "abs_querier q g = abs_group gi" by (simp add: abs_querier_def assms(3))
  obtain v where v: "get_next_newer_version (compatibility_mode_variable gi) = Some v"
    using get_next_newer_version_total by auto
  define d where "d = (if is_newest_version v then get_multicast_address_listening_interval (q_timers_values q)
      else get_older_host_present_interval (q_timers_values q))"
  obtain t w1 where t: "make_timer OLDER_HOST_PRESENT_TIMER_MSG (q_if_index q) g Addr_Unspec d w = (t, w1)" by fastforce
  let ?r = "refers (older_host_present_timer gi) (tm_ptr msg)"
  let ?new = "is_newest_version (compatibility_mode_variable gi)"
  consider (stale) "\<not> ?r" | (off) ?r ?new | (older) ?r "\<not> ?new" by blast
  then have "stays_ok q w q' w' \<and> crashed w' = crashed w \<and> abs_querier q' g' = abs_querier q g'"
  proof cases
    case stale
    then have "q' = q" "w' = w" using assms(1) by (auto simp: timer_triggerd_older_host_present_timer_def)
    with stays_ok_same [OF assms(2)] show ?thesis by simp
  next
    case off
    let ?gi = "gi\<lparr>older_host_present_timer := None\<rparr>"
    have qw: "q' = set_group g ?gi q" "w' = state_change_notification g (set_group g ?gi q) w"
      using assms(1) off by (auto simp: timer_triggerd_older_host_present_timer_def Let_def)
    have e: "extends w w'" by (simp add: qw)
    have "group_ok q g w ?gi"
      using ok off by (auto simp: group_ok_def ginfo_inv_def compat_ok_def in_use_def split: mc_filter.splits)
    with stays_ok_set [OF assms(2) e] group_ok_mono [OF _ e] show ?thesis
      using aq by (auto simp: qw abs_set_group [OF assms(2)] abs_group_def split: mc_filter.splits)
  next
    case older
    let ?gi = "gi\<lparr>compatibility_mode_variable := v, older_host_present_timer := Some t\<rparr>"
    have qw: "q' = set_group g ?gi q" "w' = add_time d (q_msg_worker q) t w1"
      using assms(1) older v t
      by (auto simp: timer_triggerd_older_host_present_timer_def Let_def d_def [symmetric])
    have e: "extends w w'" using extends_make_timer [OF t] by (auto simp: qw intro: extends_trans)
    have "group_ok q g w' ?gi"
      using group_ok_mono [OF ok e] timer_for_new [OF t]
      by (auto simp: qw group_ok_def ginfo_inv_def compat_ok_def in_use_def split: mc_filter.splits)
    with stays_ok_set [OF assms(2) e] show ?thesis
      using aq make_timer_fields [OF t]
      by (auto simp: qw(1) abs_set_group [OF assms(2)] abs_group_def split: mc_filter.splits)
         (auto simp: qw add_time_def now_def emit_def)
  qed
  then show "stays_ok q w q' w'" "crashed w' = crashed w" "abs_querier q' g' = abs_querier q g'" by simp_all
qed

lemma general_query_ok:
  assumes "send_general_query q w = (rc, q', w')" "db_inv q w"
  shows "stays_ok q w q' w'" "crashed w' = crashed w" and "abs_querier q' g = abs_querier q g"
    and "general_query_timer (q_db q') \<noteq> None"
proof -
  let ?db = "q_db q" and ?tv = "q_timers_values q"
  define c where "c = (if general_query_timer ?db = None then to_int (get_startup_query_count ?tv - 1)
      else db_startup_query_count ?db)"
  define t where "t = (if c > 0 then get_startup_query_interval ?tv else get_query_interval ?tv)"
  obtain m w1 where m: "make_timer GENERAL_QUERY_TIMER_MSG (q_if_index q) Addr_Unspec Addr_Unspec (t * 1000) w = (m, w1)"
    by fastforce
  let ?w2 = "add_time (t * 1000) (q_msg_worker q) m w1"
  obtain rc' w3 where s: "sender_send_general_query (q_sender q) (q_if_index q) ?tv ?w2 = (rc', w3)" by fastforce
  have r: "q' = q\<lparr>q_db := ?db\<lparr>db_startup_query_count := (if c > 0 then c - 1 else c), general_query_timer := Some m\<rparr>\<rparr>"
    "w' = w3"
    using assms(1) m s
    by (auto simp: send_general_query_def Let_def c_def t_def split: if_splits)
  have io: "io_only ?w2 w3"
    using io_only_send_query [of ?w2] s by (auto simp: sender_send_general_query_def) (metis snd_conv)
  have e2: "extends w ?w2" using extends_make_timer [OF m] by (auto intro: extends_trans)
  have e: "extends w w'" using e2 io_only_extends [OF io] r(2) by (auto intro: extends_trans)
  have f: "find_group g q' = find_group g q" for g by (simp add: find_group_def r)
  have c: "same_config q q'" by (simp add: same_config_def r)
  have tf: "timer_for q GENERAL_QUERY_TIMER_MSG Addr_Unspec w' (Some m)"
    using timer_for_mono [OF timer_for_new [OF m] io_only_extends [OF io]] r(2) by simp
  have "db_inv q w'" by (rule db_inv_mono [OF assms(2) e])
  then have "db_inv q' w'"
    using tf unfolding db_inv_def f group_ok_config [OF c] by (simp add: r timer_for_def)
  with c e show "stays_ok q w q' w'" by (simp add: stays_ok_def)
  show "crashed w' = crashed w"
    using io make_timer_fields [OF m] r(2) by (simp add: io_only_def add_time_def now_def emit_def)
  show "abs_querier q' g = abs_querier q g" by (simp add: abs_querier_def f)
  show "general_query_timer (q_db q') \<noteq> None" by (simp add: r)
qed

end
