(* ===== verification/Querier_Run.thy ===== *)
theory Querier_Run
  imports Querier_Inv
begin

section \<open>Runs of a querier and its correctness properties\<close>

text \<open>
  The querier as a transition system: it is created, receives records, gets timer messages in
  any order (also outdated ones, also while another thread still holds a reference), and other
  components act on the world in between.  The properties hold in every reachable state.
\<close>

inductive querier_run :: "querier \<Rightarrow> world \<Rightarrow> bool" where
  run_start: "new_querier wk gmp i k tv w0 = (Inr q, w) \<Longrightarrow> querier_run q w"
| run_record: "querier_run q w \<Longrightarrow> record_ok gr \<Longrightarrow> receive_record q gr w = (q', w') \<Longrightarrow> querier_run q' w'"
| run_timer: "querier_run q w \<Longrightarrow> \<not> tm_is_used_as_source_timer msg \<Longrightarrow>
    timer_triggerd shared q msg w = (q', w') \<Longrightarrow> querier_run q' w'"
| run_other: "querier_run q w \<Longrightarrow> extends w w' \<Longrightarrow> querier_run q w'"

subsection \<open>The dispatch of timer messages\<close>

text \<open>The specification of an expiry: RFC 3810, 7.2.2 and 7.2.3.\<close>

definition rfc_expiry :: "gaddr_info \<Rightarrow> timer_msg \<Rightarrow> router_state \<Rightarrow> router_state" where
  "rfc_expiry gi msg st =
     (if tm_type msg = SOURCE_TIMER_MSG then rfc_source_expiry st (expired_sources gi msg)
      else if tm_type msg = FILTER_TIMER_MSG \<and> refers (shared_filter_timer gi) (tm_ptr msg)
      then Incl (sm_keys (include_requested_list gi)) else st)"

lemma unreferenced:
  assumes "\<not> db_refers (q_db q) (tm_ptr msg)" "find_group g q = Some gi"
  shows "\<not> refers (shared_filter_timer gi) (tm_ptr msg)" "expired_sources gi msg = {}"
    and "\<not> refers (group_retransmission_timer gi) (tm_ptr msg)"
proof -
  have "(g, gi) \<in> set (group_info (q_db q))" using assms(2) by (simp add: find_group_def map_of_SomeD)
  with assms(1) have n: "\<not> ginfo_refers gi (tm_ptr msg)" by (auto simp: db_refers_def list_ex_iff)
  then show "\<not> refers (shared_filter_timer gi) (tm_ptr msg)" "\<not> refers (group_retransmission_timer gi) (tm_ptr msg)"
    by (simp_all add: ginfo_refers_def)
  from n show "expired_sources gi msg = {}"
    by (auto simp: ginfo_refers_def slist_refers_def expired_sources_def list_ex_iff filter_empty_conv
        simp flip: sm_keys_empty_iff)
qed

lemma rfc_source_expiry_none [simp]: "rfc_source_expiry st {} = st"
  by (cases st) auto

lemma general_timer_step:
  "timer_triggerd_general_query_timer q msg w = (q', w') \<Longrightarrow>
     (q' = q \<and> w' = w) \<or> (\<exists>rc. send_general_query q w = (rc, q', w'))"
  by (cases "send_general_query q w") (auto simp: timer_triggerd_general_query_timer_def split: if_splits)

lemma timer_triggerd_ok:
  assumes t: "timer_triggerd shared q msg w = (q', w')" and inv: "db_inv q w"
    and u: "\<not> tm_is_used_as_source_timer msg"
  shows "stays_ok q w q' w'"
    and "crashed w' \<longleftrightarrow> crashed w \<or> tm_type msg = RET_GROUP_TIMER_MSG
           \<and> (\<exists>gi. find_group (tm_gaddr msg) q = Some gi \<and> query_without_timer gi msg)"
    and "abs_querier q' g = (case find_group (tm_gaddr msg) q of
           Some gi \<Rightarrow> if g = tm_gaddr msg then rfc_expiry gi msg (abs_querier q g) else abs_querier q g
         | None \<Rightarrow> abs_querier q g)"
proof -
  let ?g = "tm_gaddr msg"
  let ?P = "stays_ok q w q' w' \<and> (crashed w' \<longleftrightarrow> crashed w \<or> tm_type msg = RET_GROUP_TIMER_MSG
           \<and> (\<exists>gi. find_group ?g q = Some gi \<and> query_without_timer gi msg))
      \<and> abs_querier q' g = (case find_group ?g q of
           Some gi \<Rightarrow> if g = ?g then rfc_expiry gi msg (abs_querier q g) else abs_querier q g
         | None \<Rightarrow> abs_querier q g)"
  have same: "stays_ok q w q w" using stays_ok_same [OF inv] by simp
  have ?P
  proof (cases "db_refers (q_db q) (tm_ptr msg) \<or> shared")
    case False
    then have "q' = q" "w' = w" using t by (auto simp: timer_triggerd_def)
    with same unreferenced [of q msg ?g] False show ?thesis
      by (auto simp: rfc_expiry_def query_without_timer_def split: option.splits)
  next
    case ref: True
    show ?thesis
    proof (cases "find_group ?g q")
      case None
      have "(q' = q \<and> w' = w) \<or> (\<exists>rc. send_general_query q w = (rc, q', w'))"
        using t ref None general_timer_step [of q msg w q' w'] by (auto simp: timer_triggerd_def Let_def split: if_splits)
      with same general_query_ok [OF _ inv] None show ?thesis by auto
    next
      case (Some gi)
      have aq: "abs_querier q ?g = abs_group gi" by (simp add: abs_querier_def Some)
      show ?thesis
      proof (cases "tm_type msg")
        case FILTER_TIMER_MSG
        with t ref Some have "timer_triggerd_filter_timer q ?g gi msg w = (q', w')" by (simp add: timer_triggerd_def)
        from filter_timer_ok [OF this inv Some u] FILTER_TIMER_MSG Some show ?thesis by (simp add: rfc_expiry_def)
      next
        case SOURCE_TIMER_MSG
        with t ref Some have "timer_triggerd_source_timer q ?g gi msg w = (q', w')" by (simp add: timer_triggerd_def)
        from source_timer_ok [OF this inv Some] SOURCE_TIMER_MSG Some aq show ?thesis by (simp add: rfc_expiry_def)
      next
        case RET_GROUP_TIMER_MSG
        with t ref Some have "timer_triggerd_ret_group_timer q ?g gi msg w = (q', w')" by (simp add: timer_triggerd_def)
        from ret_group_timer_ok [OF this inv Some refl] RET_GROUP_TIMER_MSG Some show ?thesis by (simp add: rfc_expiry_def)
      next
        case RET_SOURCE_TIMER_MSG
        with t ref Some have "timer_triggerd_ret_source_timer q ?g gi msg w = (q', w')" by (simp add: timer_triggerd_def)
        from ret_source_timer_ok [OF this inv Some refl] RET_SOURCE_TIMER_MSG Some show ?thesis by (simp add: rfc_expiry_def)
      next
        case OLDER_HOST_PRESENT_TIMER_MSG
        with t ref Some have "timer_triggerd_older_host_present_timer q ?g gi msg w = (q', w')"
          by (simp add: timer_triggerd_def)
        from older_host_timer_ok [OF this inv Some] OLDER_HOST_PRESENT_TIMER_MSG Some show ?thesis
          by (simp add: rfc_expiry_def)
      next
        case GENERAL_QUERY_TIMER_MSG
        with t ref have "(q' = q \<and> w' = w) \<or> (\<exists>rc. send_general_query q w = (rc, q', w'))"
          using general_timer_step [of q msg w q' w'] by (auto simp: timer_triggerd_def Let_def split: if_splits)
        with same general_query_ok [OF _ inv] GENERAL_QUERY_TIMER_MSG Some show ?thesis by (auto simp: rfc_expiry_def)
      qed (use t ref same Some in \<open>simp_all add: timer_triggerd_def rfc_expiry_def\<close>)
    qed
  qed
  then show "stays_ok q w q' w'"
    and "crashed w' \<longleftrightarrow> crashed w \<or> tm_type msg = RET_GROUP_TIMER_MSG
           \<and> (\<exists>gi. find_group ?g q = Some gi \<and> query_without_timer gi msg)"
    and "abs_querier q' g = (case find_group ?g q of
           Some gi \<Rightarrow> if g = ?g then rfc_expiry gi msg (abs_querier q g) else abs_querier q g
         | None \<Rightarrow> abs_querier q g)" by simp_all
qed

subsection \<open>Reachable states satisfy the invariant\<close>

lemma new_querier_ok:
  assumes "new_querier wk gmp i k tv w0 = (Inr q, w)"
  shows "db_inv q w" "general_query_timer (q_db q) \<noteq> None" "querier_version_mode (q_db q) = gmp"
proof -
  let ?q = "\<lparr>q_msg_worker = wk, q_if_index = i, q_db = new_membership_db gmp,
               q_timers_values = copy_timers_values new_timers_values tv, q_sender = k\<rparr>"
  obtain rc w1 where r: "router_groups_function True ?q w0 = (rc, w1)" by fastforce
  obtain rc2 where g: "send_general_query ?q w1 = (rc2, q, w)"
    using assms r by (auto simp: new_querier_def Let_def split: if_splits prod.splits)
  have "db_inv ?q w1" by (simp add: db_inv_def find_group_def new_membership_db_def)
  note ok = general_query_ok [OF g this]
  from ok(1) show "db_inv q w" "querier_version_mode (q_db q) = gmp"
    by (simp_all add: stays_ok_def same_config_def new_membership_db_def)
  show "general_query_timer (q_db q) \<noteq> None" by (rule ok(4))
qed

lemma run_inv: "querier_run q w \<Longrightarrow> db_inv q w"
proof (induction rule: querier_run.induct)
  case (run_start wk gmp i k tv w0 q w)
  then show ?case by (rule new_querier_ok(1))
next
  case (run_record q w gr q' w')
  then show ?case using receive_record_ok(1) by (simp add: stays_ok_def)
next
  case (run_timer q w msg shared q' w')
  then show ?case using timer_triggerd_ok(1) by (simp add: stays_ok_def)
next
  case (run_other q w w')
  from db_inv_mono [OF run_other(3,2)] show ?case .
qed

subsection \<open>A concrete run\<close>

text \<open>An IGMPv3 querier on interface 2 with the default timers, a group 232.1.2.3 with one source.\<close>

definition ex_start :: "(querier_error + querier) \<times> world" where
  "ex_start = new_querier 1 IGMPv3 2 IGMP_SENDER new_timers_values example_world"

definition ex_q0 :: querier where
  "ex_q0 = (case fst ex_start of Inr q \<Rightarrow> q | Inl e \<Rightarrow> undefined)"

definition ex_record :: "mcast_addr_record_type \<Rightarrow> u32 list \<Rightarrow> group_record_msg" where
  "ex_record rt as = \<lparr>gr_if_index = 2, gr_record_type = rt, gr_gaddr = Addr4 0xE8010203,
     gr_slist = source_list_of (map Addr4 as), gr_grp_mem_proto = IGMPv3\<rparr>"

definition ex_s1 :: "querier \<times> world" where
  "ex_s1 = receive_record ex_q0 (ex_record ALLOW_NEW_SOURCES [7]) (snd ex_start)"

definition ex_s2 :: "querier \<times> world" where
  "ex_s2 = receive_record (fst ex_s1) (ex_record CHANGE_TO_EXCLUDE_MODE [7, 9]) (snd ex_s1)"

lemma ex_record_ok: "record_ok (ex_record rt as)"
  by (simp add: record_ok_def ex_record_def fresh_source_list_of is_newest_version_def)

lemma ex_run0: "querier_run ex_q0 (snd ex_start)"
proof (rule run_start)
  have "\<not> isl (fst ex_start)" by code_simp
  then have "fst ex_start = Inr ex_q0" by (cases "fst ex_start") (auto simp: ex_q0_def)
  then show "new_querier 1 IGMPv3 2 IGMP_SENDER new_timers_values example_world = (Inr ex_q0, snd ex_start)"
    by (metis ex_start_def prod.collapse)
qed

lemma ex_run1: "querier_run (fst ex_s1) (snd ex_s1)"
  by (rule run_record [OF ex_run0 ex_record_ok]) (simp add: ex_s1_def)

lemma ex_run2: "querier_run (fst ex_s2) (snd ex_s2)"
  by (rule run_record [OF ex_run1 ex_record_ok]) (simp add: ex_s2_def)

lemma ex_group1: "find_group (Addr4 0xE8010203) (fst ex_s1) \<noteq> None"
  by code_simp

lemma ex_group0: "find_group (Addr4 0xE8010203) ex_q0 = None" "querier_version_mode (q_db ex_q0) = IGMPv3"
proof -
  have "find_group (Addr4 0xE8010203) ex_q0 = None \<and> querier_version_mode (q_db ex_q0) = IGMPv3" by code_simp
  then show "find_group (Addr4 0xE8010203) ex_q0 = None" "querier_version_mode (q_db ex_q0) = IGMPv3" by simp_all
qed

lemma ex_compat0: "compat_when ex_q0 (ex_record rt as) = False"
  by (simp add: compat_when_def ex_record_def is_newest_version_def group_or_new_def ex_group0
      new_gaddr_info_def is_in_backward_compatibility_mode_def)

subsection \<open>Properties\<close>

lemma timer_for_event:
  "timer_for q ty g w ot \<Longrightarrow> ot \<noteq> None \<Longrightarrow> \<exists>t d. ot = Some t \<and> tm_type t = ty \<and> tm_gaddr t = g
     \<and> tm_if_index t = q_if_index q \<and> Add_time d t \<in> set (log w)"
  by (auto simp: timer_for_def scheduled_def)

text \<open>C1: A record changes the state of its group, and of no other group, exactly as the tables
  of RFC 3810, 7.4 say, with the exceptions of 8.3.2 for groups in compatibility mode.\<close>

theorem receive_record_refines:
  assumes "querier_run q w" "record_ok gr" "receive_record q gr w = (q', w')"
  shows "abs_querier q' g =
    (if g = gr_gaddr gr
     then rfc_receive (compat_when q gr) (abs_querier q g) (gr_record_type gr) (sm_keys (gr_slist gr))
     else abs_querier q g)"
  using receive_record_ok(3) [OF assms(3) run_inv [OF assms(1)] assms(2)] by (simp add: rfc_record_def)

lemma receive_record_refines_witness:
  "abs_querier (fst (receive_record ex_q0 (ex_record CHANGE_TO_EXCLUDE_MODE [7, 9]) (snd ex_start))) (Addr4 0xE8010203)
     = Excl {} {Addr4 7, Addr4 9}"
  using receive_record_refines [OF ex_run0 ex_record_ok prod.collapse [symmetric], of CHANGE_TO_EXCLUDE_MODE "[7, 9]" "Addr4 0xE8010203"]
    ex_compat0 [of CHANGE_TO_EXCLUDE_MODE "[7, 9]"]
  by (simp add: rfc_receive_def abs_querier_def ex_group0 ex_record_def)

text \<open>C2: A timer message changes the abstract state only as RFC 3810, 7.2.2 and 7.2.3 say: the
  sources whose timer expired leave the include list or move to the exclude list, an expired filter
  timer ends the exclude mode; a message of a timer that has been replaced changes nothing.\<close>

theorem timer_triggerd_refines:
  assumes "querier_run q w" "\<not> tm_is_used_as_source_timer msg" "timer_triggerd shared q msg w = (q', w')"
  shows "abs_querier q' g =
    (case find_group (tm_gaddr msg) q of
       Some gi \<Rightarrow> if g = tm_gaddr msg then rfc_expiry gi msg (abs_querier q g) else abs_querier q g
     | None \<Rightarrow> abs_querier q g)"
  using timer_triggerd_ok(3) [OF assms(3) run_inv [OF assms(1)] assms(2)] .

lemma timer_triggerd_refines_witness:
  "abs_querier (fst (timer_triggerd False ex_q0 (example_timer 5) (snd ex_start))) (Addr4 0xE8010203)
     = abs_querier ex_q0 (Addr4 0xE8010203)"
  using timer_triggerd_refines [OF ex_run0, of "example_timer 5" False _ _ "Addr4 0xE8010203", OF _ prod.collapse [symmetric]]
  by (simp add: example_timer_def ex_group0)

text \<open>C5: No zombies: in every reachable state each source of the include or requested list runs
  a source timer for its group that was handed to the timing database, and no source of the exclude
  list runs one.\<close>

theorem requested_sources_timed:
  assumes "querier_run q w" "find_group g q = Some gi"
  shows "(\<forall>k s. map_of (include_requested_list gi) k = Some s \<longrightarrow>
      (\<exists>t d. shared_source_timer s = Some t \<and> tm_type t = SOURCE_TIMER_MSG \<and> tm_gaddr t = g
         \<and> tm_if_index t = q_if_index q \<and> Add_time d t \<in> set (log w)))
    \<and> (\<forall>k s. map_of (exclude_list gi) k = Some s \<longrightarrow> shared_source_timer s = None)"
proof -
  have "ginfo_inv q g w gi" using db_inv_find [OF run_inv [OF assms(1)] assms(2)] by (simp add: group_ok_def)
  then have "requested_ok q g w (include_requested_list gi)" "untimed (exclude_list gi)"
    by (simp_all add: ginfo_inv_def)
  then show ?thesis
    unfolding requested_ok_def src_timed_def untimed_def using timer_for_event by blast
qed

lemma requested_sources_timed_witness:
  "\<exists>gi. find_group (Addr4 0xE8010203) (fst ex_s1) = Some gi
     \<and> (\<forall>k s. map_of (exclude_list gi) k = Some s \<longrightarrow> shared_source_timer s = None)"
  using ex_group1 requested_sources_timed [OF ex_run1, of "Addr4 0xE8010203"] by blast

text \<open>C6: In every reachable state a group in include mode has no exclude list, and a group in
  exclude mode runs a filter timer and never both requests and excludes a source.\<close>

theorem filter_mode_consistent:
  assumes "querier_run q w" "find_group g q = Some gi"
  shows "case filter_mode gi of
      INCLUDE_MODE \<Rightarrow> exclude_list gi = [] \<and> shared_filter_timer gi = None
    | EXCLUDE_MODE \<Rightarrow> sm_keys (include_requested_list gi) \<inter> sm_keys (exclude_list gi) = {}
        \<and> (\<exists>t d. shared_filter_timer gi = Some t \<and> tm_type t = FILTER_TIMER_MSG \<and> tm_gaddr t = g
             \<and> Add_time d t \<in> set (log w))"
proof -
  have "ginfo_inv q g w gi" using db_inv_find [OF run_inv [OF assms(1)] assms(2)] by (simp add: group_ok_def)
  then show ?thesis
    unfolding ginfo_inv_def using timer_for_event [of q FILTER_TIMER_MSG g w "shared_filter_timer gi"]
    by (auto split: mc_filter.splits)
qed

lemma filter_mode_consistent_witness:
  "\<exists>gi. find_group (Addr4 0xE8010203) (fst ex_s1) = Some gi
     \<and> (filter_mode gi = INCLUDE_MODE \<longrightarrow> exclude_list gi = [])"
  using ex_group1 filter_mode_consistent [OF ex_run1, of "Addr4 0xE8010203"] by fastforce

text \<open>C20: The only handler that can follow a null pointer is the retransmission of a multicast
  address specific query after the group went back to include mode: every other timer message is
  safe, and this one crashes exactly when queries are left to be sent.\<close>

theorem null_filter_timer:
  assumes "querier_run q w" "\<not> tm_is_used_as_source_timer msg" "timer_triggerd shared q msg w = (q', w')"
  shows "crashed w' \<longleftrightarrow> crashed w \<or>
    (tm_type msg = RET_GROUP_TIMER_MSG \<and>
     (\<exists>gi. find_group (tm_gaddr msg) q = Some gi \<and> refers (group_retransmission_timer gi) (tm_ptr msg)
        \<and> filter_mode gi = INCLUDE_MODE \<and> group_retransmission_count gi > 0))"
  using timer_triggerd_ok(2) [OF assms(3) run_inv [OF assms(1)] assms(2)] by (simp add: query_without_timer_def)

lemma null_filter_timer_witness:
  "crashed (snd (timer_triggerd False ex_q0 (example_timer 5) (snd ex_start))) = crashed (snd ex_start)"
  using null_filter_timer [OF ex_run0, of "example_timer 5" False, OF _ prod.collapse [symmetric]]
  by (simp add: example_timer_def)


lemma ex_version1: "is_newest_version (querier_version_mode (q_db (fst ex_s1)))"
  by code_simp


definition requests :: "querier \<Rightarrow> addr_storage \<Rightarrow> addr_storage \<Rightarrow> bool" where
  "requests q g a \<longleftrightarrow> (case find_group g q of
     None \<Rightarrow> False
   | Some gi \<Rightarrow> older_host_present_timer gi \<noteq> None
       \<or> (case abs_group gi of Incl A \<Rightarrow> a \<in> A | Excl X Y \<Rightarrow> a \<notin> Y))"

lemma suggest_rule:
  "suggest_to_forward_traffic q g l f =
     map (\<lambda>(a, is). (a, if is_querier (q_db q) \<and> f a \<and> requests q g a then is @ [q_if_index q] else is)) l"
  by (cases "find_group g q"; cases "filter_mode (the (find_group g q))")
     (auto simp: suggest_to_forward_traffic_def requests_def abs_group_def is_under_bakcward_compatibility_effects_def
       Let_def case_prod_unfold)


text \<open>What the querier reports to the routing management accepts exactly the sources the
  forwarding rule accepts.\<close>

theorem membership_infos_accept:
  "requests q g a \<longleftrightarrow>
     (case get_group_membership_infos (q_db q) g of
        (INCLUDE_MODE, l) \<Rightarrow> a \<in> sm_keys l | (EXCLUDE_MODE, l) \<Rightarrow> a \<notin> sm_keys l)"
  by (auto simp: requests_def get_group_membership_infos_def find_group_def abs_group_def
      is_under_bakcward_compatibility_effects_def split: option.splits mc_filter.splits)

end
