(* ===== verification/Querier_Queries.thy ===== *)
theory Querier_Queries
  imports Querier_Run
begin

section \<open>The queries of the querier\<close>

text \<open>
  The table actions Send Q(MA) and Send Q(MA, A) with their retransmissions, the schedule of the
  general queries, and the notification of the routing management for a leave of an older host.
\<close>

subsection \<open>General queries\<close>

definition startup_left :: "querier \<Rightarrow> int" where
  "startup_left q = (if general_query_timer (q_db q) = None
     then to_int (get_startup_query_count (q_timers_values q) - 1) else db_startup_query_count (q_db q))"

definition query_delay :: "querier \<Rightarrow> int" where
  "query_delay q = (if startup_left q > 0 then get_startup_query_interval (q_timers_values q)
     else get_query_interval (q_timers_values q)) * 1000"

fun general_queries :: "nat \<Rightarrow> querier \<Rightarrow> world \<Rightarrow> querier \<times> world" where
  "general_queries 0 q w = (q, w)"
| "general_queries (Suc n) q w = (let (rc, q, w) = send_general_query q w in general_queries n q w)"

lemma send_general_query_step:
  assumes "send_general_query q w = (rc, q', w')"
  shows "startup_left q' = (if startup_left q > 0 then startup_left q - 1 else startup_left q)"
    and "q_timers_values q' = q_timers_values q"
    and "\<exists>t. general_query_timer (q_db q') = Some t \<and> Add_time (query_delay q) t \<in> set (log w')"
proof -
  let ?db = "q_db q" and ?tv = "q_timers_values q"
  define t where "t = (if startup_left q > 0 then get_startup_query_interval ?tv else get_query_interval ?tv)"
  obtain m w1 where m: "make_timer GENERAL_QUERY_TIMER_MSG (q_if_index q) Addr_Unspec Addr_Unspec (t * 1000) w = (m, w1)"
    by fastforce
  let ?w2 = "add_time (t * 1000) (q_msg_worker q) m w1"
  obtain rc' w3 where s: "sender_send_general_query (q_sender q) (q_if_index q) ?tv ?w2 = (rc', w3)" by fastforce
  have r: "q' = q\<lparr>q_db := ?db\<lparr>db_startup_query_count := (if startup_left q > 0 then startup_left q - 1 else startup_left q),
      general_query_timer := Some m\<rparr>\<rparr>" "w' = w3"
    using assms m s
    by (auto simp: send_general_query_def Let_def startup_left_def t_def split: if_splits)
  then show "startup_left q' = (if startup_left q > 0 then startup_left q - 1 else startup_left q)"
    "q_timers_values q' = q_timers_values q" by (simp_all add: startup_left_def)
  have "io_only ?w2 w3"
    using io_only_send_query [of ?w2 "q_sender q" "q_if_index q" ?tv "any_addr (q_sender q)" False "[]"] s
    by (simp add: sender_send_general_query_def)
  moreover have "Add_time (t * 1000) m \<in> set (log ?w2)" by (simp add: add_time_def now_def emit_def)
  ultimately show "\<exists>t. general_query_timer (q_db q') = Some t \<and> Add_time (query_delay q) t \<in> set (log w')"
    using extends_log [OF io_only_extends] by (fastforce simp: r query_delay_def t_def)
qed

lemma general_queries_left:
  "general_queries n q w = (q', w') \<Longrightarrow>
     startup_left q' = (if startup_left q > 0 then max 0 (startup_left q - int n) else startup_left q)
     \<and> q_timers_values q' = q_timers_values q"
proof (induction n arbitrary: q w)
  case (Suc n)
  obtain rc q1 w1 where s: "send_general_query q w = (rc, q1, w1)" by (metis prod_cases3)
  with Suc.prems have "general_queries n q1 w1 = (q', w')" by simp
  from Suc.IH [OF this] send_general_query_step(1,2) [OF s] show ?case by auto
qed simp

text \<open>The start-up of the general queries: with a start-up query count of \<open>c\<close> the first
  \<open>c - 1\<close> general queries of a querier are followed by the start-up interval, every later one by
  the query interval; each schedules the timer of the next.\<close>

theorem general_query_schedule:
  assumes "general_query_timer (q_db q) = None" "0 < c" "c < 2 ^ 31"
    and "get_startup_query_count (q_timers_values q) = of_nat c"
    and "general_queries n q w = (q1, w1)" "send_general_query q1 w1 = (rc, q2, w2)"
  shows "\<exists>t. general_query_timer (q_db q2) = Some t \<and>
    Add_time ((if n < c - 1 then get_startup_query_interval (q_timers_values q)
               else get_query_interval (q_timers_values q)) * 1000) t \<in> set (log w2)"
proof -
  have "sint (word_of_int (int (c - 1)) :: u32) = int (c - 1)"
    unfolding signed_of_int of_int_eq_id id_apply
    using assms(2,3) by (intro signed_take_bit_int_eq_self) auto
  moreover have "of_nat c - 1 = (word_of_int (int (c - 1)) :: u32)" using assms(2) by simp
  ultimately have "startup_left q = int (c - 1)"
    using assms(1,4) by (simp add: startup_left_def to_int_def)
  with general_queries_left [OF assms(5)] have
    "startup_left q1 > 0 \<longleftrightarrow> n < c - 1" "q_timers_values q1 = q_timers_values q" by auto
  with send_general_query_step(3) [OF assms(6)] show ?thesis
    by (cases "n < c - 1") (simp_all add: query_delay_def)
qed

definition ex_fresh :: querier where
  "ex_fresh = \<lparr>q_msg_worker = 1, q_if_index = 2, q_db = new_membership_db IGMPv3,
     q_timers_values = new_timers_values, q_sender = IGMP_SENDER\<rparr>"

lemma general_query_schedule_witness:
  "\<exists>t. general_query_timer (q_db (fst (snd (send_general_query ex_fresh example_world)))) = Some t \<and>
     Add_time (get_startup_query_interval new_timers_values * 1000) t
       \<in> set (log (snd (snd (send_general_query ex_fresh example_world))))"
proof -
  obtain rc q2 w2 where s: "send_general_query ex_fresh example_world = (rc, q2, w2)" by (metis prod_cases3)
  have "get_startup_query_count new_timers_values = of_nat 2"
    by (simp add: get_startup_query_count_def new_timers_values_def default_timers_values_tank_def)
  moreover have "q_timers_values ex_fresh = new_timers_values" "general_query_timer (q_db ex_fresh) = None"
    by (simp_all add: ex_fresh_def new_membership_db_def)
  ultimately show ?thesis
    using general_query_schedule [OF _ _ _ _ general_queries.simps(1) s, of 2] by (simp add: s)
qed

subsection \<open>The multicast address specific query\<close>

text \<open>\<open>n\<close> calls of \<^verbatim>\<open>send_Q(gaddr, ginfo)\<close>: the table action, then the retransmissions.\<close>

fun group_queries :: "nat \<Rightarrow> querier \<Rightarrow> addr_storage \<Rightarrow> gaddr_info \<Rightarrow> world \<Rightarrow> gaddr_info \<times> world" where
  "group_queries 0 q g gi w = (gi, w)"
| "group_queries (Suc n) q g gi w = (let (gi, w) = send_Q_group q g gi w in group_queries n q g gi w)"

definition group_query_running :: "gaddr_info \<Rightarrow> int \<Rightarrow> bool" where
  "group_query_running gi c \<longleftrightarrow> group_retransmission_timer gi \<noteq> None \<and> group_retransmission_count gi = c"

lemma send_Q_group_running:
  assumes "send_Q_group q g gi w = (gi', w')" "group_query_running gi c" "c > 0"
  shows "group_query_running gi' (c - 1)"
proof -
  have s: "start_group_query q g gi w = (gi, w)"
    using assms(2) by (auto simp: start_group_query_def group_query_running_def)
  let ?gi = "gi\<lparr>group_retransmission_count := group_retransmission_count gi - 1\<rparr>"
  obtain gi2 w2 where s2: "schedule_group_query q g ?gi w = (gi2, w2)" by fastforce
  have "gi' = gi2"
    using assms s s2 by (auto simp: send_Q_group_def Let_def group_query_running_def split: prod.splits)
  moreover have "group_query_running gi2 (c - 1)"
    using schedule_group_query_result [OF s2] assms(2,3)
    by (cases "c - 1 > 0") (auto simp: group_query_running_def)
  ultimately show ?thesis by simp
qed

lemma send_Q_group_start:
  assumes "send_Q_group q g gi w = (gi', w')" "group_retransmission_timer gi = None"
    and "to_int (get_last_listener_query_count (q_timers_values q)) = c" "c > 1"
  shows "group_query_running gi' (c - 1)"
proof -
  obtain gi1 w1 where s: "start_group_query q g gi w = (gi1, w1)" by fastforce
  note r = start_group_query_result [OF s]
  let ?gi = "gi1\<lparr>group_retransmission_count := group_retransmission_count gi1 - 1\<rparr>"
  obtain gi2 w2 where s2: "schedule_group_query q g ?gi w1 = (gi2, w2)" by fastforce
  have "gi' = gi2"
    using assms s s2 r(4) by (auto simp: send_Q_group_def Let_def split: prod.splits)
  moreover have "group_query_running gi2 (c - 1)"
    using schedule_group_query_result [OF s2] assms r(4) by (auto simp: group_query_running_def)
  ultimately show ?thesis by simp
qed

lemma group_queries_running:
  "group_queries n q g gi w = (gi', w') \<Longrightarrow> group_query_running gi c \<Longrightarrow> int n \<le> c \<Longrightarrow>
     group_query_running gi' (c - int n)"
proof (induction n arbitrary: gi w c)
  case (Suc n)
  obtain gi1 w1 where s: "send_Q_group q g gi w = (gi1, w1)" by fastforce
  have "group_query_running gi1 (c - 1)" using send_Q_group_running [OF s Suc.prems(2)] Suc.prems(3) by simp
  from Suc.IH [OF _ this, of w1] Suc.prems s show ?case by (simp add: algebra_simps)
qed simp



subsection \<open>The source specific query\<close>

text \<open>Send Q(MA, S): a source of \<open>S\<close> that is not being queried gets a new timer, lowered to the
  last listener query time and handed to the timing database, and one query is counted off its last
  listener query count; the timers of all other sources stay; no source is added or removed.\<close>

theorem source_query_action:
  assumes "send_Q q g gi S False w = (gi', w')" "smap_ok (include_requested_list gi)"
    and "map_of (include_requested_list gi) k = Some s"
    and "get_last_listener_query_count (q_timers_values q) \<noteq> 0"
  shows "sm_keys (include_requested_list gi') = sm_keys (include_requested_list gi) \<and>
    (\<exists>s'. map_of (include_requested_list gi') k = Some s' \<and>
      (if k \<in> sm_keys S \<and> retransmission_count s < 1
       then retransmission_count s' = uint (get_last_listener_query_count (q_timers_values q)) - 1
         \<and> (\<exists>t. shared_source_timer s' = Some t
              \<and> tm_end_time t = clock w (reads w) + ms (get_last_listener_query_time (q_timers_values q))
              \<and> Add_time (get_last_listener_query_time (q_timers_values q)) t \<in> set (new_events w w'))
       else shared_source_timer s' = shared_source_timer s))"
  using assms(1,2)
proof (cases rule: send_Q_result)
  case (1 st w1 used)
  let ?c = "to_long (get_last_listener_query_count (q_timers_values q))"
  define s' where "s' = ((if used \<or> False then tick_source k else id) \<circ> mark st ?c S k) s"
  have m: "map_of (include_requested_list gi') k = Some s'"
    using 1(7) [of k] assms(3) by (simp add: s'_def)
  have c: "uint (get_last_listener_query_count (q_timers_values q)) > 0"
    using assms(4) by (simp add: word_neq_0_conv word_less_def)
  show ?thesis
  proof (cases "k \<in> sm_keys S \<and> retransmission_count s < 1")
    case True
    then have u: used using 1(2) assms(3) by blast
    have "shared_source_timer s' = Some st" "retransmission_count s' = ?c - 1"
      using True u c by (simp_all add: s'_def mark_def tick_source_def to_long_def)
    with True m 1(4) [OF u] 1(6) make_timer_fields [OF 1(1)] show ?thesis by (simp add: to_long_def)
  next
    case False
    then have "shared_source_timer s' = shared_source_timer s" by (auto simp: s'_def mark_def)
    with False m 1(6) show ?thesis by auto
  qed
qed

definition ex_gi :: gaddr_info where
  "ex_gi = (new_gaddr_info IGMPv3)\<lparr>include_requested_list := source_list_of [Addr4 7]\<rparr>"

lemma source_query_action_witness:
  "sm_keys (include_requested_list (fst (send_Q ex_fresh (Addr4 0xE8010203) ex_gi (source_list_of [Addr4 7]) False example_world)))
     = {Addr4 7}"
proof -
  obtain gi' w' where s: "send_Q ex_fresh (Addr4 0xE8010203) ex_gi (source_list_of [Addr4 7]) False example_world = (gi', w')"
    by fastforce
  have "map_of (include_requested_list ex_gi) (Addr4 7) = Some new_source"
    by (simp add: ex_gi_def source_list_of_def)
  moreover have "get_last_listener_query_count (q_timers_values ex_fresh) \<noteq> 0" by code_simp
  ultimately show ?thesis
    using source_query_action [OF s, of "Addr4 7" new_source] s by (simp add: ex_gi_def)
qed

subsection \<open>A leave of an older host for an unknown group\<close>

text \<open>A leave that an IGMPv2 (or MLDv1) host sends for a group the querier does not know leaves
  the database as it was, but the routing management is notified in between: what it then reads
  is a listener for all sources (EXCLUDE with an empty list), and no notification takes it back.\<close>

theorem leave_of_unknown_group:
  assumes "find_group g q = None" "smap_ok (group_info (q_db q))"
    and "\<not> is_newest_version v" "is_older_or_equal_version v (querier_version_mode (q_db q))"
    and "receive_record q \<lparr>gr_if_index = i, gr_record_type = CHANGE_TO_INCLUDE_MODE, gr_gaddr = g, gr_slist = [],
           gr_grp_mem_proto = v\<rparr> w = (q', w')"
  shows "q' = q \<and> (\<exists>es db. log w' = log w @ es @ [State_change (q_if_index q) g db]
      \<and> get_group_membership_infos db g = (EXCLUDE_MODE, []))"
proof -
  let ?d = "get_older_host_present_interval (q_timers_values q)"
  obtain t w1 where t: "make_timer OLDER_HOST_PRESENT_TIMER_MSG (q_if_index q) g Addr_Unspec ?d w = (t, w1)" by fastforce
  let ?w2 = "add_time ?d (q_msg_worker q) t w1"
  let ?gi = "(new_gaddr_info (querier_version_mode (q_db q)))\<lparr>compatibility_mode_variable := v, older_host_present_timer := Some t\<rparr>"
  have l: "include_requested_list ?gi = []" "filter_mode ?gi = INCLUDE_MODE"
    by (simp_all add: new_gaddr_info_def)
  obtain w3 where r: "receive_record_in_include_mode q CHANGE_TO_INCLUDE_MODE g [] ?gi ?w2 = (True, ?gi, w3)"
    and w3: "log w3 = log ?w2"
    by (simp add: send_Q_def mali_def mali_list_def Let_def sl_sub_def l make_timer_def now_def new_gaddr_info_def)
  have u: "compatibility_update q g v (new_gaddr_info (querier_version_mode (q_db q))) w = (?gi, ?w2)"
    using assms(3,4) t by (simp add: compatibility_update_def)
  have q': "q' = erase_group g (set_group g ?gi q)" "w' = notify_if True g (set_group g ?gi q) w3"
    using assms(1,3,5) u r l
    by (simp_all add: receive_record_def process_record_def is_in_backward_compatibility_mode_def Let_def)
  have "sm_erase g (group_info (q_db q)) = group_info (q_db q)"
    using assms(1) by (auto simp: sm_erase_def filter_id_conv find_group_def map_of_None_keys sm_keys_def)
  then have "q' = q" by (simp add: q' erase_set_group_eq) (simp add: erase_group_def)
  moreover have "log w' = log w @ [Add_time ?d t] @ [State_change (q_if_index q) g (q_db (set_group g ?gi q))]"
    using make_timer_fields [OF t]
    by (simp add: q' notify_if_def state_change_notification_def emit_def w3 add_time_def now_def) (simp add: set_group_def)
  moreover have "get_group_membership_infos (q_db (set_group g ?gi q)) g = (EXCLUDE_MODE, [])"
    using assms(2) by (simp add: get_group_membership_infos_def set_group_def lookup_assign
        is_under_bakcward_compatibility_effects_def)
  ultimately show ?thesis by blast
qed

definition ex_leave :: group_record_msg where
  "ex_leave = \<lparr>gr_if_index = 2, gr_record_type = CHANGE_TO_INCLUDE_MODE, gr_gaddr = Addr4 0xE8010203,
     gr_slist = [], gr_grp_mem_proto = IGMPv2\<rparr>"

lemma leave_of_unknown_group_witness:
  "fst (receive_record ex_fresh ex_leave example_world) = ex_fresh
     \<and> (\<exists>es db. log (snd (receive_record ex_fresh ex_leave example_world))
            = es @ [State_change 2 (Addr4 0xE8010203) db]
          \<and> get_group_membership_infos db (Addr4 0xE8010203) = (EXCLUDE_MODE, []))"
proof -
  obtain q' w' where r: "receive_record ex_fresh ex_leave example_world = (q', w')" by fastforce
  have "find_group (Addr4 0xE8010203) ex_fresh = None" "smap_ok (group_info (q_db ex_fresh))"
    "\<not> is_newest_version IGMPv2" "is_older_or_equal_version IGMPv2 (querier_version_mode (q_db ex_fresh))"
    by (simp_all add: ex_fresh_def new_membership_db_def find_group_def is_newest_version_def is_older_or_equal_version_def)
  from leave_of_unknown_group [OF this r [unfolded ex_leave_def]] show ?thesis
    unfolding r by (auto simp: example_world_def ex_fresh_def)
qed

end
