(* ===== verification/Interfaces.thy ===== *)
theory Interfaces
  imports Addr_Storage "HOL-Library.List_Lexorder" "HOL-Library.Char_ord"
begin

section \<open>Network interfaces and their virtual indexes (if_prop.cpp, interfaces.cpp)\<close>

text \<open>
  \<^verbatim>\<open>if_prop\<close> sorts what \<^verbatim>\<open>getifaddrs\<close> returns by interface name.  \<^verbatim>\<open>interfaces\<close> numbers the
  interfaces of a proxy instance for the kernel: two maps that are inverse to each other, with
  numbers below the kernel's limit of 32.  The name service of the kernel
  (\<^verbatim>\<open>if_nametoindex\<close>, \<^verbatim>\<open>if_indextoname\<close>) is a parameter.  The reverse path filter is only written to
  the proc file system and not modelled.
\<close>

subsection \<open>Interface properties\<close>

record ifaddrs =
  ifa_name :: string
  ifa_flags :: u32
  ifa_addr :: "addr_storage option"      \<comment> \<open>a null pointer, or an address of some family\<close>
  ifa_netmask :: "addr_storage option"
  ifa_dstaddr :: "addr_storage option"

record ipv4_6_pair =
  ip4_addr :: "ifaddrs option"
  ip6_addr :: "ifaddrs list"

record if_prop =
  is_getaddrs_valid :: bool
  if_map :: "(string, ipv4_6_pair) smap"

definition new_if_prop :: if_prop where
  "new_if_prop = \<lparr>is_getaddrs_valid = False, if_map = []\<rparr>"

text \<open>The body of the loop over the entries.\<close>

definition add_ifaddrs :: "ifaddrs \<Rightarrow> (string, ipv4_6_pair) smap \<Rightarrow> (string, ipv4_6_pair) smap" where
  "add_ifaddrs e m =
     (case ifa_addr e of
        None \<Rightarrow> m
      | Some a \<Rightarrow>
          if get_addr_family a = AF_INET then
            (case map_of m (ifa_name e) of
               Some p \<Rightarrow> if ip4_addr p \<noteq> None then m else sm_assign (ifa_name e) (p\<lparr>ip4_addr := Some e\<rparr>) m
             | None \<Rightarrow> sm_insert (ifa_name e) \<lparr>ip4_addr = Some e, ip6_addr = []\<rparr> m)
          else if get_addr_family a = AF_INET6 then
            (case map_of m (ifa_name e) of
               Some p \<Rightarrow> sm_assign (ifa_name e) (p\<lparr>ip6_addr := ip6_addr p @ [e]\<rparr>) m
             | None \<Rightarrow> sm_insert (ifa_name e) \<lparr>ip4_addr = None, ip6_addr = [e]\<rparr> m)
          else m)"

text \<open>\<open>getifaddrs\<close> is the result of the system call: \<open>None\<close> where it fails.\<close>

definition refresh_network_interfaces :: "ifaddrs list option \<Rightarrow> if_prop \<Rightarrow> bool \<times> if_prop" where
  "refresh_network_interfaces getifaddrs p =
     (case getifaddrs of
        None \<Rightarrow> (False, p\<lparr>if_map := []\<rparr>)
      | Some es \<Rightarrow> (True, \<lparr>is_getaddrs_valid = True, if_map = fold add_ifaddrs es []\<rparr>))"

definition get_ip4_if :: "if_prop \<Rightarrow> string \<Rightarrow> ifaddrs option" where
  "get_ip4_if p n =
     (if \<not> is_getaddrs_valid p then None
      else case map_of (if_map p) n of None \<Rightarrow> None | Some q \<Rightarrow> ip4_addr q)"

definition get_ip6_if :: "if_prop \<Rightarrow> string \<Rightarrow> ifaddrs list option" where
  "get_ip6_if p n =
     (if \<not> is_getaddrs_valid p then None
      else case map_of (if_map p) n of None \<Rightarrow> None | Some q \<Rightarrow> Some (ip6_addr q))"

subsection \<open>Virtual interface indexes\<close>

record net_names =
  if_nametoindex :: "string \<Rightarrow> u32"
  if_indextoname :: "u32 \<Rightarrow> string option"

definition INTERFACES_UNKOWN_IF_INDEX :: u32 where
  "INTERFACES_UNKOWN_IF_INDEX = 0"
definition INTERFACES_UNKOWN_VIF_INDEX :: int where
  "INTERFACES_UNKOWN_VIF_INDEX = - 1"
definition MAXVIFS :: nat where
  "MAXVIFS = 32"
definition MAXMIFS :: nat where
  "MAXMIFS = 32"
definition IFF_UP :: u32 where
  "IFF_UP = 1"

record interfaces =
  m_addr_family :: addr_family
  m_if_prop :: if_prop
  m_vif_if :: "(int, u32) smap"
  m_if_vif :: "(u32, int) smap"

text \<open>The constructor; \<open>None\<close> is the exception.\<close>

definition new_interfaces :: "addr_family \<Rightarrow> ifaddrs list option \<Rightarrow> interfaces option" where
  "new_interfaces af getifaddrs =
     (let (rc, p) = refresh_network_interfaces getifaddrs new_if_prop
      in if rc then Some \<lparr>m_addr_family = af, m_if_prop = p, m_vif_if = [], m_if_vif = []\<rparr> else None)"

definition get_if_name :: "net_names \<Rightarrow> u32 \<Rightarrow> string" where
  "get_if_name net i = (case if_indextoname net i of None \<Rightarrow> [] | Some n \<Rightarrow> n)"

definition get_if_index_vif :: "interfaces \<Rightarrow> int \<Rightarrow> u32" where
  "get_if_index_vif ifs vif = (case map_of (m_vif_if ifs) vif of Some i \<Rightarrow> i | None \<Rightarrow> INTERFACES_UNKOWN_IF_INDEX)"

definition get_virtual_if_index :: "interfaces \<Rightarrow> u32 \<Rightarrow> int" where
  "get_virtual_if_index ifs i = (case map_of (m_if_vif ifs) i of Some v \<Rightarrow> v | None \<Rightarrow> INTERFACES_UNKOWN_VIF_INDEX)"

text \<open>The two loops of \<^verbatim>\<open>get_free_vif_number\<close>: the vector of used numbers (\<open>None\<close> for a number out of its
  range), and the search for an unused one.\<close>

definition vif_limit :: "addr_family \<Rightarrow> nat option" where
  "vif_limit af = (case af of AF_INET \<Rightarrow> Some MAXVIFS | AF_INET6 \<Rightarrow> Some MAXMIFS | AF_UNSPEC \<Rightarrow> None)"

fun fill_vifs :: "(u32 \<times> int) list \<Rightarrow> u32 list \<Rightarrow> u32 list option" where
  "fill_vifs [] vifs = Some vifs"
| "fill_vifs ((i, v) # m) vifs =
     (if v \<ge> int (length vifs) then None else fill_vifs m (vifs[nat v := i]))"

fun first_unused :: "nat \<Rightarrow> u32 list \<Rightarrow> int" where
  "first_unused n [] = INTERFACES_UNKOWN_VIF_INDEX"
| "first_unused n (i # vifs) = (if i = INTERFACES_UNKOWN_IF_INDEX then int n else first_unused (Suc n) vifs)"

definition get_free_vif_number :: "interfaces \<Rightarrow> int" where
  "get_free_vif_number ifs =
     (case vif_limit (m_addr_family ifs) of
        None \<Rightarrow> INTERFACES_UNKOWN_VIF_INDEX
      | Some n \<Rightarrow>
          (case fill_vifs (m_if_vif ifs) (replicate n INTERFACES_UNKOWN_IF_INDEX) of
             None \<Rightarrow> INTERFACES_UNKOWN_VIF_INDEX
           | Some vifs \<Rightarrow> first_unused 0 vifs))"

definition is_interface :: "net_names \<Rightarrow> interfaces \<Rightarrow> u32 \<Rightarrow> u32 \<Rightarrow> bool" where
  "is_interface net ifs i flags =
     (case m_addr_family ifs of
        AF_INET \<Rightarrow>
          (case get_ip4_if (m_if_prop ifs) (get_if_name net i) of
             None \<Rightarrow> False | Some e \<Rightarrow> ifa_flags e AND flags \<noteq> 0)
      | AF_INET6 \<Rightarrow>
          (case get_ip6_if (m_if_prop ifs) (get_if_name net i) of
             Some (e # es) \<Rightarrow> ifa_flags e AND flags \<noteq> 0 | _ \<Rightarrow> False)
      | AF_UNSPEC \<Rightarrow> False)"

definition add_interface :: "net_names \<Rightarrow> u32 \<Rightarrow> interfaces \<Rightarrow> bool \<times> interfaces" where
  "add_interface net i ifs =
     (let free_vif = get_free_vif_number ifs
      in if free_vif > INTERFACES_UNKOWN_VIF_INDEX then
           (if \<not> is_interface net ifs i IFF_UP then (False, ifs)
            else if sm_mem i (m_if_vif ifs) then (True, ifs)
            else
              (let ifs = ifs\<lparr>m_if_vif := sm_insert i free_vif (m_if_vif ifs)\<rparr>
               in if sm_mem free_vif (m_vif_if ifs) then (False, ifs)
                  else (True, ifs\<lparr>m_vif_if := sm_insert free_vif i (m_vif_if ifs)\<rparr>)))
         else (False, ifs))"

definition del_interface :: "u32 \<Rightarrow> interfaces \<Rightarrow> bool \<times> interfaces" where
  "del_interface i ifs =
     (if i \<noteq> INTERFACES_UNKOWN_IF_INDEX then
        (True, ifs\<lparr>m_vif_if := sm_erase (get_virtual_if_index ifs i) (m_vif_if ifs),
                   m_if_vif := sm_erase i (m_if_vif ifs)\<rparr>)
      else (False, ifs))"

definition add_interface_name :: "net_names \<Rightarrow> string \<Rightarrow> interfaces \<Rightarrow> bool \<times> interfaces" where
  "add_interface_name net n = add_interface net (if_nametoindex net n)"

definition del_interface_name :: "net_names \<Rightarrow> string \<Rightarrow> interfaces \<Rightarrow> bool \<times> interfaces" where
  "del_interface_name net n = del_interface (if_nametoindex net n)"

text \<open>\<^verbatim>\<open>get_saddr\<close>; \<open>None\<close> where the code follows a null pointer.\<close>

definition get_saddr :: "interfaces \<Rightarrow> string \<Rightarrow> addr_storage option" where
  "get_saddr ifs n =
     (case m_addr_family ifs of
        AF_INET \<Rightarrow> Option.bind (get_ip4_if (m_if_prop ifs) n) ifa_addr
      | AF_INET6 \<Rightarrow>
          (case get_ip6_if (m_if_prop ifs) n of
             None \<Rightarrow> None | Some [] \<Rightarrow> Some Addr_Unspec | Some (e # es) \<Rightarrow> ifa_addr e)
      | AF_UNSPEC \<Rightarrow> Some Addr_Unspec)"

text \<open>\<^verbatim>\<open>get_if_index(const addr_storage&)\<close>: the first interface whose subnet holds the address.\<close>

definition subnet_holds :: "ifaddrs \<Rightarrow> addr_storage \<Rightarrow> bool" where
  "subnet_holds e saddr =
     (case (ifa_netmask e, ifa_addr e) of
        (Some m, Some a) \<Rightarrow> addr_eq (mask_ipv4 a m) (mask_ipv4 m saddr)
      | _ \<Rightarrow> False)"

definition get_if_index_addr :: "net_names \<Rightarrow> interfaces \<Rightarrow> addr_storage \<Rightarrow> u32" where
  "get_if_index_addr net ifs saddr =
     (if get_addr_family saddr = AF_INET then
        (case List.find (\<lambda>p. case ip4_addr (snd p) of Some e \<Rightarrow> subnet_holds e saddr | None \<Rightarrow> False) (if_map (m_if_prop ifs)) of
           Some (n, q) \<Rightarrow> (case ip4_addr q of Some e \<Rightarrow> if_nametoindex net (ifa_name e) | None \<Rightarrow> INTERFACES_UNKOWN_IF_INDEX)
         | None \<Rightarrow> INTERFACES_UNKOWN_IF_INDEX)
      else INTERFACES_UNKOWN_IF_INDEX)"

subsection \<open>The interface of a numbering\<close>

text \<open>What the routing relies on: registered interfaces have different numbers below the limit, which
  lead back to them; other interfaces have none.\<close>

locale vif_numbering =
  fixes vif_of :: "'s \<Rightarrow> u32 \<Rightarrow> int"
    and if_of :: "'s \<Rightarrow> int \<Rightarrow> u32"
    and used :: "'s \<Rightarrow> u32 set"
    and ok :: "'s \<Rightarrow> bool"
  assumes law_back: "ok s \<Longrightarrow> i \<in> used s \<Longrightarrow> if_of s (vif_of s i) = i"
    and law_range: "ok s \<Longrightarrow> i \<in> used s \<Longrightarrow> 0 \<le> vif_of s i \<and> vif_of s i < 32"
    and law_unknown: "ok s \<Longrightarrow> i \<notin> used s \<Longrightarrow> vif_of s i = - 1"
begin

lemma vif_inj: "ok s \<Longrightarrow> inj_on (vif_of s) (used s)"
  by (rule inj_on_inverseI [where g = "if_of s"]) (rule law_back)

lemma vif_list:
  assumes "ok s" "distinct is" "set is \<subseteq> used s"
  shows "distinct (map (vif_of s) is) \<and> length is \<le> 32"
proof -
  have d: "distinct (map (vif_of s) is)"
    using assms inj_on_subset [OF vif_inj [OF assms(1)] assms(3)] by (simp add: distinct_map)
  have "set (map (vif_of s) is) \<subseteq> {0..<32}" using law_range [OF assms(1)] assms(3) by auto
  then have "card (set (map (vif_of s) is)) \<le> card {0..<32::int}" by (intro card_mono) auto
  with d show ?thesis using distinct_card [OF d] by simp
qed

lemma vif_member: "ok s \<Longrightarrow> i \<in> used s \<Longrightarrow> set is \<subseteq> used s \<Longrightarrow> vif_of s i \<in> vif_of s ` set is \<longleftrightarrow> i \<in> set is"
  using vif_inj by (auto dest: inj_onD)

end

subsection \<open>The invariant of the numbering\<close>

definition ifs_ok :: "interfaces \<Rightarrow> bool" where
  "ifs_ok ifs \<longleftrightarrow> smap_ok (m_vif_if ifs) \<and> smap_ok (m_if_vif ifs) \<and> m_addr_family ifs \<noteq> AF_UNSPEC
     \<and> (\<forall>i v. map_of (m_if_vif ifs) i = Some v \<longleftrightarrow> map_of (m_vif_if ifs) v = Some i)
     \<and> (\<forall>i v. map_of (m_if_vif ifs) i = Some v \<longrightarrow> i \<noteq> 0 \<and> 0 \<le> v \<and> v < 32)"

definition registered :: "interfaces \<Rightarrow> u32 set" where
  "registered ifs = sm_keys (m_if_vif ifs)"

lemma registered_iff: "i \<in> registered ifs \<longleftrightarrow> (\<exists>v. map_of (m_if_vif ifs) i = Some v)"
  by (auto simp: registered_def sm_keys_dom)

lemma ifs_ok_lookup:
  "ifs_ok ifs \<Longrightarrow> map_of (m_if_vif ifs) i = Some v \<Longrightarrow> map_of (m_vif_if ifs) v = Some i \<and> i \<noteq> 0 \<and> 0 \<le> v \<and> v < 32"
  unfolding ifs_ok_def by blast

lemma ifs_ok_back: "ifs_ok ifs \<Longrightarrow> map_of (m_vif_if ifs) v = Some i \<Longrightarrow> map_of (m_if_vif ifs) i = Some v"
  unfolding ifs_ok_def by blast

interpretation ifs: vif_numbering get_virtual_if_index get_if_index_vif registered ifs_ok
  by unfold_locales
     (auto simp: registered_iff get_virtual_if_index_def get_if_index_vif_def INTERFACES_UNKOWN_VIF_INDEX_def
       split: option.splits dest: ifs_ok_lookup)

lemma fill_vifs_result:
  "\<forall>(i, v) \<in> set m. i \<noteq> 0 \<and> 0 \<le> v \<and> v < int (length vifs) \<Longrightarrow>
     \<exists>vifs'. fill_vifs m vifs = Some vifs' \<and> length vifs' = length vifs \<and>
       (\<forall>n < length vifs. vifs' ! n = 0 \<longleftrightarrow> vifs ! n = 0 \<and> int n \<notin> snd ` set m)"
proof (induction m vifs rule: fill_vifs.induct)
  case (2 i v m vifs)
  have v: "i \<noteq> 0" "0 \<le> v" "v < int (length vifs)" using 2(2) by auto
  then have "\<not> v \<ge> int (length vifs)" by simp
  from 2(1) [OF this] 2(2) obtain vifs' where f: "fill_vifs m (vifs[nat v := i]) = Some vifs'" "length vifs' = length vifs"
      "\<forall>n < length vifs. vifs' ! n = 0 \<longleftrightarrow> vifs[nat v := i] ! n = 0 \<and> int n \<notin> snd ` set m"
    by auto
  have "vifs' ! n = 0 \<longleftrightarrow> vifs ! n = 0 \<and> int n \<notin> snd ` set ((i, v) # m)" if "n < length vifs" for n
    using f(3) that v by (cases "nat v = n") (auto simp: nth_list_update)
  with f v show ?case by auto
qed simp

lemma first_unused_result:
  "(first_unused k vifs = - 1 \<and> (\<forall>n < length vifs. vifs ! n \<noteq> 0)) \<or>
   (\<exists>n < length vifs. first_unused k vifs = int (k + n) \<and> vifs ! n = 0)"
proof (induction k vifs rule: first_unused.induct)
  case (2 k i vifs)
  show ?case
  proof (cases "i = 0")
    case True
    then show ?thesis by (intro disjI2 exI [of _ 0]) (simp add: INTERFACES_UNKOWN_IF_INDEX_def)
  next
    case False
    then have u: "first_unused k (i # vifs) = first_unused (Suc k) vifs" by (simp add: INTERFACES_UNKOWN_IF_INDEX_def)
    have ih: "(first_unused (Suc k) vifs = - 1 \<and> (\<forall>n < length vifs. vifs ! n \<noteq> 0)) \<or>
        (\<exists>n < length vifs. first_unused (Suc k) vifs = int (Suc k + n) \<and> vifs ! n = 0)"
      using 2 False by (simp add: INTERFACES_UNKOWN_IF_INDEX_def)
    then show ?thesis
    proof
      assume "first_unused (Suc k) vifs = - 1 \<and> (\<forall>n < length vifs. vifs ! n \<noteq> 0)"
      with False u show ?thesis by (auto simp: nth_Cons split: nat.splits)
    next
      assume "\<exists>n < length vifs. first_unused (Suc k) vifs = int (Suc k + n) \<and> vifs ! n = 0"
      then obtain n where "n < length vifs" "first_unused (Suc k) vifs = int (Suc k + n)" "vifs ! n = 0" by blast
      with u show ?thesis by (intro disjI2 exI [of _ "Suc n"]) simp
    qed
  qed
qed (simp add: INTERFACES_UNKOWN_VIF_INDEX_def)

lemma vif_numbers_card:
  assumes "ifs_ok ifs"
  shows "snd ` set (m_if_vif ifs) \<subseteq> {0..<32} \<and> card (snd ` set (m_if_vif ifs)) = card (registered ifs)"
proof -
  have ok: "smap_ok (m_if_vif ifs)" using assms by (simp add: ifs_ok_def)
  have img: "snd ` set (m_if_vif ifs) = get_virtual_if_index ifs ` registered ifs"
    using smap_elem_lookup [OF ok] by (force simp: registered_iff get_virtual_if_index_def)
  then have "card (snd ` set (m_if_vif ifs)) = card (registered ifs)"
    using ifs.vif_inj [OF assms] by (simp add: card_image)
  with img ifs.law_range [OF assms] show ?thesis by auto
qed

lemma ifs_ok_iff:
  "ifs_ok ifs \<Longrightarrow> map_of (m_vif_if ifs) v = Some i \<longleftrightarrow> map_of (m_if_vif ifs) i = Some v"
  unfolding ifs_ok_def by blast

lemma vif_keys:
  assumes "ifs_ok ifs"
  shows "sm_keys (m_vif_if ifs) = snd ` set (m_if_vif ifs)"
proof -
  have ok: "smap_ok (m_if_vif ifs)" using assms by (simp add: ifs_ok_def)
  have "v \<in> sm_keys (m_vif_if ifs) \<longleftrightarrow> (\<exists>i. map_of (m_vif_if ifs) v = Some i)" for v by (auto simp: sm_keys_dom)
  moreover have "v \<in> snd ` set (m_if_vif ifs) \<longleftrightarrow> (\<exists>i. (i, v) \<in> set (m_if_vif ifs))" for v by force
  ultimately show ?thesis by (simp only: set_eq_iff ifs_ok_iff [OF assms] smap_elem_lookup [OF ok]) blast
qed

lemma free_vif:
  assumes "ifs_ok ifs"
  shows "if card (registered ifs) < 32
    then 0 \<le> get_free_vif_number ifs \<and> get_free_vif_number ifs < 32 \<and> get_free_vif_number ifs \<notin> sm_keys (m_vif_if ifs)
    else get_free_vif_number ifs = - 1"
proof -
  have lim: "vif_limit (m_addr_family ifs) = Some 32"
    using assms by (cases "m_addr_family ifs") (simp_all add: ifs_ok_def vif_limit_def MAXVIFS_def MAXMIFS_def)
  have ok: "smap_ok (m_if_vif ifs)" using assms by (simp add: ifs_ok_def)
  have "i \<noteq> 0 \<and> 0 \<le> v \<and> v < int (length (replicate 32 (0::u32)))" if "(i, v) \<in> set (m_if_vif ifs)" for i v
    using ifs_ok_lookup [OF assms, of i v] that smap_elem_lookup [OF ok, of i v] by simp
  then have "\<forall>(i, v) \<in> set (m_if_vif ifs). i \<noteq> 0 \<and> 0 \<le> v \<and> v < int (length (replicate 32 (0::u32)))" by blast
  from fill_vifs_result [OF this] obtain vifs where
    v: "fill_vifs (m_if_vif ifs) (replicate 32 0) = Some vifs" "length vifs = 32"
      "\<forall>n < 32. vifs ! n = 0 \<longleftrightarrow> int n \<notin> snd ` set (m_if_vif ifs)"
    by auto
  have free: "get_free_vif_number ifs = first_unused 0 vifs"
    using lim v(1) by (simp add: get_free_vif_number_def INTERFACES_UNKOWN_IF_INDEX_def)
  have nums: "snd ` set (m_if_vif ifs) \<subseteq> {0..<32}" "card (snd ` set (m_if_vif ifs)) = card (registered ifs)"
    using vif_numbers_card [OF assms] by auto
  have keys: "sm_keys (m_vif_if ifs) = snd ` set (m_if_vif ifs)" by (rule vif_keys [OF assms])
  from first_unused_result [of 0 vifs] show ?thesis
  proof
    assume a: "first_unused 0 vifs = - 1 \<and> (\<forall>n < length vifs. vifs ! n \<noteq> 0)"
    have "k \<in> snd ` set (m_if_vif ifs)" if "k \<in> {0..<32}" for k
      using a v(2,3) that by (metis atLeastLessThan_iff int_nat_eq nat_less_iff of_nat_numeral)
    with nums have "snd ` set (m_if_vif ifs) = {0..<32}" by blast
    with nums(2) a free show ?thesis by simp
  next
    assume "\<exists>n < length vifs. first_unused 0 vifs = int (0 + n) \<and> vifs ! n = 0"
    then obtain n where n: "n < 32" "first_unused 0 vifs = int n" "int n \<notin> snd ` set (m_if_vif ifs)"
      using v(2,3) by auto
    then have "snd ` set (m_if_vif ifs) \<subset> {0..<32}" using nums(1) by force
    from psubset_card_mono [OF _ this] nums(2) n free keys show ?thesis by simp
  qed
qed

lemma ifs_ok_add:
  assumes "ifs_ok ifs" "map_of (m_if_vif ifs) i = None" "map_of (m_vif_if ifs) v = None" "i \<noteq> 0" "0 \<le> v" "v < 32"
  shows "ifs_ok (ifs\<lparr>m_if_vif := sm_insert i v (m_if_vif ifs), m_vif_if := sm_insert v i (m_vif_if ifs)\<rparr>)"
proof -
  have ok: "smap_ok (m_vif_if ifs)" "smap_ok (m_if_vif ifs)" "m_addr_family ifs \<noteq> AF_UNSPEC"
    using assms(1) by (simp_all add: ifs_ok_def)
  have j: "map_of (m_if_vif ifs) j \<noteq> Some v" for j using assms(3) ifs_ok_iff [OF assms(1)] by (metis option.distinct(1))
  have w: "map_of (sm_insert i v (m_if_vif ifs)) j = Some w \<longleftrightarrow> j = i \<and> w = v \<or> map_of (m_if_vif ifs) j = Some w" for j w
    using assms(2) by (auto simp: lookup_insert [OF ok(2)])
  have "map_of (sm_insert v i (m_vif_if ifs)) w = Some j \<longleftrightarrow> j = i \<and> w = v \<or> map_of (m_if_vif ifs) j = Some w" for j w
    using assms(3) j by (auto simp: lookup_insert [OF ok(1)] ifs_ok_iff [OF assms(1)])
  with w ok assms(4-) ifs_ok_lookup [OF assms(1)] show ?thesis by (simp add: ifs_ok_def)
qed

lemma ifs_ok_del:
  assumes "ifs_ok ifs"
  shows "ifs_ok (snd (del_interface i ifs))"
proof -
  have ok: "smap_ok (m_vif_if ifs)" "smap_ok (m_if_vif ifs)" "m_addr_family ifs \<noteq> AF_UNSPEC"
    using assms by (simp_all add: ifs_ok_def)
  let ?v = "get_virtual_if_index ifs i"
  have same: "j = i \<longleftrightarrow> w = ?v" if "map_of (m_if_vif ifs) j = Some w" for j w
  proof
    show "j = i \<Longrightarrow> w = ?v" using that by (simp add: get_virtual_if_index_def)
    assume v: "w = ?v"
    have "map_of (m_if_vif ifs) i \<noteq> None"
      using ifs_ok_lookup [OF assms that] v by (auto simp: get_virtual_if_index_def INTERFACES_UNKOWN_VIF_INDEX_def split: option.splits)
    then have "map_of (m_if_vif ifs) i = Some w" using v by (auto simp: get_virtual_if_index_def)
    with that ifs_ok_lookup [OF assms] show "j = i" by (metis option.inject)
  qed
  have "map_of (sm_erase i (m_if_vif ifs)) j = Some w \<longleftrightarrow> map_of (sm_erase ?v (m_vif_if ifs)) w = Some j" for j w
    using same [of j w] by (cases "map_of (m_if_vif ifs) j = Some w") (auto simp: lookup_erase ifs_ok_iff [OF assms])
  moreover have "j \<noteq> 0 \<and> 0 \<le> w \<and> w < 32" if "map_of (sm_erase i (m_if_vif ifs)) j = Some w" for j w
    using that ifs_ok_lookup [OF assms, of j w] by (simp add: lookup_erase split: if_splits)
  ultimately have "ifs_ok (ifs\<lparr>m_vif_if := sm_erase ?v (m_vif_if ifs), m_if_vif := sm_erase i (m_if_vif ifs)\<rparr>)"
    using ok by (simp add: ifs_ok_def)
  with assms show ?thesis by (simp add: del_interface_def)
qed

lemma add_interface_law:
  assumes "ifs_ok ifs" "i \<noteq> 0 \<or> \<not> is_interface net ifs 0 IFF_UP" "add_interface net i ifs = (rc, ifs')"
  shows "ifs_ok ifs' \<and> (rc \<longleftrightarrow> is_interface net ifs i IFF_UP \<and> card (registered ifs) < 32)
    \<and> registered ifs' = registered ifs \<union> (if rc then {i} else {})
    \<and> (\<forall>j \<in> registered ifs. get_virtual_if_index ifs' j = get_virtual_if_index ifs j)
    \<and> (rc \<longrightarrow> 0 \<le> get_virtual_if_index ifs' i \<and> get_virtual_if_index ifs' i < 32
          \<and> get_if_index_vif ifs' (get_virtual_if_index ifs' i) = i)"
proof -
  let ?v = "get_free_vif_number ifs"
  have sm: "smap_ok (m_if_vif ifs)" using assms(1) by (simp add: ifs_ok_def)
  consider (full) "card (registered ifs) \<ge> 32" | (down) "card (registered ifs) < 32" "\<not> is_interface net ifs i IFF_UP"
    | (known) "card (registered ifs) < 32" "is_interface net ifs i IFF_UP" "i \<in> registered ifs"
    | (new) "card (registered ifs) < 32" "is_interface net ifs i IFF_UP" "i \<notin> registered ifs" by fastforce
  then show ?thesis
  proof cases
    case full
    with free_vif [OF assms(1)] assms show ?thesis by (auto simp: add_interface_def INTERFACES_UNKOWN_VIF_INDEX_def)
  next
    case down
    with free_vif [OF assms(1)] assms show ?thesis by (auto simp: add_interface_def INTERFACES_UNKOWN_VIF_INDEX_def)
  next
    case known
    then have "rc" "ifs' = ifs" using free_vif [OF assms(1)] assms
      by (auto simp: add_interface_def INTERFACES_UNKOWN_VIF_INDEX_def registered_def)
    with known assms(1) ifs.law_range [OF assms(1) known(3)] ifs.law_back [OF assms(1) known(3)] show ?thesis by auto
  next
    case new
    have v: "0 \<le> ?v" "?v < 32" "?v \<notin> sm_keys (m_vif_if ifs)" using free_vif [OF assms(1)] new(1) by auto
    then have r: "rc" "ifs' = ifs\<lparr>m_if_vif := sm_insert i ?v (m_if_vif ifs), m_vif_if := sm_insert ?v i (m_vif_if ifs)\<rparr>"
      using new assms by (auto simp: add_interface_def INTERFACES_UNKOWN_VIF_INDEX_def registered_def Let_def)
    have i: "map_of (m_if_vif ifs) i = None" using new(3) by (simp add: registered_def map_of_None_keys)
    have "i \<noteq> 0" using new(2) assms(2) by auto
    then have ok: "ifs_ok ifs'" using ifs_ok_add [OF assms(1) i _ _ v(1,2)] v(3) r by (simp add: map_of_None_keys)
    have reg: "registered ifs' = insert i (registered ifs)" by (simp add: r registered_def)
    then have "i \<in> registered ifs'" by simp
    from ifs.law_range [OF ok this] ifs.law_back [OF ok this]
    show ?thesis using ok reg r new sm i by (auto simp: get_virtual_if_index_def lookup_insert registered_iff)
  qed
qed

subsection \<open>Properties\<close>

text \<open>C31: Numbering an interface keeps the numbers of all others and gives it an unused number below 32
  that leads back to it; it fails exactly when the interface is not up or 32 are in use.\<close>

theorem add_interface_numbers:
  assumes "ifs_ok ifs" "\<not> is_interface net ifs 0 IFF_UP" "add_interface net i ifs = (rc, ifs')"
  shows "ifs_ok ifs' \<and> (rc \<longleftrightarrow> is_interface net ifs i IFF_UP \<and> card (registered ifs) < 32)
    \<and> registered ifs' = registered ifs \<union> (if rc then {i} else {})
    \<and> (\<forall>j \<in> registered ifs. get_virtual_if_index ifs' j = get_virtual_if_index ifs j)
    \<and> (rc \<longrightarrow> 0 \<le> get_virtual_if_index ifs' i \<and> get_virtual_if_index ifs' i < 32
          \<and> get_if_index_vif ifs' (get_virtual_if_index ifs' i) = i)"
  using assms by (intro add_interface_law) simp_all

definition ex_ifaddrs :: ifaddrs where
  "ex_ifaddrs = \<lparr>ifa_name = ''eth0'', ifa_flags = 3, ifa_addr = Some (Addr4 0x0A000001), ifa_netmask = Some (Addr4 0xFF000000), ifa_dstaddr = None\<rparr>"

definition ex_names :: net_names where
  "ex_names = \<lparr>if_nametoindex = (\<lambda>n. if n = ''eth0'' then 2 else 0), if_indextoname = (\<lambda>i. if i = 2 then Some ''eth0'' else None)\<rparr>"

definition ex_interfaces :: interfaces where
  "ex_interfaces = \<lparr>m_addr_family = AF_INET,
     m_if_prop = \<lparr>is_getaddrs_valid = True, if_map = [(''eth0'', \<lparr>ip4_addr = Some ex_ifaddrs, ip6_addr = []\<rparr>)]\<rparr>,
     m_vif_if = [], m_if_vif = []\<rparr>"

lemma add_interface_numbers_witness:
  "fst (add_interface ex_names 2 ex_interfaces) \<and> registered (snd (add_interface ex_names 2 ex_interfaces)) = {2}"
proof -
  have "ifs_ok ex_interfaces" by (simp add: ifs_ok_def ex_interfaces_def)
  moreover have "\<not> is_interface ex_names ex_interfaces 0 IFF_UP"
    by (simp add: is_interface_def ex_interfaces_def get_ip4_if_def get_if_name_def ex_names_def)
  moreover have "is_interface ex_names ex_interfaces 2 IFF_UP"
    by (simp add: is_interface_def ex_interfaces_def get_ip4_if_def get_if_name_def ex_names_def ex_ifaddrs_def IFF_UP_def)
  moreover have "registered ex_interfaces = {}" by (simp add: registered_def ex_interfaces_def)
  ultimately show ?thesis using add_interface_numbers [OF _ _ prod.collapse [symmetric], of ex_interfaces ex_names 2] by auto
qed

definition entry_of :: "addr_family \<Rightarrow> string \<Rightarrow> ifaddrs \<Rightarrow> bool" where
  "entry_of af n e \<longleftrightarrow> ifa_name e = n \<and> (case ifa_addr e of None \<Rightarrow> False | Some a \<Rightarrow> get_addr_family a = af)"

definition pair_of :: "ipv4_6_pair option \<Rightarrow> ipv4_6_pair" where
  "pair_of q = (case q of None \<Rightarrow> \<lparr>ip4_addr = None, ip6_addr = []\<rparr> | Some p \<Rightarrow> p)"

lemma add_ifaddrs_step:
  assumes "smap_ok m"
  shows "smap_ok (add_ifaddrs e m)
    \<and> ip4_addr (pair_of (map_of (add_ifaddrs e m) n)) =
        (if entry_of AF_INET n e \<and> ip4_addr (pair_of (map_of m n)) = None then Some e else ip4_addr (pair_of (map_of m n)))
    \<and> ip6_addr (pair_of (map_of (add_ifaddrs e m) n)) =
        ip6_addr (pair_of (map_of m n)) @ (if entry_of AF_INET6 n e then [e] else [])
    \<and> (n \<in> sm_keys (add_ifaddrs e m) \<longleftrightarrow> n \<in> sm_keys m \<or> entry_of AF_INET n e \<or> entry_of AF_INET6 n e)"
proof (cases "ifa_addr e")
  case None
  then show ?thesis using assms by (simp add: add_ifaddrs_def entry_of_def)
next
  case (Some a)
  have k: "n \<in> sm_keys l \<longleftrightarrow> map_of l n \<noteq> None" for l :: "(string, ipv4_6_pair) smap"
    by (auto simp: map_of_None_keys)
  show ?thesis using assms Some unfolding k
    by (cases "get_addr_family a"; cases "map_of m (ifa_name e)")
       (auto simp: add_ifaddrs_def entry_of_def pair_of_def lookup_insert lookup_assign split: option.splits)
qed

lemma fold_add_ifaddrs:
  "smap_ok m \<Longrightarrow> smap_ok (fold add_ifaddrs es m)
    \<and> ip4_addr (pair_of (map_of (fold add_ifaddrs es m) n)) =
        (case ip4_addr (pair_of (map_of m n)) of Some e \<Rightarrow> Some e | None \<Rightarrow> List.find (entry_of AF_INET n) es)
    \<and> ip6_addr (pair_of (map_of (fold add_ifaddrs es m) n)) = ip6_addr (pair_of (map_of m n)) @ filter (entry_of AF_INET6 n) es
    \<and> (n \<in> sm_keys (fold add_ifaddrs es m) \<longleftrightarrow> n \<in> sm_keys m \<or> (\<exists>e \<in> set es. entry_of AF_INET n e \<or> entry_of AF_INET6 n e))"
proof (induction es arbitrary: m)
  case (Cons e es)
  from add_ifaddrs_step [OF Cons(2), of e n] Cons(1) [of "add_ifaddrs e m"]
  show ?case by (auto split: option.splits)
qed (simp split: option.splits)

text \<open>After a refresh the properties of an interface are its first IPv4 entry and all its IPv6
  entries in the order of the system; entries without an address are ignored, a name without any entry is
  unknown, and a failed system call leaves no interface.\<close>

theorem if_prop_lookup:
  "(case refresh_network_interfaces getifaddrs p of
      (rc, p') \<Rightarrow>
        (case getifaddrs of
           None \<Rightarrow> \<not> rc \<and> get_ip4_if p' n = None \<and> get_ip6_if p' n = None
         | Some es \<Rightarrow> rc \<and> get_ip4_if p' n = List.find (entry_of AF_INET n) es \<and>
             get_ip6_if p' n =
               (if List.find (entry_of AF_INET n) es = None \<and> filter (entry_of AF_INET6 n) es = [] then None
                else Some (filter (entry_of AF_INET6 n) es))))"
proof (cases getifaddrs)
  case None
  then show ?thesis by (simp add: refresh_network_interfaces_def get_ip4_if_def get_ip6_if_def)
next
  case (Some es)
  let ?m = "fold add_ifaddrs es []"
  have f: "ip4_addr (pair_of (map_of ?m n)) = List.find (entry_of AF_INET n) es"
    "ip6_addr (pair_of (map_of ?m n)) = filter (entry_of AF_INET6 n) es"
    "map_of ?m n = None \<longleftrightarrow> List.find (entry_of AF_INET n) es = None \<and> filter (entry_of AF_INET6 n) es = []"
    using fold_add_ifaddrs [of "[]" es n]
    by (auto simp: pair_of_def map_of_None_keys find_None_iff filter_empty_conv)
  show ?thesis
    using Some f(1,2) f(3)
    by (cases "map_of ?m n") (auto simp: refresh_network_interfaces_def get_ip4_if_def get_ip6_if_def pair_of_def)
qed

end
