(* ===== verification/Routing.thy ===== *)
theory Routing
  imports Timing Interfaces
begin

section \<open>Virtual interfaces and routes of the kernel (routing.hpp, routing.cpp)\<close>

text \<open>
  The class that hands virtual interfaces and multicast routes to the kernel.  The calls of the
  multicast socket are the events \<open>Add_vif\<close>, \<open>Del_vif\<close>, \<open>Add_mroute\<close>, \<open>Del_mroute\<close> and the two bindings to
  a routing table of the log; their results come from the world.  \<^verbatim>\<open>m_added_ifs\<close> is a set of
  interface indexes.  The interfaces of the instance are shared and constant, so the destructor takes
  them as an argument.
\<close>

definition IFF_POINTOPOINT :: u32 where
  "IFF_POINTOPOINT = 0x10"

record routing =
  r_table_number :: int
  r_addr_family :: addr_family
  r_if_prop :: if_prop
  m_added_ifs :: "(u32, unit) smap"

definition new_routing :: "addr_family \<Rightarrow> ifaddrs list option \<Rightarrow> int \<Rightarrow> routing option" where
  "new_routing af getifaddrs table =
     (let (rc, p) = refresh_network_interfaces getifaddrs new_if_prop
      in if rc then Some \<lparr>r_table_number = table, r_addr_family = af, r_if_prop = p, m_added_ifs = []\<rparr> else None)"

text \<open>The three outcomes of the search for the properties of an interface: the entry, a failure, or
  a null pointer that is followed.\<close>

datatype vif_item = Item ifaddrs | Item_missing | Item_null

definition find_item :: "net_names \<Rightarrow> routing \<Rightarrow> u32 \<Rightarrow> vif_item" where
  "find_item net r if_index =
     (case if_indextoname net if_index of
        None \<Rightarrow> Item_null
      | Some name \<Rightarrow>
          (case r_addr_family r of
             AF_INET \<Rightarrow> (case get_ip4_if (r_if_prop r) name of None \<Rightarrow> Item_missing | Some e \<Rightarrow> Item e)
           | AF_INET6 \<Rightarrow> (case get_ip6_if (r_if_prop r) name of Some (e # es) \<Rightarrow> Item e | _ \<Rightarrow> Item_null)
           | AF_UNSPEC \<Rightarrow> Item_missing))"

definition bind_table :: "routing \<Rightarrow> u32 \<Rightarrow> world \<Rightarrow> bool \<times> world" where
  "bind_table r if_index w =
     (if r_table_number r > 0 then sock_call (Bind_vif_to_table if_index (r_table_number r)) w else (True, w))"

definition add_vif :: "net_names \<Rightarrow> u32 \<Rightarrow> int \<Rightarrow> routing \<Rightarrow> world \<Rightarrow> bool \<times> routing \<times> world" where
  "add_vif net if_index vif r w =
     (case find_item net r if_index of
        Item_null \<Rightarrow> (False, r, crash w)
      | Item_missing \<Rightarrow> (False, r, w)
      | Item item \<Rightarrow>
          (if ifa_flags item AND IFF_POINTOPOINT \<noteq> 0 \<and> ifa_dstaddr item \<noteq> None then
             (let (rc, w) = sock_call (Add_vif vif if_index (the (ifa_dstaddr item))) w
              in if \<not> rc then (False, r, w)
                 else (let (rc, w) = bind_table r if_index w in (rc, r, w)))
           else
             (let (rc, w) = sock_call (Add_vif vif if_index Addr_Unspec) w
              in if \<not> rc then (False, r, w)
                 else (let r = r\<lparr>m_added_ifs := sm_insert if_index () (m_added_ifs r)\<rparr>;
                           (rc, w) = bind_table r if_index w
                       in (rc, r, w)))))"

definition add_route :: "routing \<Rightarrow> int \<Rightarrow> addr_storage \<Rightarrow> addr_storage \<Rightarrow> int list \<Rightarrow> world \<Rightarrow> bool \<times> world" where
  "add_route r input_vif g_addr src_addr output_vif w =
     (case vif_limit (r_addr_family r) of
        None \<Rightarrow> (False, w)
      | Some n \<Rightarrow> if length output_vif > n then (False, w)
                  else sock_call (Add_mroute input_vif src_addr g_addr output_vif) w)"

definition routing_del_route :: "int \<Rightarrow> addr_storage \<Rightarrow> addr_storage \<Rightarrow> world \<Rightarrow> bool \<times> world" where
  "routing_del_route vif g_addr src_addr w = sock_call (Del_mroute vif src_addr g_addr) w"

definition unbind_table :: "routing \<Rightarrow> u32 \<Rightarrow> world \<Rightarrow> bool \<times> world" where
  "unbind_table r if_index w =
     (if r_table_number r > 0 then sock_call (Unbind_vif_from_table if_index (r_table_number r)) w else (True, w))"

definition del_vif :: "u32 \<Rightarrow> int \<Rightarrow> routing \<Rightarrow> world \<Rightarrow> bool \<times> routing \<times> world" where
  "del_vif if_index vif r w =
     (let (rc, w) = sock_call (Del_vif vif) w
      in if \<not> rc then (False, r, w)
         else (let (rc, w) = unbind_table r if_index w
               in if \<not> rc then (False, r, w)
                  else (True, r\<lparr>m_added_ifs := sm_erase if_index (m_added_ifs r)\<rparr>, w)))"

text \<open>The destructor calls \<^verbatim>\<open>del_vif\<close> while it iterates over \<^verbatim>\<open>m_added_ifs\<close>; a successful call erases the
  element the iterator points to, and the next step of the loop uses an invalid iterator.\<close>

fun delete_routing :: "interfaces \<Rightarrow> (u32 \<times> unit) list \<Rightarrow> routing \<Rightarrow> world \<Rightarrow> world" where
  "delete_routing ifs [] r w = w"
| "delete_routing ifs ((e, u) # es) r w =
     (let (rc, r, w) = del_vif e (get_virtual_if_index ifs e) r w
      in if rc then crash w else delete_routing ifs es r w)"

subsection \<open>Properties\<close>

text \<open>What a call leaves of the world: only the log, the counter of socket calls and the crash flag
  can differ.\<close>

lemma io_sock_call: "snd (sock_call e w) = w\<lparr>sock_calls := Suc (sock_calls w), log := log w @ [e]\<rparr>"
  by (simp add: sock_call_def emit_def)

lemma fst_sock_call: "fst (sock_call e w) = sock_rc w (sock_calls w)"
  by (simp add: sock_call_def)

lemma sock_call_all:
  "\<forall>n. sock_rc w n \<Longrightarrow> sock_call e w = (True, w\<lparr>sock_calls := Suc (sock_calls w), log := log w @ [e]\<rparr>)"
  by (simp add: sock_call_def emit_def)

definition routing_ok :: "routing \<Rightarrow> bool" where
  "routing_ok r \<longleftrightarrow> smap_ok (m_added_ifs r) \<and> r_addr_family r \<noteq> AF_UNSPEC"

lemma del_vif_all:
  "\<forall>n. sock_rc w n \<Longrightarrow> fst (del_vif e v r w) \<and> crashed (snd (snd (del_vif e v r w))) = crashed w"
  by (simp add: del_vif_def unbind_table_def sock_call_all)

lemma del_vif_none:
  "\<forall>n. \<not> sock_rc w n \<Longrightarrow> \<not> fst (del_vif e v r w) \<and> crashed (snd (snd (del_vif e v r w))) = crashed w
     \<and> sock_rc (snd (snd (del_vif e v r w))) = sock_rc w"
  by (simp add: del_vif_def sock_call_def emit_def)



end
