(* ===== verification/Routing_Data.thy ===== *)
theory Routing_Data
  imports Membership_Db
begin

section \<open>The known multicast sources (simple_routing_data.hpp, simple_routing_data.cpp)\<close>

text \<open>
  Per group the sources that send to it, with their timers, and the interface each arrives on.  The
  packet counters of the kernel (\<^verbatim>\<open>mroute_socket::get_mroute_stats\<close>) are a parameter: a function of the
  source and the group, \<open>None\<close> where the call fails.  Counters are \<^verbatim>\<open>unsigned long\<close>, the member of
  \<^verbatim>\<open>source\<close> that keeps the last one is a \<^verbatim>\<open>long\<close>, both of 64 bits.  The invariant \<open>rd_ok\<close> says that the
  two containers of a group always have the same sources, and that no group is empty.
\<close>

type_synonym u64 = "64 word"
type_synonym mroute_stats = "addr_storage \<Rightarrow> addr_storage \<Rightarrow> u64 option"

record sr_data_value =
  m_source_list :: source_list
  m_if_map :: "(addr_storage, u32) smap"

record simple_routing_data =
  rd_data :: "(addr_storage, sr_data_value) smap"
  rd_group_mem_protocol :: group_mem_protocol

definition new_routing_data :: "group_mem_protocol \<Rightarrow> simple_routing_data" where
  "new_routing_data gmp = \<lparr>rd_data = [], rd_group_mem_protocol = gmp\<rparr>"

text \<open>A failure returns \<^verbatim>\<open>true\<close>, which is converted to the count 1.\<close>

definition get_current_packet_count ::
  "mroute_stats \<Rightarrow> simple_routing_data \<Rightarrow> addr_storage \<Rightarrow> addr_storage \<Rightarrow> u64" where
  "get_current_packet_count stats rd gaddr saddr =
     (if is_IPv4 (rd_group_mem_protocol rd) then (case stats saddr gaddr of Some pktcnt \<Rightarrow> pktcnt | None \<Rightarrow> 1)
      else if is_IPv6 (rd_group_mem_protocol rd) then (case stats saddr gaddr of Some pktcnt \<Rightarrow> pktcnt | None \<Rightarrow> 1)
      else 1)"

definition set_source ::
  "mroute_stats \<Rightarrow> u32 \<Rightarrow> addr_storage \<Rightarrow> addr_storage \<Rightarrow> source \<Rightarrow> simple_routing_data \<Rightarrow> simple_routing_data" where
  "set_source stats if_index gaddr saddr s rd =
     (case map_of (rd_data rd) gaddr of
        Some v \<Rightarrow>
          (let sl = (if sm_mem saddr (m_source_list v)
                     then sm_insert saddr (s\<lparr>retransmission_count := sint (get_current_packet_count stats rd gaddr saddr)\<rparr>)
                            (sm_erase saddr (m_source_list v))
                     else sm_insert saddr s (m_source_list v));
               im = (if sm_mem saddr (m_if_map v) then sm_assign saddr if_index (m_if_map v)
                     else sm_insert saddr if_index (m_if_map v))
           in rd\<lparr>rd_data := sm_assign gaddr \<lparr>m_source_list = sl, m_if_map = im\<rparr> (rd_data rd)\<rparr>)
      | None \<Rightarrow>
          rd\<lparr>rd_data := sm_insert gaddr \<lparr>m_source_list = [(saddr, s)], m_if_map = [(saddr, if_index)]\<rparr> (rd_data rd)\<rparr>)"

definition del_source :: "addr_storage \<Rightarrow> addr_storage \<Rightarrow> simple_routing_data \<Rightarrow> simple_routing_data" where
  "del_source gaddr saddr rd =
     (case map_of (rd_data rd) gaddr of
        Some v \<Rightarrow>
          (let v = \<lparr>m_source_list = sm_erase saddr (m_source_list v), m_if_map = sm_erase saddr (m_if_map v)\<rparr>
           in if m_source_list v = [] then rd\<lparr>rd_data := sm_erase gaddr (rd_data rd)\<rparr>
              else rd\<lparr>rd_data := sm_assign gaddr v (rd_data rd)\<rparr>)
      | None \<Rightarrow> rd)"

text \<open>The flag tells whether the source has been refreshed.  Where it has not, the element is erased
  (a second time where the first branch did so already), and the group with its last source.\<close>

definition refresh_source_or_del_it_if_unused ::
  "mroute_stats \<Rightarrow> addr_storage \<Rightarrow> addr_storage \<Rightarrow> simple_routing_data \<Rightarrow> bool \<times> simple_routing_data" where
  "refresh_source_or_del_it_if_unused stats gaddr saddr rd =
     (case map_of (rd_data rd) gaddr of
        Some v \<Rightarrow>
          (case map_of (m_source_list v) saddr of
             Some s \<Rightarrow>
               (let cnt = get_current_packet_count stats rd gaddr saddr
                in if word_of_int (retransmission_count s) = cnt
                   then (let rd = rd\<lparr>rd_data := sm_assign gaddr \<lparr>m_source_list = sm_erase saddr (m_source_list v),
                                        m_if_map = sm_erase saddr (m_if_map v)\<rparr> (rd_data rd)\<rparr>
                         in (False, del_source gaddr saddr rd))
                   else (True, rd\<lparr>rd_data := sm_assign gaddr
                           (v\<lparr>m_source_list := sm_assign saddr (s\<lparr>retransmission_count := sint cnt\<rparr>) (m_source_list v)\<rparr>)
                           (rd_data rd)\<rparr>))
           | None \<Rightarrow> (False, del_source gaddr saddr rd))
      | None \<Rightarrow> (False, rd))"

text \<open>Writing the timer of a source through the iterator the refresh returned.\<close>

definition set_shared_source_timer ::
  "addr_storage \<Rightarrow> addr_storage \<Rightarrow> timer_msg \<Rightarrow> simple_routing_data \<Rightarrow> simple_routing_data" where
  "set_shared_source_timer gaddr saddr tm rd =
     (case map_of (rd_data rd) gaddr of
        Some v \<Rightarrow>
          (case map_of (m_source_list v) saddr of
             Some s \<Rightarrow>
               rd\<lparr>rd_data := sm_assign gaddr
                 (v\<lparr>m_source_list := sm_assign saddr (s\<lparr>shared_source_timer := Some tm\<rparr>) (m_source_list v)\<rparr>) (rd_data rd)\<rparr>
           | None \<Rightarrow> rd)
      | None \<Rightarrow> rd)"

definition get_available_sources :: "simple_routing_data \<Rightarrow> addr_storage \<Rightarrow> source_list" where
  "get_available_sources rd gaddr = (case map_of (rd_data rd) gaddr of Some v \<Rightarrow> m_source_list v | None \<Rightarrow> [])"

definition get_interface_map :: "simple_routing_data \<Rightarrow> addr_storage \<Rightarrow> (addr_storage, u32) smap" where
  "get_interface_map rd gaddr = (case map_of (rd_data rd) gaddr of Some v \<Rightarrow> m_if_map v | None \<Rightarrow> [])"

subsection \<open>The invariant\<close>

definition value_ok :: "sr_data_value \<Rightarrow> bool" where
  "value_ok v \<longleftrightarrow> smap_ok (m_source_list v) \<and> smap_ok (m_if_map v) \<and> sm_keys (m_source_list v) = sm_keys (m_if_map v)"

definition rd_ok :: "simple_routing_data \<Rightarrow> bool" where
  "rd_ok rd \<longleftrightarrow> smap_ok (rd_data rd)
     \<and> (\<forall>g v. map_of (rd_data rd) g = Some v \<longrightarrow> value_ok v \<and> m_source_list v \<noteq> [])"

lemma rd_ok_lookup:
  "rd_ok rd \<Longrightarrow> map_of (rd_data rd) g = Some v \<Longrightarrow> value_ok v \<and> m_source_list v \<noteq> []"
  unfolding rd_ok_def by blast

lemma rd_ok_smap: "rd_ok rd \<Longrightarrow> smap_ok (rd_data rd)"
  by (simp add: rd_ok_def)

lemma rd_ok_assign:
  assumes "rd_ok rd" "value_ok v" "m_source_list v \<noteq> []"
  shows "rd_ok (rd\<lparr>rd_data := sm_assign g v (rd_data rd)\<rparr>)"
  using assms rd_ok_lookup [OF assms(1)] by (auto simp: rd_ok_def lookup_assign split: if_splits)

lemma rd_ok_erase: "rd_ok rd \<Longrightarrow> rd_ok (rd\<lparr>rd_data := sm_erase g (rd_data rd)\<rparr>)"
  by (auto simp: rd_ok_def lookup_erase split: if_splits)

lemma assign_new: "map_of m k = None \<Longrightarrow> smap_ok m \<Longrightarrow> sm_insert k v m = sm_assign k v m"
  by (rule smap_ext) (auto simp: lookup_insert lookup_assign)

lemma insert_erase: "smap_ok m \<Longrightarrow> sm_insert k v (sm_erase k m) = sm_assign k v m"
  by (rule smap_ext) (auto simp: lookup_insert lookup_assign lookup_erase)

text \<open>Registering a source writes both containers of its group.\<close>

definition stored_source :: "mroute_stats \<Rightarrow> addr_storage \<Rightarrow> addr_storage \<Rightarrow> source \<Rightarrow> simple_routing_data \<Rightarrow> source" where
  "stored_source stats g a s rd =
     (if sm_mem a (get_available_sources rd g)
      then s\<lparr>retransmission_count := sint (get_current_packet_count stats rd g a)\<rparr> else s)"

lemma set_source_eq:
  assumes "rd_ok rd"
  shows "set_source stats i g a s rd =
     rd\<lparr>rd_data := sm_assign g
       \<lparr>m_source_list = sm_assign a (stored_source stats g a s rd) (get_available_sources rd g),
        m_if_map = sm_assign a i (get_interface_map rd g)\<rparr> (rd_data rd)\<rparr>"
proof (cases "map_of (rd_data rd) g")
  case None
  with rd_ok_smap [OF assms] show ?thesis
    by (simp add: set_source_def stored_source_def get_available_sources_def get_interface_map_def assign_new)
next
  case (Some v)
  then have v: "smap_ok (m_source_list v)" "smap_ok (m_if_map v)" "sm_keys (m_source_list v) = sm_keys (m_if_map v)"
    using rd_ok_lookup [OF assms Some] by (simp_all add: value_ok_def)
  have "sm_insert a s (m_source_list v) = sm_assign a s (m_source_list v)"
    "sm_insert a i (m_if_map v) = sm_assign a i (m_if_map v)" if "a \<notin> sm_keys (m_if_map v)"
    using that v by (simp_all add: assign_new map_of_None_keys)
  with Some v show ?thesis
    by (simp add: set_source_def stored_source_def get_available_sources_def get_interface_map_def insert_erase Let_def)
qed

lemma lists_ok:
  assumes "rd_ok rd"
  shows "smap_ok (get_available_sources rd g)" "smap_ok (get_interface_map rd g)"
    "sm_keys (get_available_sources rd g) = sm_keys (get_interface_map rd g)"
  using rd_ok_lookup [OF assms, of g]
  by (auto simp: get_available_sources_def get_interface_map_def value_ok_def split: option.splits)

lemma assign_nonempty [simp]: "sm_assign k v m \<noteq> []"
  by (cases m) (auto split: if_splits)

lemma rd_ok_set_source: "rd_ok rd \<Longrightarrow> rd_ok (set_source stats i g a s rd)"
  by (simp add: set_source_eq rd_ok_assign value_ok_def lists_ok)

lemma del_source_eq:
  assumes "rd_ok rd"
  shows "rd_ok (del_source g a rd)
    \<and> get_available_sources (del_source g a rd) h =
        (if h = g then sm_erase a (get_available_sources rd h) else get_available_sources rd h)
    \<and> get_interface_map (del_source g a rd) h =
        (if h = g then sm_erase a (get_interface_map rd h) else get_interface_map rd h)"
proof (cases "map_of (rd_data rd) g")
  case None
  then show ?thesis using assms
    by (simp add: del_source_def get_available_sources_def get_interface_map_def sm_erase_def)
next
  case (Some v)
  let ?v = "\<lparr>m_source_list = sm_erase a (m_source_list v), m_if_map = sm_erase a (m_if_map v)\<rparr>"
  have v: "value_ok v" using rd_ok_lookup [OF assms Some] by simp
  then have ok: "value_ok ?v" by (auto simp: value_ok_def)
  show ?thesis
  proof (cases "sm_erase a (m_source_list v) = []")
    case True
    then have "sm_erase a (m_if_map v) = []"
      using v by (metis sm_keys_empty_iff sm_keys_erase value_ok_def)
    with True Some rd_ok_erase [OF assms] show ?thesis
      by (simp add: del_source_def get_available_sources_def get_interface_map_def lookup_erase)
  next
    case False
    with Some rd_ok_assign [OF assms ok] rd_ok_smap [OF assms] show ?thesis
      by (simp add: del_source_def get_available_sources_def get_interface_map_def lookup_assign Let_def)
  qed
qed

lemma set_source_lookup:
  assumes "rd_ok rd"
  shows "get_available_sources (set_source stats i g a s rd) h =
      (if h = g then sm_assign a (stored_source stats g a s rd) (get_available_sources rd h) else get_available_sources rd h)
    \<and> get_interface_map (set_source stats i g a s rd) h =
      (if h = g then sm_assign a i (get_interface_map rd h) else get_interface_map rd h)"
  using rd_ok_smap [OF assms]
  by (simp add: set_source_eq [OF assms] get_available_sources_def get_interface_map_def lookup_assign)

text \<open>What a check of a source does: it stays, with the new count, when its counter has moved.\<close>

lemma refresh_kept:
  assumes "rd_ok rd" "map_of (get_available_sources rd g) a = Some s"
    and "word_of_int (retransmission_count s) \<noteq> get_current_packet_count stats rd g a"
  defines "s' \<equiv> s\<lparr>retransmission_count := sint (get_current_packet_count stats rd g a)\<rparr>"
  shows "\<exists>rd'. refresh_source_or_del_it_if_unused stats g a rd = (True, rd') \<and> rd_ok rd'
    \<and> get_available_sources rd' h =
        (if h = g then sm_assign a s' (get_available_sources rd h) else get_available_sources rd h)
    \<and> get_interface_map rd' h = get_interface_map rd h \<and> rd_group_mem_protocol rd' = rd_group_mem_protocol rd"
proof -
  obtain v where v: "map_of (rd_data rd) g = Some v" "map_of (m_source_list v) a = Some s"
    using assms(2) by (auto simp: get_available_sources_def split: option.splits)
  let ?v = "v\<lparr>m_source_list := sm_assign a s' (m_source_list v)\<rparr>"
  have "value_ok v" using rd_ok_lookup [OF assms(1) v(1)] by simp
  moreover have "a \<in> sm_keys (m_source_list v)" using v(2) by (auto simp: sm_keys_dom)
  ultimately have "value_ok ?v" by (auto simp: value_ok_def)
  then have "rd_ok (rd\<lparr>rd_data := sm_assign g ?v (rd_data rd)\<rparr>)" by (simp add: rd_ok_assign [OF assms(1)])
  with v assms(3) rd_ok_smap [OF assms(1)] show ?thesis
    by (auto simp: refresh_source_or_del_it_if_unused_def get_available_sources_def get_interface_map_def
        lookup_assign s'_def split: option.splits)
qed

lemma erase_twice: "sm_erase k (sm_erase k m) = sm_erase k m"
  by (simp add: sm_erase_def)

lemma refresh_dropped:
  assumes "rd_ok rd" "\<And>s. map_of (get_available_sources rd g) a = Some s \<Longrightarrow>
      word_of_int (retransmission_count s) = get_current_packet_count stats rd g a"
  shows "refresh_source_or_del_it_if_unused stats g a rd = (False, del_source g a rd)"
proof (cases "map_of (rd_data rd) g")
  case None
  then show ?thesis by (simp add: refresh_source_or_del_it_if_unused_def del_source_def)
next
  case (Some v)
  show ?thesis
  proof (cases "map_of (m_source_list v) a")
    case None
    with Some show ?thesis by (simp add: refresh_source_or_del_it_if_unused_def)
  next
    case (Some s)
    let ?v = "\<lparr>m_source_list = sm_erase a (m_source_list v), m_if_map = sm_erase a (m_if_map v)\<rparr>"
    have ok: "smap_ok (rd_data rd)" by (rule rd_ok_smap [OF assms(1)])
    have "sm_erase g (sm_assign g u (rd_data rd)) = sm_erase g (rd_data rd)" for u
      by (rule smap_ext) (auto simp: ok lookup_erase lookup_assign)
    moreover have "sm_assign g ?v (sm_assign g ?v (rd_data rd)) = sm_assign g ?v (rd_data rd)"
      by (rule smap_ext) (auto simp: ok lookup_assign)
    ultimately show ?thesis
      using Some \<open>map_of (rd_data rd) g = Some v\<close> assms(2) [of s]
      by (simp add: refresh_source_or_del_it_if_unused_def del_source_def get_available_sources_def lookup_assign ok erase_twice Let_def)
  qed
qed

lemma set_timer_ok:
  assumes "rd_ok rd"
  shows "rd_ok (set_shared_source_timer g a tm rd) \<and> get_interface_map (set_shared_source_timer g a tm rd) h = get_interface_map rd h
    \<and> get_available_sources (set_shared_source_timer g a tm rd) h =
        (if h = g \<and> sm_mem a (get_available_sources rd g)
         then sm_assign a ((the (map_of (get_available_sources rd g) a))\<lparr>shared_source_timer := Some tm\<rparr>) (get_available_sources rd g)
         else get_available_sources rd h)"
proof (cases "map_of (rd_data rd) g")
  case None
  then show ?thesis using assms by (simp add: set_shared_source_timer_def get_available_sources_def)
next
  case (Some v)
  show ?thesis
  proof (cases "map_of (m_source_list v) a")
    case None
    then have "a \<notin> sm_keys (m_source_list v)" by (simp add: map_of_None_keys)
    with None Some assms show ?thesis by (simp add: set_shared_source_timer_def get_available_sources_def)
  next
    case s: (Some s)
    let ?v = "v\<lparr>m_source_list := sm_assign a (s\<lparr>shared_source_timer := Some tm\<rparr>) (m_source_list v)\<rparr>"
    have mem: "a \<in> sm_keys (m_source_list v)" using s by (auto simp: sm_keys_dom)
    then have "value_ok ?v" using rd_ok_lookup [OF assms Some] by (auto simp: value_ok_def)
    then have "rd_ok (rd\<lparr>rd_data := sm_assign g ?v (rd_data rd)\<rparr>)" by (simp add: rd_ok_assign [OF assms])
    with Some s mem rd_ok_smap [OF assms] show ?thesis
      by (simp add: set_shared_source_timer_def get_available_sources_def get_interface_map_def lookup_assign)
  qed
qed

subsection \<open>The interface of a store of sources\<close>

text \<open>What the routing management relies on: registering and dropping sources behave as on a map from
  group and source to the interface.  The last operation on a source decides.\<close>

datatype source_op = Register u32 addr_storage addr_storage | Forget addr_storage addr_storage

fun touches :: "addr_storage \<Rightarrow> addr_storage \<Rightarrow> source_op \<Rightarrow> bool" where
  "touches g a (Register i g' a') = (g' = g \<and> a' = a)"
| "touches g a (Forget g' a') = (g' = g \<and> a' = a)"

fun interface_after :: "source_op \<Rightarrow> u32 option" where
  "interface_after (Register i g a) = Some i"
| "interface_after (Forget g a) = None"

locale source_store =
  fixes known :: "'s \<Rightarrow> addr_storage \<Rightarrow> addr_storage \<Rightarrow> u32 option"
    and register :: "u32 \<Rightarrow> addr_storage \<Rightarrow> addr_storage \<Rightarrow> 's \<Rightarrow> 's"
    and forget :: "addr_storage \<Rightarrow> addr_storage \<Rightarrow> 's \<Rightarrow> 's"
    and ok :: "'s \<Rightarrow> bool"
  assumes law_register: "ok s \<Longrightarrow> known (register i g a s) g' a' = (if g' = g \<and> a' = a then Some i else known s g' a')"
    and law_forget: "ok s \<Longrightarrow> known (forget g a s) g' a' = (if g' = g \<and> a' = a then None else known s g' a')"
    and law_ok_register: "ok s \<Longrightarrow> ok (register i g a s)"
    and law_ok_forget: "ok s \<Longrightarrow> ok (forget g a s)"
begin

definition perform :: "source_op \<Rightarrow> 's \<Rightarrow> 's" where
  "perform x s = (case x of Register i g a \<Rightarrow> register i g a s | Forget g a \<Rightarrow> forget g a s)"

lemma perform_ok: "ok s \<Longrightarrow> ok (perform x s)"
  by (cases x) (simp_all add: perform_def law_ok_register law_ok_forget)

lemma perform_known: "ok s \<Longrightarrow> known (perform x s) g a = (if touches g a x then interface_after x else known s g a)"
  by (cases x) (auto simp: perform_def law_register law_forget)

lemma known_history:
  "ok s \<Longrightarrow> known (fold perform xs s) g a =
     (case List.find (touches g a) (rev xs) of None \<Rightarrow> known s g a | Some x \<Rightarrow> interface_after x)"
proof (induction xs rule: rev_induct)
  case (snoc x xs)
  have "ok (fold perform xs s)" using snoc.prems by (induction xs arbitrary: s) (simp_all add: perform_ok)
  with snoc show ?case by (simp add: perform_known)
qed simp

end

definition known_interface :: "simple_routing_data \<Rightarrow> addr_storage \<Rightarrow> addr_storage \<Rightarrow> u32 option" where
  "known_interface rd g a = map_of (get_interface_map rd g) a"

lemma known_set_source:
  "rd_ok rd \<Longrightarrow> known_interface (set_source stats i g a s rd) g' a' =
     (if g' = g \<and> a' = a then Some i else known_interface rd g' a')"
  by (simp add: known_interface_def set_source_lookup lists_ok lookup_assign)

lemma known_del_source:
  "rd_ok rd \<Longrightarrow> known_interface (del_source g a rd) g' a' =
     (if g' = g \<and> a' = a then None else known_interface rd g' a')"
  using del_source_eq [of rd g a g'] by (simp add: known_interface_def lookup_erase)

interpretation rd: source_store known_interface "\<lambda>i g a. set_source stats i g a s" del_source rd_ok for stats s
  by unfold_locales (simp_all add: known_set_source known_del_source rd_ok_set_source del_source_eq)

subsection \<open>Properties\<close>

definition perform_op :: "mroute_stats \<Rightarrow> source \<Rightarrow> source_op \<Rightarrow> simple_routing_data \<Rightarrow> simple_routing_data" where
  "perform_op stats s x rd = (case x of Register i g a \<Rightarrow> set_source stats i g a s rd | Forget g a \<Rightarrow> del_source g a rd)"

text \<open>C30: After any sequence of registered and dropped sources the last operation on a source decides
  which interface it is known on, and the containers of every group agree.\<close>

theorem source_history:
  assumes "rd_ok rd"
  shows "known_interface (fold (perform_op stats s) xs rd) g a =
      (case List.find (touches g a) (rev xs) of None \<Rightarrow> known_interface rd g a | Some x \<Rightarrow> interface_after x)
    \<and> sm_keys (get_available_sources (fold (perform_op stats s) xs rd) g) =
        sm_keys (get_interface_map (fold (perform_op stats s) xs rd) g)"
proof -
  have eq: "perform_op stats s = rd.perform stats s"
    by (intro ext) (simp add: perform_op_def rd.perform_def split: source_op.splits)
  have "rd_ok (fold (rd.perform stats s) xs rd)" using assms
    by (induction xs arbitrary: rd) (simp_all add: rd.perform_ok)
  with rd.known_history [OF assms] lists_ok(3) show ?thesis unfolding eq by blast
qed

definition ex_ops :: "source_op list" where
  "ex_ops = [Register 2 (Addr4 0xE8010203) (Addr4 1), Register 3 (Addr4 0xE8010203) (Addr4 1), Forget (Addr4 0xE8010203) (Addr4 2)]"

lemma source_history_witness:
  "known_interface (fold (perform_op (\<lambda>s g. None) new_source) ex_ops (new_routing_data IGMPv3)) (Addr4 0xE8010203) (Addr4 1) = Some 3"
  using source_history [of "new_routing_data IGMPv3" "\<lambda>s g. None" new_source ex_ops "Addr4 0xE8010203" "Addr4 1"]
  by (simp add: rd_ok_def new_routing_data_def ex_ops_def)

text \<open>A check keeps a source exactly when the packet counter of the kernel differs from the one of
  the last check; a source that is kept and then sends nothing is dropped by the next check, with its
  group when it was the last one.\<close>

theorem unused_source_dropped:
  assumes "rd_ok rd" "map_of (get_available_sources rd g) a = Some s"
    and "refresh_source_or_del_it_if_unused stats g a rd = (rc, rd')"
  shows "(rc \<longleftrightarrow> word_of_int (retransmission_count s) \<noteq> get_current_packet_count stats rd g a)
    \<and> rd_ok rd'
    \<and> get_available_sources (if rc then snd (refresh_source_or_del_it_if_unused stats g a rd') else rd') g =
        sm_erase a (get_available_sources rd g)
    \<and> (known_interface rd' g a \<noteq> None \<longleftrightarrow> rc)"
proof (cases "word_of_int (retransmission_count s) = get_current_packet_count stats rd g a")
  case True
  then have "refresh_source_or_del_it_if_unused stats g a rd = (False, del_source g a rd)"
    using assms(2) by (intro refresh_dropped [OF assms(1)]) simp
  with True assms(3) del_source_eq [OF assms(1), of g a g] known_del_source [OF assms(1), of g a g a] show ?thesis by simp
next
  case False
  let ?s = "s\<lparr>retransmission_count := sint (get_current_packet_count stats rd g a)\<rparr>"
  from refresh_kept [OF assms(1,2) False, of g] assms(3)
  have r: "rc" "rd_ok rd'" "get_available_sources rd' g = sm_assign a ?s (get_available_sources rd g)"
    "get_interface_map rd' g = get_interface_map rd g" "rd_group_mem_protocol rd' = rd_group_mem_protocol rd" by auto
  have sm: "smap_ok (get_available_sources rd g)" by (rule lists_ok [OF assms(1)])
  have "map_of (get_available_sources rd' g) a = Some ?s" using sm by (simp add: r lookup_assign)
  then have "refresh_source_or_del_it_if_unused stats g a rd' = (False, del_source g a rd')"
    by (intro refresh_dropped [OF r(2)]) (auto simp: r(5) get_current_packet_count_def)
  moreover have "sm_erase a (sm_assign a ?s (get_available_sources rd g)) = sm_erase a (get_available_sources rd g)"
    by (rule smap_ext) (auto simp: sm lookup_erase lookup_assign)
  moreover have "a \<in> sm_keys (get_interface_map rd g)"
    using assms(2) lists_ok(3) [OF assms(1), of g] by (auto simp: sm_keys_dom)
  ultimately show ?thesis
    using r False del_source_eq [OF r(2), of g a g] by (auto simp: known_interface_def map_of_None_keys)
qed

definition ex_rd :: simple_routing_data where
  "ex_rd = set_source (\<lambda>s g. None) 2 (Addr4 0xE8010203) (Addr4 1) new_source (new_routing_data IGMPv3)"

lemma unused_source_dropped_witness:
  "fst (refresh_source_or_del_it_if_unused (\<lambda>s g. Some 5) (Addr4 0xE8010203) (Addr4 1) ex_rd)
   \<and> get_available_sources (snd (refresh_source_or_del_it_if_unused (\<lambda>s g. Some 5) (Addr4 0xE8010203) (Addr4 1)
        (snd (refresh_source_or_del_it_if_unused (\<lambda>s g. Some 5) (Addr4 0xE8010203) (Addr4 1) ex_rd)))) (Addr4 0xE8010203) = []"
proof -
  have new: "rd_ok (new_routing_data IGMPv3)" by (simp add: rd_ok_def new_routing_data_def)
  then have ok: "rd_ok ex_rd" by (simp add: ex_rd_def rd_ok_set_source)
  have av: "get_available_sources ex_rd (Addr4 0xE8010203) = [(Addr4 1, new_source)]"
    unfolding ex_rd_def using set_source_lookup [OF new]
    by (simp add: stored_source_def get_available_sources_def new_routing_data_def)
  have gmp: "rd_group_mem_protocol ex_rd = IGMPv3" by (simp add: ex_rd_def set_source_def new_routing_data_def)
  then have "word_of_int (retransmission_count new_source) \<noteq> get_current_packet_count (\<lambda>s g. Some 5) ex_rd (Addr4 0xE8010203) (Addr4 1)"
    by (simp add: get_current_packet_count_def new_source_def is_IPv4_iff)
  with unused_source_dropped [OF ok _ prod.collapse [symmetric], of "Addr4 0xE8010203" "Addr4 1" new_source "\<lambda>s g. Some 5"] av
  show ?thesis by (auto simp: sm_erase_def)
qed

end
