(* ===== verification/Interface_Rules.thy ===== *)
theory Interface_Rules
  imports Addr_Storage "HOL-Library.List_Lexorder" "HOL-Library.Char_ord"
begin

section \<open>Filter rules, tables and interfaces of a configuration (interface.hpp, interface.cpp)\<close>

text \<open>
  The object tree the configuration parser builds: address patterns, rules, tables, rule bindings,
  interfaces and instance definitions, with the virtual \<^verbatim>\<open>match\<close> functions.  A
  \<^verbatim>\<open>rule_table_ref\<close> looks its table up by name in the global table set when it is matched, so a
  match can chase references; \<open>match_rule\<close> takes the number of references it may follow, and a match
  that needs more has the value \<open>None\<close> (in the code: unbounded recursion).  For the tables the parser
  can build, the number of tables is enough (\<open>match_table_total\<close>).  The order of the two address
  arguments is the one of \<^verbatim>\<open>table::match\<close>; \<^verbatim>\<open>rule_binding::match\<close> and
  \<^verbatim>\<open>interface::match_filter\<close> name them the other way round but hand them on by position.
\<close>

subsection \<open>Address patterns\<close>

datatype addr_match = Single_addr addr_storage | Addr_range addr_storage addr_storage

definition is_wildcard :: "addr_storage \<Rightarrow> addr_family \<Rightarrow> bool" where
  "is_wildcard addr af \<longleftrightarrow> addr_eq addr (addr_of_family af)"

fun match_addr :: "addr_match \<Rightarrow> addr_storage \<Rightarrow> bool" where
  "match_addr (Single_addr m) addr \<longleftrightarrow> addr_eq addr m \<or> is_wildcard m (get_addr_family addr)"
| "match_addr (Addr_range from to) addr \<longleftrightarrow>
     (addr_ge addr from \<or> is_wildcard from (get_addr_family addr))
   \<and> (addr_le addr to \<or> is_wildcard to (get_addr_family addr))"

subsection \<open>Rules and tables\<close>

datatype rule_box =
  Rule_addr string addr_match addr_match
| Rule_table table
| Rule_table_ref string
and table = Table string "rule_box list"

fun get_name :: "table \<Rightarrow> string" where
  "get_name (Table n rs) = n"

type_synonym global_table_set = "(string, table) smap"

definition get_table :: "string \<Rightarrow> global_table_set \<Rightarrow> table option" where
  "get_table n gts = map_of gts n"

text \<open>\<^verbatim>\<open>global_table_set::insert\<close>: the flag tells whether the table was inserted.\<close>

definition insert_table :: "table \<Rightarrow> global_table_set \<Rightarrow> bool \<times> global_table_set" where
  "insert_table t gts = (get_table (get_name t) gts = None, sm_insert (get_name t) t gts)"

text \<open>The loop of \<^verbatim>\<open>table::match\<close> over the results of the rules: it stops at the first that
  matches.\<close>

fun first_match :: "bool option list \<Rightarrow> bool option" where
  "first_match [] = Some False"
| "first_match (None # rs) = None"
| "first_match (Some True # rs) = Some True"
| "first_match (Some False # rs) = first_match rs"

function (sequential) match_rule ::
  "nat \<Rightarrow> global_table_set \<Rightarrow> string \<Rightarrow> addr_storage \<Rightarrow> addr_storage \<Rightarrow> rule_box \<Rightarrow> bool option"
  and match_table ::
  "nat \<Rightarrow> global_table_set \<Rightarrow> string \<Rightarrow> addr_storage \<Rightarrow> addr_storage \<Rightarrow> table \<Rightarrow> bool option" where
  "match_rule n gts if_name gaddr saddr (Rule_addr name grp src) =
     (if name = [] then Some (match_addr grp gaddr \<and> match_addr src saddr)
      else Some (name = if_name \<and> match_addr grp gaddr \<and> match_addr src saddr))"
| "match_rule n gts if_name gaddr saddr (Rule_table t) = match_table n gts if_name gaddr saddr t"
| "match_rule 0 gts if_name gaddr saddr (Rule_table_ref name) =
     (case get_table name gts of None \<Rightarrow> Some False | Some t \<Rightarrow> None)"
| "match_rule (Suc n) gts if_name gaddr saddr (Rule_table_ref name) =
     (case get_table name gts of None \<Rightarrow> Some False | Some t \<Rightarrow> match_table n gts if_name gaddr saddr t)"
| "match_table n gts if_name gaddr saddr (Table name rules) =
     first_match (map (match_rule n gts if_name gaddr saddr) rules)"
  by pat_completeness auto
termination
  by (relation "measures [\<lambda>x. case x of Inl (n, _) \<Rightarrow> n | Inr (n, _) \<Rightarrow> n,
        \<lambda>x. case x of Inl (_, _, _, _, _, r) \<Rightarrow> size r | Inr (_, _, _, _, _, t) \<Rightarrow> size t]")
     (auto simp: less_Suc_eq_le size_list_estimation' split: option.splits)

subsection \<open>Rule bindings, interfaces, instances\<close>

datatype rb_type = RBT_FILTER | RBT_RULE_MATCHING | RBT_TIMER_VALUE
datatype rb_interface_type = IT_UPSTREAM | IT_DOWNSTREAM
datatype rb_interface_direction = ID_IN | ID_OUT | ID_WILDCARD
datatype rb_filter_type = FT_BLACKLIST | FT_WHITELIST | FT_UNDEFINED
datatype rb_rule_matching_type = RMT_ALL | RMT_FIRST | RMT_MUTEX | RMT_UNDEFINED

record rule_binding =
  rb_rule_binding_type :: rb_type
  rb_instance_name :: string
  rb_interface_type :: rb_interface_type
  rb_if_name :: string
  rb_filter_direction :: rb_interface_direction
  rb_filter_type :: rb_filter_type
  rb_table :: "table option"
  rb_rule_matching_type :: rb_rule_matching_type
  rb_timeout :: int

definition filter_binding ::
  "string \<Rightarrow> rb_interface_type \<Rightarrow> string \<Rightarrow> rb_interface_direction \<Rightarrow> rb_filter_type \<Rightarrow> table \<Rightarrow> rule_binding" where
  "filter_binding inst ity if_name dir ft t =
     \<lparr>rb_rule_binding_type = RBT_FILTER, rb_instance_name = inst, rb_interface_type = ity, rb_if_name = if_name,
      rb_filter_direction = dir, rb_filter_type = ft, rb_table = Some t,
      rb_rule_matching_type = RMT_UNDEFINED, rb_timeout = 0\<rparr>"

definition matching_binding ::
  "string \<Rightarrow> rb_interface_type \<Rightarrow> string \<Rightarrow> rb_interface_direction \<Rightarrow> rb_rule_matching_type \<Rightarrow> int \<Rightarrow> rule_binding" where
  "matching_binding inst ity if_name dir rmt timeout =
     \<lparr>rb_rule_binding_type = RBT_RULE_MATCHING, rb_instance_name = inst, rb_interface_type = ity, rb_if_name = if_name,
      rb_filter_direction = dir, rb_filter_type = FT_UNDEFINED, rb_table = None,
      rb_rule_matching_type = rmt, rb_timeout = timeout\<rparr>"

definition match_binding ::
  "nat \<Rightarrow> global_table_set \<Rightarrow> rule_binding \<Rightarrow> string \<Rightarrow> addr_storage \<Rightarrow> addr_storage \<Rightarrow> bool option" where
  "match_binding n gts rb if_name gaddr saddr =
     (case rb_table rb of
        Some t \<Rightarrow>
          (if rb_filter_type rb = FT_BLACKLIST then map_option Not (match_table n gts if_name gaddr saddr t)
           else if rb_filter_type rb = FT_WHITELIST then match_table n gts if_name gaddr saddr t
           else Some False)
      | None \<Rightarrow> Some False)"

record iface =
  if_name :: string
  output_filter :: "rule_binding option"
  input_filter :: "rule_binding option"

definition new_interface :: "string \<Rightarrow> iface" where
  "new_interface n = \<lparr>if_name = n, output_filter = None, input_filter = None\<rparr>"

definition match_filter ::
  "nat \<Rightarrow> global_table_set \<Rightarrow> string \<Rightarrow> addr_storage \<Rightarrow> addr_storage \<Rightarrow> rule_binding option \<Rightarrow> bool option" where
  "match_filter n gts input_if_name gaddr saddr filt =
     (case filt of Some rb \<Rightarrow> match_binding n gts rb input_if_name gaddr saddr | None \<Rightarrow> Some True)"

definition match_output_filter ::
  "nat \<Rightarrow> global_table_set \<Rightarrow> iface \<Rightarrow> string \<Rightarrow> addr_storage \<Rightarrow> addr_storage \<Rightarrow> bool option" where
  "match_output_filter n gts i input_if_name gaddr saddr =
     match_filter n gts input_if_name gaddr saddr (output_filter i)"

definition match_input_filter ::
  "nat \<Rightarrow> global_table_set \<Rightarrow> iface \<Rightarrow> string \<Rightarrow> addr_storage \<Rightarrow> addr_storage \<Rightarrow> bool option" where
  "match_input_filter n gts i input_if_name gaddr saddr =
     match_filter n gts input_if_name gaddr saddr (input_filter i)"

record instance_definition =
  instance_name :: string
  table_number :: int
  user_selected_table_number :: bool
  upstreams :: "iface list"
  downstreams :: "iface list"
  global_settings :: "rule_binding list"

type_synonym inst_def_set = "(string, instance_definition) smap"

definition insert_instance :: "instance_definition \<Rightarrow> inst_def_set \<Rightarrow> bool \<times> inst_def_set" where
  "insert_instance d ids = (map_of ids (instance_name d) = None, sm_insert (instance_name d) d ids)"

subsection \<open>Matching as a relation\<close>

text \<open>The specification: a table accepts what one of its rules accepts.\<close>

inductive rule_accepts :: "global_table_set \<Rightarrow> string \<Rightarrow> addr_storage \<Rightarrow> addr_storage \<Rightarrow> rule_box \<Rightarrow> bool"
  and table_accepts :: "global_table_set \<Rightarrow> string \<Rightarrow> addr_storage \<Rightarrow> addr_storage \<Rightarrow> table \<Rightarrow> bool"
  for gts i g s where
  acc_addr: "name = [] \<or> name = i \<Longrightarrow> match_addr grp g \<Longrightarrow> match_addr src s \<Longrightarrow>
    rule_accepts gts i g s (Rule_addr name grp src)"
| acc_table: "table_accepts gts i g s t \<Longrightarrow> rule_accepts gts i g s (Rule_table t)"
| acc_ref: "get_table name gts = Some t \<Longrightarrow> table_accepts gts i g s t \<Longrightarrow> rule_accepts gts i g s (Rule_table_ref name)"
| acc_rule: "r \<in> set rules \<Longrightarrow> rule_accepts gts i g s r \<Longrightarrow> table_accepts gts i g s (Table name rules)"

inductive_simps rule_accepts_simps:
  "rule_accepts gts i g s (Rule_addr name grp src)"
  "rule_accepts gts i g s (Rule_table t)"
  "rule_accepts gts i g s (Rule_table_ref name)"
  "table_accepts gts i g s (Table name rules)"

lemma first_match_Some: "first_match rs = Some b \<Longrightarrow> b \<longleftrightarrow> (\<exists>r \<in> set rs. r = Some True)"
  by (induction rs rule: first_match.induct) auto

lemma first_match_None: "first_match rs = None \<Longrightarrow> None \<in> set rs"
  by (induction rs rule: first_match.induct) auto

lemma match_sound:
  "match_rule n gts i g s r = Some b \<Longrightarrow> b \<longleftrightarrow> rule_accepts gts i g s r"
  "match_table n gts i g s t = Some c \<Longrightarrow> c \<longleftrightarrow> table_accepts gts i g s t"
proof (induction n gts i g s r and n gts i g s t arbitrary: b and c rule: match_rule_match_table.induct)
  case (5 n gts i g s name rules)
  have *: "match_rule n gts i g s r = Some d \<Longrightarrow> d \<longleftrightarrow> rule_accepts gts i g s r" if "r \<in> set rules" for r d
    using "5.IH" that by blast
  from "5.prems" have fm: "first_match (map (match_rule n gts i g s) rules) = Some c" by simp
  show ?case
  proof
    assume c
    with first_match_Some [OF fm] obtain r where "r \<in> set rules" "match_rule n gts i g s r = Some True" by auto
    with * show "table_accepts gts i g s (Table name rules)" by (auto intro: acc_rule)
  next
    assume "table_accepts gts i g s (Table name rules)"
    then obtain r where r: "r \<in> set rules" "rule_accepts gts i g s r" by (auto simp: rule_accepts_simps)
    show c
    proof (rule ccontr)
      assume "\<not> c"
      then have "first_match (map (match_rule n gts i g s) rules) = Some False" using fm by simp
      then have "match_rule n gts i g s r = Some False" using r(1)
        by (induction rules) (auto split: option.splits elim: first_match.elims)
      with * r show False by blast
    qed
  qed
qed (auto simp: rule_accepts_simps split: option.splits if_splits)

subsection \<open>Matching ends\<close>

fun rule_refs :: "rule_box \<Rightarrow> string set" and table_refs :: "table \<Rightarrow> string set" where
  "rule_refs (Rule_addr n grp src) = {}"
| "rule_refs (Rule_table t) = table_refs t"
| "rule_refs (Rule_table_ref n) = {n}"
| "table_refs (Table n rules) = (\<Union>r \<in> set rules. rule_refs r)"

text \<open>The sets of tables the parser builds: a table only refers to tables that exist already.\<close>

inductive tables_built :: "global_table_set \<Rightarrow> bool" where
  built_empty: "tables_built []"
| built_insert: "tables_built gts \<Longrightarrow> table_refs t \<subseteq> sm_keys gts \<Longrightarrow> insert_table t gts = (True, gts') \<Longrightarrow>
    tables_built gts'"

definition extends_tables :: "global_table_set \<Rightarrow> global_table_set \<Rightarrow> bool" where
  "extends_tables gts gts' \<longleftrightarrow> (\<forall>n t. get_table n gts = Some t \<longrightarrow> get_table n gts' = Some t)"

lemma tables_built_ok: "tables_built gts \<Longrightarrow> smap_ok gts"
  by (induction rule: tables_built.induct) (auto simp: insert_table_def)

lemma insert_table_extends: "smap_ok gts \<Longrightarrow> insert_table t gts = (True, gts') \<Longrightarrow> extends_tables gts gts'"
  by (auto simp: insert_table_def extends_tables_def get_table_def lookup_insert split: if_splits)

lemma tables_built_refs:
  "tables_built gts \<Longrightarrow> get_table n gts = Some t \<Longrightarrow> table_refs t \<subseteq> sm_keys gts"
proof (induction arbitrary: n t rule: tables_built.induct)
  case (built_insert gts t' gts')
  then show ?case
    using tables_built_ok [OF built_insert(1)]
    by (auto simp: insert_table_def get_table_def lookup_insert split: if_splits) (metis subsetD)+
qed (simp add: get_table_def)

lemma refs_enough:
  "(\<And>m. m \<in> rule_refs r \<Longrightarrow> match_rule n gts i g s (Rule_table_ref m) \<noteq> None) \<Longrightarrow> match_rule n gts i g s r \<noteq> None"
  "(\<And>m. m \<in> table_refs t \<Longrightarrow> match_rule n gts i g s (Rule_table_ref m) \<noteq> None) \<Longrightarrow> match_table n gts i g s t \<noteq> None"
proof (induction r and t rule: rule_refs_table_refs.induct)
  case (4 name rules)
  have "match_rule n gts i g s r \<noteq> None" if "r \<in> set rules" for r
    by (rule "4.IH" [OF that]) (use "4.prems" that in auto)
  then have "None \<notin> set (map (match_rule n gts i g s) rules)" by force
  then show ?case using first_match_None by fastforce
qed auto

lemma match_ends_aux:
  "tables_built gts \<Longrightarrow> extends_tables gts gts' \<Longrightarrow> length gts \<le> n \<Longrightarrow> table_refs u \<subseteq> sm_keys gts \<Longrightarrow>
     match_table n gts' i g s u \<noteq> None"
proof (induction arbitrary: gts' n u rule: tables_built.induct)
  case built_empty
  then show ?case by (intro refs_enough(2)) auto
next
  case (built_insert gts t gts1)
  have ok: "smap_ok gts" by (rule tables_built_ok [OF built_insert(1)])
  have new: "get_table (get_name t) gts = None" and gts1: "gts1 = sm_insert (get_name t) t gts"
    using built_insert(3) by (auto simp: insert_table_def)
  have len: "length (sm_insert k v m) = Suc (length m)" if "map_of m k = None" for k v and m :: global_table_set
    using that by (induction m) (auto split: if_splits)
  have l: "length gts1 = Suc (length gts)" using len new by (simp add: gts1 get_table_def)
  then obtain n' where n: "n = Suc n'" "length gts \<le> n'" using built_insert.prems(2) by (cases n) auto
  have ext: "extends_tables gts gts'"
    using insert_table_extends [OF ok built_insert(3)] built_insert.prems(1) by (auto simp: extends_tables_def)
  have ih: "match_table n' gts' i g s v \<noteq> None" if "table_refs v \<subseteq> sm_keys gts" for v
    by (rule built_insert.IH [OF ext n(2) that])
  show ?case
  proof (rule refs_enough(2))
    fix m assume "m \<in> table_refs u"
    then have "m \<in> sm_keys gts1" using built_insert.prems(3) by auto
    then obtain v where v: "get_table m gts1 = Some v" by (auto simp: sm_keys_dom get_table_def)
    have "table_refs v \<subseteq> sm_keys gts"
    proof (cases "m = get_name t \<and> map_of gts (get_name t) = None")
      case True
      with v built_insert(2) ok show ?thesis by (auto simp: gts1 get_table_def lookup_insert)
    next
      case False
      with v ok new have "get_table m gts = Some v" by (auto simp: gts1 get_table_def lookup_insert split: if_splits)
      then show ?thesis by (rule tables_built_refs [OF built_insert(1)])
    qed
    with ih [of v] v built_insert.prems(1) show "match_rule n gts' i g s (Rule_table_ref m) \<noteq> None"
      by (auto simp: n extends_tables_def)
  qed
qed

lemma extends_tables_refl: "extends_tables gts gts"
  by (simp add: extends_tables_def)

lemma match_table_total:
  "tables_built gts \<Longrightarrow> table_refs t \<subseteq> sm_keys gts \<Longrightarrow> length gts \<le> n \<Longrightarrow>
     match_table n gts i g s t = Some (table_accepts gts i g s t)"
  using match_ends_aux [OF _ extends_tables_refl, of gts n t i g s] match_sound(2) [of n gts i g s t] by fastforce

subsection \<open>Patterns and the value of an address\<close>

lemma wildcard_zero:
  "is_valid a \<Longrightarrow> get_addr_family p = get_addr_family a \<Longrightarrow> is_wildcard p (get_addr_family a) \<longleftrightarrow> addr_val p = 0"
  by (cases a; cases p) (auto simp: is_wildcard_def is_valid_def words_val_def unat_eq_0)

lemma addr_ge_val: "get_addr_family p = get_addr_family a \<Longrightarrow> addr_ge a p \<longleftrightarrow> addr_val p \<le> addr_val a"
  by (cases a; cases p) (auto simp: addr_ge_def s6_addr_lt word_less_nat_alt)

lemma family_rank_eq: "get_addr_family a = get_addr_family b \<Longrightarrow> family_rank a = family_rank b"
  by (cases a; cases b) auto

lemma addr_le_val:
  "is_valid a \<Longrightarrow> get_addr_family p = get_addr_family a \<Longrightarrow> addr_le a p \<longleftrightarrow> addr_val a \<le> addr_val p"
  using addr_ge_val [of a p]
  by (auto simp: addr_le_def addr_ge_def addr_eq_iff addr_lt_family less_addr_storage_def less_eq_addr_storage_def is_valid_def
      intro: addr_val_inject family_rank_eq)

subsection \<open>Properties\<close>

lemma filter_result:
  assumes "tables_built gts" "length gts \<le> n"
    and "\<And>rb t. filt = Some rb \<Longrightarrow> rb_table rb = Some t \<Longrightarrow> table_refs t \<subseteq> sm_keys gts"
  shows "match_filter n gts i g s filt =
    Some (case filt of None \<Rightarrow> True
      | Some rb \<Rightarrow> (case rb_table rb of None \<Rightarrow> False
          | Some t \<Rightarrow> (case rb_filter_type rb of
              FT_BLACKLIST \<Rightarrow> \<not> table_accepts gts i g s t
            | FT_WHITELIST \<Rightarrow> table_accepts gts i g s t
            | FT_UNDEFINED \<Rightarrow> False)))"
proof (cases filt)
  case (Some rb)
  show ?thesis
  proof (cases "rb_table rb")
    case None
    with Some show ?thesis by (simp add: match_filter_def match_binding_def)
  next
    case (Some t)
    with \<open>filt = Some rb\<close> match_table_total [OF assms(1) assms(3) assms(2)] show ?thesis
      by (cases "rb_filter_type rb") (simp_all add: match_filter_def match_binding_def)
  qed
qed (simp add: match_filter_def)

text \<open>C27: Matching a filter always ends: for the tables the parser can build, following at most as
  many references as there are tables gives a result, and it is acceptance by one of the rules for a
  whitelist, the opposite for a blacklist, and acceptance of everything without a filter.\<close>

theorem filter_decides:
  assumes "tables_built gts" "length gts \<le> n"
    and "\<And>rb t. filt = Some rb \<Longrightarrow> rb_table rb = Some t \<Longrightarrow> table_refs t \<subseteq> sm_keys gts"
  shows "match_filter n gts i g s filt =
    Some (case filt of None \<Rightarrow> True
      | Some rb \<Rightarrow> (case rb_table rb of None \<Rightarrow> False
          | Some t \<Rightarrow> (case rb_filter_type rb of
              FT_BLACKLIST \<Rightarrow> \<not> table_accepts gts i g s t
            | FT_WHITELIST \<Rightarrow> table_accepts gts i g s t
            | FT_UNDEFINED \<Rightarrow> False)))"
  using assms by (rule filter_result)

definition ex_tables :: global_table_set where
  "ex_tables = [(''A'', Table ''A'' [Rule_addr [] (Single_addr (Addr4 0xE8010203)) (Single_addr (Addr4 0))])]"

lemma ex_tables_built: "tables_built ex_tables"
proof (rule built_insert [OF built_empty])
  show "insert_table (Table ''A'' [Rule_addr [] (Single_addr (Addr4 0xE8010203)) (Single_addr (Addr4 0))]) [] = (True, ex_tables)"
    by (simp add: insert_table_def get_table_def ex_tables_def)
qed simp

lemma filter_decides_witness:
  "match_filter 1 ex_tables ''eth0'' (Addr4 0xE8010203) (Addr4 7)
     (Some (filter_binding ''P'' IT_UPSTREAM ''eth0'' ID_IN FT_BLACKLIST (Table [] [Rule_table_ref ''A'']))) = Some False"
  (is "match_filter 1 ex_tables _ _ _ ?f = _")
proof -
  have refs: "table_refs t \<subseteq> sm_keys ex_tables" if "?f = Some rb" "rb_table rb = Some t" for rb t
    using that by (auto simp: filter_binding_def ex_tables_def)
  have "length ex_tables \<le> 1" by (simp add: ex_tables_def)
  from filter_decides [of ex_tables 1 ?f "''eth0''" "Addr4 0xE8010203" "Addr4 7", OF ex_tables_built this refs]
  show ?thesis
    by (simp add: filter_binding_def rule_accepts_simps ex_tables_def get_table_def is_wildcard_def)
qed

text \<open>An address pattern of the parser matches exactly the addresses of its interval, a zero
  bound standing for no bound: a single address matches itself or, if zero, every address.\<close>

theorem pattern_interval:
  assumes "is_valid a" "get_addr_family from = get_addr_family a" "get_addr_family to = get_addr_family a"
  shows "(match_addr (Addr_range from to) a \<longleftrightarrow>
      addr_val from \<le> addr_val a \<and> (addr_val to = 0 \<or> addr_val a \<le> addr_val to))
    \<and> (match_addr (Single_addr from) a \<longleftrightarrow> addr_val from = 0 \<or> from = a)"
  using assms
  by (auto simp: wildcard_zero addr_ge_val addr_le_val addr_eq_iff)

lemma pattern_interval_witness:
  "match_addr (Addr_range (Addr4 5) (Addr4 0)) (Addr4 7) \<and> \<not> match_addr (Addr_range (Addr4 5) (Addr4 6)) (Addr4 7)"
  using pattern_interval [of "Addr4 7" "Addr4 5" "Addr4 0"] pattern_interval [of "Addr4 7" "Addr4 5" "Addr4 6"]
  by (simp add: is_valid_def del: match_addr.simps)

end
