(* ===== verification/Proxy_State.thy ===== *)
theory Proxy_State
  imports Querier_Queries Routing Routing_Data Interface_Rules
begin

section \<open>The state of a proxy instance (proxy_instance.hpp)\<close>

text \<open>
  The data members of \<^verbatim>\<open>proxy_instance\<close> that its worker thread and the routing management share.
  \<^verbatim>\<open>m_upstreams\<close> is a \<^verbatim>\<open>std::set\<close> whose order compares the priority only, so it is a container keyed by the
  priority.  \<open>p_names\<close> is the name service of the kernel; \<open>p_tables\<close> is the set of tables the rules of the
  interfaces refer to (a shared pointer in every rule binding).  The routing management owns
  \<open>p_routing_data\<close>.  The pointers to the interfaces and rule bindings of a configuration are never null:
  they are created with \<^verbatim>\<open>make_shared\<close> by the parser and by the constructor.
\<close>

record upstream_infos =
  ui_if_index :: u32
  ui_interface :: iface

record downstream_infos =
  di_querier :: querier
  di_interface :: iface

record proxy_instance =
  p_group_mem_protocol :: group_mem_protocol
  p_instance_name :: string
  p_table_number :: int
  p_worker :: nat                  \<comment> \<open>the identity of this worker for the timing thread\<close>
  p_names :: net_names
  p_tables :: global_table_set
  p_interfaces :: interfaces
  p_sender :: sender_kind
  p_relevant_if_index :: "(u32, unit) smap"      \<comment> \<open>of the receiver\<close>
  p_routing :: routing
  p_routing_data :: simple_routing_data
  p_upstreams :: "(u32, upstream_infos) smap"
  p_downstreams :: "(u32, downstream_infos) smap"
  p_upstream_input_rule :: rule_binding
  p_upstream_output_rule :: rule_binding
  p_running :: bool

definition is_upstream :: "proxy_instance \<Rightarrow> u32 \<Rightarrow> bool" where
  "is_upstream p if_index \<longleftrightarrow> list_ex (\<lambda>e. ui_if_index (snd e) = if_index) (p_upstreams p)"

definition is_downstream :: "proxy_instance \<Rightarrow> u32 \<Rightarrow> bool" where
  "is_downstream p if_index \<longleftrightarrow> sm_mem if_index (p_downstreams p)"

text \<open>
  The filters of an interface, with the tables of the configuration.  A match that would not end has no
  value; for the tables of an accepted configuration every match ends (\<open>Configuration.config_filters_decide\<close>).
\<close>

definition passes_output :: "proxy_instance \<Rightarrow> iface \<Rightarrow> string \<Rightarrow> addr_storage \<Rightarrow> addr_storage \<Rightarrow> bool" where
  "passes_output p i input_if_name gaddr saddr \<longleftrightarrow>
     match_output_filter (length (p_tables p)) (p_tables p) i input_if_name gaddr saddr = Some True"

definition passes_input :: "proxy_instance \<Rightarrow> iface \<Rightarrow> string \<Rightarrow> addr_storage \<Rightarrow> addr_storage \<Rightarrow> bool" where
  "passes_input p i input_if_name gaddr saddr \<longleftrightarrow>
     match_input_filter (length (p_tables p)) (p_tables p) i input_if_name gaddr saddr = Some True"

definition up_name :: "proxy_instance \<Rightarrow> upstream_infos \<Rightarrow> string" where
  "up_name p u = get_if_name (p_names p) (ui_if_index u)"

lemma is_upstream_iff: "is_upstream p i \<longleftrightarrow> i \<in> ui_if_index ` snd ` set (p_upstreams p)"
  by (force simp: is_upstream_def list_ex_iff)

lemma is_downstream_iff: "is_downstream p i \<longleftrightarrow> i \<in> sm_keys (p_downstreams p)"
  by (simp add: is_downstream_def)

text \<open>An instance with the downstream interface \<^verbatim>\<open>eth0\<close> and the upstream interfaces \<^verbatim>\<open>eth1\<close> and \<^verbatim>\<open>eth2\<close>, without
  filters, on which the properties are evaluated.\<close>

definition ex_names3 :: net_names where
  "ex_names3 = \<lparr>if_nametoindex = (\<lambda>n. if n = ''eth0'' then 2 else if n = ''eth1'' then 3 else if n = ''eth2'' then 4 else 0),
     if_indextoname = (\<lambda>i. if i = 2 then Some ''eth0'' else if i = 3 then Some ''eth1'' else if i = 4 then Some ''eth2'' else None)\<rparr>"

definition ex_instance :: "gaddr_info \<Rightarrow> proxy_instance" where
  "ex_instance gi =
     \<lparr>p_group_mem_protocol = IGMPv3, p_instance_name = ''inst'', p_table_number = 0, p_worker = 1, p_names = ex_names3,
      p_tables = [],
      p_interfaces = \<lparr>m_addr_family = AF_INET, m_if_prop = new_if_prop, m_vif_if = [(0, 2), (1, 3), (2, 4)],
        m_if_vif = [(2, 0), (3, 1), (4, 2)]\<rparr>,
      p_sender = IGMP_SENDER, p_relevant_if_index = [(2, ()), (3, ()), (4, ())],
      p_routing = \<lparr>r_table_number = 0, r_addr_family = AF_INET, r_if_prop = new_if_prop,
        m_added_ifs = [(2, ()), (3, ()), (4, ())]\<rparr>,
      p_routing_data = new_routing_data IGMPv3,
      p_upstreams = [(0, \<lparr>ui_if_index = 3, ui_interface = new_interface ''eth1''\<rparr>),
        (100, \<lparr>ui_if_index = 4, ui_interface = new_interface ''eth2''\<rparr>)],
      p_downstreams = [(2, \<lparr>di_querier = set_group (Addr4 0xE8010203) gi ex_fresh, di_interface = new_interface ''eth0''\<rparr>)],
      p_upstream_input_rule = matching_binding ''inst'' IT_UPSTREAM ''*'' ID_IN RMT_FIRST 0,
      p_upstream_output_rule = matching_binding ''inst'' IT_UPSTREAM ''*'' ID_OUT RMT_ALL 0,
      p_running = True\<rparr>"

lemma ex_instance_filters [simp]:
  "passes_output (ex_instance gi) (new_interface n) i g a" "passes_input (ex_instance gi) (new_interface n) i g a"
  by (simp_all add: passes_output_def passes_input_def match_output_filter_def match_input_filter_def
      match_filter_def new_interface_def)

definition ex_include :: gaddr_info where
  "ex_include = (new_gaddr_info IGMPv3)\<lparr>include_requested_list := [(Addr4 7, new_source)]\<rparr>"

lemma ex_group_infos:
  "get_group_membership_infos (q_db (set_group (Addr4 0xE8010203) ex_include ex_fresh)) (Addr4 0xE8010203)
     = (INCLUDE_MODE, [(Addr4 7, new_source)])"
  by (simp add: get_group_membership_infos_def set_group_def ex_fresh_def new_membership_db_def ex_include_def
      new_gaddr_info_def is_under_bakcward_compatibility_effects_def)

end
