(* ===== verification/Memberships.thy ===== *)
theory Memberships
  imports Proxy_State
begin

section \<open>Aggregation of memberships (simple_mc_proxy_routing.cpp, interface\_memberships)\<close>

text \<open>
  How the membership state of the downstream interfaces is divided among the upstream interfaces.
  \<open>interface_memberships\<close> is the list \<^verbatim>\<open>m_data\<close>: one entry per upstream interface with the source states
  that are merged for it.  \<open>accepts\<close> is the meaning of a source state: the set of sources it asks for.
\<close>

record source_state =
  ss_mc_filter :: mc_filter
  ss_source_list :: source_list

definition new_source_state :: source_state where
  "new_source_state = \<lparr>ss_mc_filter = INCLUDE_MODE, ss_source_list = []\<rparr>"

definition source_state_of :: "mc_filter \<times> source_list \<Rightarrow> source_state" where
  "source_state_of s = \<lparr>ss_mc_filter = fst s, ss_source_list = snd s\<rparr>"

type_synonym state_pair = "source_state \<times> iface"
type_synonym memberships = "(u32 \<times> source_state list) list"

definition merge_membership_infos :: "source_state \<Rightarrow> source_state \<Rightarrow> source_state" where
  "merge_membership_infos merge_to merge_from =
     (case ss_mc_filter merge_to of
        INCLUDE_MODE \<Rightarrow>
          (case ss_mc_filter merge_from of
             INCLUDE_MODE \<Rightarrow> merge_to\<lparr>ss_source_list := sl_add (ss_source_list merge_to) (ss_source_list merge_from)\<rparr>
           | EXCLUDE_MODE \<Rightarrow> \<lparr>ss_mc_filter = EXCLUDE_MODE,
                               ss_source_list = sl_sub (ss_source_list merge_from) (ss_source_list merge_to)\<rparr>)
      | EXCLUDE_MODE \<Rightarrow>
          (case ss_mc_filter merge_from of
             INCLUDE_MODE \<Rightarrow> merge_to\<lparr>ss_source_list := sl_sub (ss_source_list merge_to) (ss_source_list merge_from)\<rparr>
           | EXCLUDE_MODE \<Rightarrow> merge_to\<lparr>ss_source_list := sl_mul (ss_source_list merge_to) (ss_source_list merge_from)\<rparr>))"

text \<open>The state of every downstream interface, in the order of the container.\<close>

definition downstream_states :: "proxy_instance \<Rightarrow> addr_storage \<Rightarrow> state_pair list" where
  "downstream_states p gaddr =
     map (\<lambda>e. (source_state_of (get_group_membership_infos (q_db (di_querier (snd e))) gaddr), di_interface (snd e)))
       (p_downstreams p)"

subsection \<open>First match\<close>

text \<open>The loop over the sources of one downstream interface: the sources that stay, and the ones the input
  filter of this upstream interface rejects, which are left for the next one.\<close>

fun first_sources ::
  "proxy_instance \<Rightarrow> addr_storage \<Rightarrow> upstream_infos \<Rightarrow> iface \<Rightarrow> source_list \<Rightarrow> source_list \<Rightarrow> source_list \<times> source_list" where
  "first_sources p gaddr u d [] tmp = ([], tmp)"
| "first_sources p gaddr u d ((a, s) # l) tmp =
     (if \<not> passes_output p d (up_name p u) gaddr a then first_sources p gaddr u d l tmp
      else if \<not> passes_input p (ui_interface u) (up_name p u) gaddr a
      then first_sources p gaddr u d l (sm_insert a s tmp)
      else (let (kept, tmp) = first_sources p gaddr u d l tmp in ((a, s) # kept, tmp)))"

fun first_states ::
  "proxy_instance \<Rightarrow> addr_storage \<Rightarrow> upstream_infos \<Rightarrow> state_pair list \<Rightarrow> source_state list \<times> state_pair list" where
  "first_states p gaddr u [] = ([], [])"
| "first_states p gaddr u ((cs, d) # l) =
     (let (kept, tmp) = first_sources p gaddr u d (ss_source_list cs) [];
          (ret, rest) = first_states p gaddr u l
      in (cs\<lparr>ss_source_list := kept\<rparr> # ret,
          if tmp \<noteq> [] then (\<lparr>ss_mc_filter = ss_mc_filter cs, ss_source_list = tmp\<rparr>, d) # rest else rest))"

fun upstream_in_first ::
  "proxy_instance \<Rightarrow> addr_storage \<Rightarrow> upstream_infos list \<Rightarrow> state_pair list \<Rightarrow> memberships" where
  "upstream_in_first p gaddr [] init = []"
| "upstream_in_first p gaddr (u # us) init =
     (let (ret, rest) = first_states p gaddr u init
      in (ui_if_index u, ret) # upstream_in_first p gaddr us rest)"

definition process_upstream_in_first :: "proxy_instance \<Rightarrow> addr_storage \<Rightarrow> memberships" where
  "process_upstream_in_first p gaddr =
     upstream_in_first p gaddr (map snd (p_upstreams p)) (downstream_states p gaddr)"

subsection \<open>Mutual exclusion\<close>

text \<open>Removing a source from everything collected so far; a state without sources is erased.\<close>

definition clean_data :: "addr_storage \<Rightarrow> memberships \<Rightarrow> memberships" where
  "clean_data a data =
     map (\<lambda>e. (fst e, filter (\<lambda>s. ss_source_list s \<noteq> [])
                        (map (\<lambda>s. s\<lparr>ss_source_list := sm_erase a (ss_source_list s)\<rparr>) (snd e)))) data"

text \<open>The loop over the sources of one downstream interface.  The result is the list of the sources
  that stay for the next upstream interfaces, the sources of this one, and the collected data.\<close>

fun mutex_sources ::
  "proxy_instance \<Rightarrow> addr_storage \<Rightarrow> upstream_infos \<Rightarrow> iface \<Rightarrow> source_list \<Rightarrow> source_list \<Rightarrow> memberships
     \<Rightarrow> source_list \<times> source_list \<times> memberships" where
  "mutex_sources p gaddr u d [] tmp data = ([], tmp, data)"
| "mutex_sources p gaddr u d ((a, s) # l) tmp data =
     (if \<not> passes_output p d (up_name p u) gaddr a \<or> \<not> passes_input p (ui_interface u) (up_name p u) gaddr a then
        (let (kept, tmp, data) = mutex_sources p gaddr u d l tmp data in ((a, s) # kept, tmp, data))
      else
        (case map_of (get_interface_map (p_routing_data p) gaddr) a of
           Some i \<Rightarrow>
             (let tmp = (if is_upstream p i then sm_insert a s tmp else tmp)
              in mutex_sources p gaddr u d l tmp (clean_data a data))
         | None \<Rightarrow>
             (let (kept, tmp, data) = mutex_sources p gaddr u d l (sm_insert a s tmp) data
              in ((a, s) # kept, tmp, data))))"

fun mutex_states ::
  "proxy_instance \<Rightarrow> addr_storage \<Rightarrow> upstream_infos \<Rightarrow> state_pair list \<Rightarrow> memberships
     \<Rightarrow> source_state list \<times> state_pair list \<times> memberships" where
  "mutex_states p gaddr u [] data = ([], [], data)"
| "mutex_states p gaddr u ((cs, d) # l) data =
     (let (kept, tmp, data) = mutex_sources p gaddr u d (ss_source_list cs) [] data;
          (ret, rest, data) = mutex_states p gaddr u l data
      in (if tmp \<noteq> [] then \<lparr>ss_mc_filter = ss_mc_filter cs, ss_source_list = tmp\<rparr> # ret else ret,
          if kept \<noteq> [] then (cs\<lparr>ss_source_list := kept\<rparr>, d) # rest else rest,
          data))"

fun upstream_in_mutex ::
  "proxy_instance \<Rightarrow> addr_storage \<Rightarrow> upstream_infos list \<Rightarrow> state_pair list \<Rightarrow> memberships \<Rightarrow> memberships" where
  "upstream_in_mutex p gaddr [] ref data = data"
| "upstream_in_mutex p gaddr (u # us) ref data =
     (let (ret, ref, data) = mutex_states p gaddr u ref data
      in upstream_in_mutex p gaddr us ref (data @ [(ui_if_index u, ret)]))"

definition process_upstream_in_mutex :: "proxy_instance \<Rightarrow> addr_storage \<Rightarrow> memberships" where
  "process_upstream_in_mutex p gaddr =
     upstream_in_mutex p gaddr (map snd (p_upstreams p)) (downstream_states p gaddr) []"

definition interface_memberships :: "rb_rule_matching_type \<Rightarrow> addr_storage \<Rightarrow> proxy_instance \<Rightarrow> memberships" where
  "interface_memberships t gaddr p =
     (if t = RMT_FIRST then process_upstream_in_first p gaddr else process_upstream_in_mutex p gaddr)"

text \<open>\<open>None\<close> where the code follows the end iterator of an empty list.\<close>

definition get_group_memberships :: "u32 \<Rightarrow> memberships \<Rightarrow> (source_state \<times> memberships) option" where
  "get_group_memberships upstream_if_index data =
     (case data of
        [] \<Rightarrow> None
      | (i, l) # rest \<Rightarrow>
          if i \<noteq> upstream_if_index then Some (new_source_state, data)
          else Some (fold (\<lambda>e r. merge_membership_infos r e) l new_source_state, rest))"

subsection \<open>The meaning of a source state\<close>

definition accepts :: "source_state \<Rightarrow> addr_storage \<Rightarrow> bool" where
  "accepts s a \<longleftrightarrow> (case ss_mc_filter s of INCLUDE_MODE \<Rightarrow> a \<in> sm_keys (ss_source_list s)
                     | EXCLUDE_MODE \<Rightarrow> a \<notin> sm_keys (ss_source_list s))"

definition state_ok :: "source_state \<Rightarrow> bool" where
  "state_ok s \<longleftrightarrow> smap_ok (ss_source_list s)"

text \<open>The contract of a merge: what the result asks for is the union of what the parts ask for.  The
  result of merging a list, in any order, follows from it.\<close>

locale union_merge =
  fixes merge :: "'s \<Rightarrow> 's \<Rightarrow> 's" and meaning :: "'s \<Rightarrow> 'a \<Rightarrow> bool" and ok :: "'s \<Rightarrow> bool"
  assumes law_union: "ok s \<Longrightarrow> ok t \<Longrightarrow> meaning (merge s t) a \<longleftrightarrow> meaning s a \<or> meaning t a"
    and law_ok: "ok s \<Longrightarrow> ok t \<Longrightarrow> ok (merge s t)"
begin

lemma merge_list:
  "ok s \<Longrightarrow> \<forall>t \<in> set l. ok t \<Longrightarrow> ok (fold (\<lambda>e r. merge r e) l s)
     \<and> (meaning (fold (\<lambda>e r. merge r e) l s) a \<longleftrightarrow> meaning s a \<or> (\<exists>t \<in> set l. meaning t a))"
  by (induction l arbitrary: s) (auto simp: law_union law_ok)

lemma merge_order:
  assumes "ok s" "\<forall>t \<in> set l. ok t" "set l = set l'"
  shows "meaning (fold (\<lambda>e r. merge r e) l s) = meaning (fold (\<lambda>e r. merge r e) l' s)"
  using merge_list [OF assms(1,2)] merge_list [OF assms(1), of l'] assms by (intro ext) simp

end

interpretation mm: union_merge merge_membership_infos accepts state_ok
proof unfold_locales
  fix s t a
  assume ok: "state_ok s" "state_ok t"
  then show "accepts (merge_membership_infos s t) a \<longleftrightarrow> accepts s a \<or> accepts t a"
    by (cases "ss_mc_filter s"; cases "ss_mc_filter t")
       (auto simp: merge_membership_infos_def accepts_def state_ok_def)
  from ok show "state_ok (merge_membership_infos s t)"
    by (cases "ss_mc_filter s"; cases "ss_mc_filter t") (simp_all add: merge_membership_infos_def state_ok_def)
qed

lemma new_source_state_simps [simp]: "state_ok new_source_state" "\<not> accepts new_source_state a"
  by (simp_all add: new_source_state_def state_ok_def accepts_def)

subsection \<open>First match divides the sources\<close>

text \<open>The specification: the position of the upstream interface a source of a downstream interface is
  asked from.\<close>

fun first_upstream :: "proxy_instance \<Rightarrow> addr_storage \<Rightarrow> upstream_infos list \<Rightarrow> iface \<Rightarrow> addr_storage \<Rightarrow> nat option" where
  "first_upstream p g [] d a = None"
| "first_upstream p g (u # us) d a =
     (if \<not> passes_output p d (up_name p u) g a then None
      else if passes_input p (ui_interface u) (up_name p u) g a then Some 0
      else map_option Suc (first_upstream p g us d a))"

lemma first_sources_result:
  assumes "smap_ok tmp" "first_sources p g u d l tmp = (kept, rest)"
  shows "kept = filter (\<lambda>e. passes_output p d (up_name p u) g (fst e) \<and> passes_input p (ui_interface u) (up_name p u) g (fst e)) l
    \<and> smap_ok rest
    \<and> sm_keys rest = sm_keys tmp \<union> {a \<in> sm_keys l. passes_output p d (up_name p u) g a \<and> \<not> passes_input p (ui_interface u) (up_name p u) g a}"
  using assms
proof (induction l arbitrary: tmp kept rest)
  case (Cons e l)
  obtain a s where e: "e = (a, s)" by (cases e)
  show ?case
  proof (cases "passes_output p d (up_name p u) g a \<and> passes_input p (ui_interface u) (up_name p u) g a")
    case True
    then obtain k where "first_sources p g u d l tmp = (k, rest)" "kept = e # k"
      using Cons.prems(2) by (auto simp: e split: prod.splits)
    with Cons.IH [OF Cons.prems(1)] True show ?thesis by (auto simp: e)
  next
    case False
    then have "first_sources p g u d l (if passes_output p d (up_name p u) g a then sm_insert a s tmp else tmp) = (kept, rest)"
      using Cons.prems(2) by (auto simp: e split: if_splits)
    from Cons.IH [OF _ this] Cons.prems(1) False show ?thesis by (auto simp: e)
  qed
qed simp

definition all_include :: "state_pair list \<Rightarrow> bool" where
  "all_include l \<longleftrightarrow> (\<forall>(cs, d) \<in> set l. ss_mc_filter cs = INCLUDE_MODE \<and> state_ok cs)"

definition asked :: "state_pair list \<Rightarrow> (iface \<Rightarrow> bool) \<Rightarrow> addr_storage \<Rightarrow> bool" where
  "asked l P a \<longleftrightarrow> (\<exists>(cs, d) \<in> set l. a \<in> sm_keys (ss_source_list cs) \<and> P d)"

lemma first_states_result:
  assumes "first_states p g u l = (ret, rest)" "all_include l"
  shows "all_include rest \<and> (\<forall>s \<in> set ret. state_ok s)
    \<and> ((\<exists>s \<in> set ret. accepts s a) \<longleftrightarrow>
         asked l (\<lambda>d. passes_output p d (up_name p u) g a \<and> passes_input p (ui_interface u) (up_name p u) g a) a)
    \<and> (asked rest P a \<longleftrightarrow>
         asked l (\<lambda>d. passes_output p d (up_name p u) g a \<and> \<not> passes_input p (ui_interface u) (up_name p u) g a \<and> P d) a)"
  using assms
proof (induction l arbitrary: ret rest)
  case (Cons e l)
  obtain cs d where e: "e = (cs, d)" by (cases e)
  obtain kept tmp where f: "first_sources p g u d (ss_source_list cs) [] = (kept, tmp)" by fastforce
  obtain ret' rest' where r: "first_states p g u l = (ret', rest')" by fastforce
  have eq: "ret = cs\<lparr>ss_source_list := kept\<rparr> # ret'"
    "rest = (if tmp \<noteq> [] then (\<lparr>ss_mc_filter = ss_mc_filter cs, ss_source_list = tmp\<rparr>, d) # rest' else rest')"
    using Cons.prems(1) by (auto simp: e f r)
  have inc: "ss_mc_filter cs = INCLUDE_MODE" "state_ok cs" "all_include l"
    using Cons.prems(2) by (auto simp: e all_include_def)
  note fs = first_sources_result [OF smap_ok_Nil f]
  note ih = Cons.IH [OF r inc(3)]
  have kept: "a \<in> sm_keys kept \<longleftrightarrow> a \<in> sm_keys (ss_source_list cs) \<and> passes_output p d (up_name p u) g a
      \<and> passes_input p (ui_interface u) (up_name p u) g a" "smap_ok kept"
    using fs inc(2) by (auto simp: sm_keys_def state_ok_def)
  have tmp: "a \<in> sm_keys tmp \<longleftrightarrow> a \<in> sm_keys (ss_source_list cs) \<and> passes_output p d (up_name p u) g a
      \<and> \<not> passes_input p (ui_interface u) (up_name p u) g a" "smap_ok tmp"
    using fs by auto
  have "all_include rest" using ih tmp(2) inc by (auto simp: eq all_include_def state_ok_def)
  moreover have "asked rest P a \<longleftrightarrow> a \<in> sm_keys tmp \<and> P d \<or> asked rest' P a"
    by (auto simp: eq asked_def)
  moreover have "(\<exists>s \<in> set ret. accepts s a) \<longleftrightarrow> a \<in> sm_keys kept \<or> (\<exists>s \<in> set ret'. accepts s a)"
    by (simp add: eq accepts_def inc)
  ultimately show ?case
    using ih kept tmp(1) by (auto simp: eq e asked_def state_ok_def)
qed (simp add: all_include_def asked_def)

lemma upstream_in_first_result:
  assumes "all_include l" "k < length us"
  shows "\<exists>ret. upstream_in_first p g us l ! k = (ui_if_index (us ! k), ret) \<and> (\<forall>s \<in> set ret. state_ok s)
    \<and> ((\<exists>s \<in> set ret. accepts s a) \<longleftrightarrow> asked l (\<lambda>d. first_upstream p g us d a = Some k) a)"
  using assms
proof (induction us arbitrary: l k)
  case (Cons u us)
  obtain ret rest where r: "first_states p g u l = (ret, rest)" by fastforce
  show ?case
  proof (cases k)
    case 0
    have "(\<lambda>d. first_upstream p g (u # us) d a = Some 0) =
        (\<lambda>d. passes_output p d (up_name p u) g a \<and> passes_input p (ui_interface u) (up_name p u) g a)"
      by (intro ext) auto
    with first_states_result [OF r Cons.prems(1), of a] 0 r show ?thesis by simp
  next
    case (Suc j)
    have inc: "all_include rest" using first_states_result [OF r Cons.prems(1)] by blast
    from Cons.IH [OF inc, of j] Cons.prems(2) Suc obtain ret' where
      r': "upstream_in_first p g us rest ! j = (ui_if_index (us ! j), ret')" "\<forall>s \<in> set ret'. state_ok s"
        "(\<exists>s \<in> set ret'. accepts s a) \<longleftrightarrow> asked rest (\<lambda>d. first_upstream p g us d a = Some j) a"
      by auto
    have "(\<lambda>d. first_upstream p g (u # us) d a = Some (Suc j)) =
        (\<lambda>d. passes_output p d (up_name p u) g a \<and> \<not> passes_input p (ui_interface u) (up_name p u) g a
          \<and> first_upstream p g us d a = Some j)"
      by (intro ext) auto
    with first_states_result [OF r Cons.prems(1), of a "\<lambda>d. first_upstream p g us d a = Some j"] r' Suc r
    show ?thesis by simp
  qed
qed simp

lemma upstream_in_first_length [simp]: "length (upstream_in_first p g us l) = length us"
  by (induction us arbitrary: l) (auto split: prod.splits)

lemma first_upstream_unique:
  "first_upstream p g us d a = Some j \<Longrightarrow> first_upstream p g us d' a = Some k \<Longrightarrow> j = k"
proof (induction us arbitrary: j k)
  case (Cons u us)
  then show ?case by (cases "passes_input p (ui_interface u) (up_name p u) g a") (auto split: if_splits)
qed simp

subsection \<open>Mutual exclusion keeps a known source on one upstream interface\<close>

definition named :: "addr_storage \<Rightarrow> source_state list \<Rightarrow> bool" where
  "named a l \<longleftrightarrow> (\<exists>s \<in> set l. a \<in> sm_keys (ss_source_list s))"

definition holders :: "addr_storage \<Rightarrow> memberships \<Rightarrow> memberships" where
  "holders a data = filter (\<lambda>e. named a (snd e)) data"

lemma holders_clean: "length (holders a (clean_data b data)) \<le> length (holders a data) \<and> holders a (clean_data a data) = []"
proof -
  have "named a (snd ((\<lambda>e. (fst e, filter (\<lambda>s. ss_source_list s \<noteq> [])
      (map (\<lambda>s. s\<lparr>ss_source_list := sm_erase b (ss_source_list s)\<rparr>) (snd e)))) e)) \<Longrightarrow> named a (snd e)" for e :: "u32 \<times> source_state list"
    by (auto simp: named_def)
  then have "length (holders a (clean_data b data)) \<le> length (holders a data)"
    unfolding holders_def clean_data_def by (induction data) auto
  moreover have "holders a (clean_data a data) = []"
    by (auto simp: holders_def clean_data_def named_def filter_empty_conv)
  ultimately show ?thesis by blast
qed

lemma mutex_sources_known:
  assumes "map_of (get_interface_map (p_routing_data p) g) a = Some i"
    and "mutex_sources p g u d l tmp data = (kept, tmp', data')"
  shows "length (holders a data') \<le> length (holders a data)
    \<and> (a \<in> sm_keys tmp' \<longrightarrow> a \<in> sm_keys tmp \<or> is_upstream p i \<and> holders a data' = [])"
  using assms(2)
proof (induction l arbitrary: tmp data kept tmp' data')
  case (Cons e l)
  obtain b s where e: "e = (b, s)" by (cases e)
  let ?skip = "\<not> passes_output p d (up_name p u) g b \<or> \<not> passes_input p (ui_interface u) (up_name p u) g b"
  have step: "length (holders a data') \<le> length (holders a dt)
      \<and> (a \<in> sm_keys tmp' \<longrightarrow> a \<in> sm_keys t \<or> is_upstream p i \<and> holders a data' = [])"
    if "mutex_sources p g u d l t dt = (k, tmp', data')" for t dt k
    using Cons.IH [OF that] .
  consider (skip) ?skip | (new) "\<not> ?skip" "map_of (get_interface_map (p_routing_data p) g) b = None"
    | (known) j where "\<not> ?skip" "map_of (get_interface_map (p_routing_data p) g) b = Some j" by fastforce
  then show ?case
  proof cases
    case skip
    with Cons.prems obtain k where "mutex_sources p g u d l tmp data = (k, tmp', data')"
      by (auto simp: e split: prod.splits)
    from step [OF this] show ?thesis .
  next
    case new
    with Cons.prems obtain k where "mutex_sources p g u d l (sm_insert b s tmp) data = (k, tmp', data')"
      by (auto simp: e split: prod.splits)
    moreover have "b \<noteq> a" using new assms(1) by auto
    ultimately show ?thesis using step by fastforce
  next
    case known
    then have "mutex_sources p g u d l (if is_upstream p j then sm_insert b s tmp else tmp) (clean_data b data) = (kept, tmp', data')"
      using Cons.prems by (simp add: e)
    note st = step [OF this]
    have le: "length (holders a data') \<le> length (holders a data)" using st holders_clean [of a b data] by linarith
    have "a \<in> sm_keys tmp \<or> is_upstream p i \<and> holders a data' = []" if "a \<in> sm_keys tmp'"
    proof (cases "b = a")
      case True
      then have "holders a data' = []" using st holders_clean [of a b data] by simp
      with st that True known assms(1) show ?thesis by (auto split: if_splits)
    next
      case False
      with st that show ?thesis by (auto split: if_splits)
    qed
    with le show ?thesis by blast
  qed
qed simp

lemma mutex_states_known:
  assumes "map_of (get_interface_map (p_routing_data p) g) a = Some i"
    and "mutex_states p g u l data = (ret, rest, data')"
  shows "length (holders a data') \<le> length (holders a data) \<and> (named a ret \<longrightarrow> is_upstream p i \<and> holders a data' = [])"
  using assms(2)
proof (induction l arbitrary: data ret rest data')
  case (Cons e l)
  obtain cs d where e: "e = (cs, d)" by (cases e)
  obtain kept tmp dt where m: "mutex_sources p g u d (ss_source_list cs) [] data = (kept, tmp, dt)" by (metis prod_cases3)
  obtain ret' rest' where r: "mutex_states p g u l dt = (ret', rest', data')"
    and ret: "ret = (if tmp \<noteq> [] then \<lparr>ss_mc_filter = ss_mc_filter cs, ss_source_list = tmp\<rparr> # ret' else ret')"
    using Cons.prems by (auto simp: e m split: prod.splits)
  from mutex_sources_known [OF assms(1) m] Cons.IH [OF r] show ?case by (auto simp: ret named_def)
qed (simp add: named_def)

lemma upstream_in_mutex_known:
  assumes "map_of (get_interface_map (p_routing_data p) g) a = Some i" "length (holders a data) \<le> 1"
  shows "length (holders a (upstream_in_mutex p g us ref data)) \<le> 1
    \<and> (\<not> is_upstream p i \<longrightarrow> holders a data = [] \<longrightarrow> holders a (upstream_in_mutex p g us ref data) = [])"
  using assms(2)
proof (induction us arbitrary: ref data)
  case (Cons u us)
  obtain ret ref' data' where m: "mutex_states p g u ref data = (ret, ref', data')" by (metis prod_cases3)
  have h: "holders a (data' @ [(ui_if_index u, ret)]) = holders a data' @ (if named a ret then [(ui_if_index u, ret)] else [])"
    by (simp add: holders_def)
  have one: "length (holders a (data' @ [(ui_if_index u, ret)])) \<le> 1"
    and none: "\<not> is_upstream p i \<Longrightarrow> holders a data = [] \<Longrightarrow> holders a (data' @ [(ui_if_index u, ret)]) = []"
    using mutex_states_known [OF assms(1) m] Cons.prems unfolding h by auto
  from Cons.IH [OF one] none m show ?case by auto
qed simp

subsection \<open>Properties\<close>

text \<open>What an upstream interface is asked for after the states collected for it have been merged.\<close>

definition requested_at :: "memberships \<Rightarrow> nat \<Rightarrow> addr_storage \<Rightarrow> bool" where
  "requested_at data k a \<longleftrightarrow>
     (case get_group_memberships (fst (data ! k)) (drop k data) of None \<Rightarrow> False | Some (s, rest) \<Rightarrow> accepts s a)"

lemma requested_at_merge:
  assumes "k < length data" "\<forall>s \<in> set (snd (data ! k)). state_ok s"
  shows "requested_at data k a \<longleftrightarrow> (\<exists>s \<in> set (snd (data ! k)). accepts s a)"
proof -
  have "drop k data = (fst (data ! k), snd (data ! k)) # drop (Suc k) data" using assms(1) by (simp add: Cons_nth_drop_Suc)
  with mm.merge_list [of new_source_state "snd (data ! k)" a] assms(2) show ?thesis
    by (cases "data ! k") (simp add: requested_at_def get_group_memberships_def)
qed

text \<open>C11: The record sent upstream asks for exactly the sources that one of the collected states asks
  for, in include and in exclude mode, and the order of the states does not matter.\<close>

theorem memberships_union:
  assumes "\<forall>s \<in> set l. state_ok s"
  shows "\<exists>r. get_group_memberships i ((i, l) # rest) = Some (r, rest) \<and> state_ok r
      \<and> (\<forall>a. accepts r a \<longleftrightarrow> (\<exists>s \<in> set l. accepts s a))"
  using mm.merge_list [of new_source_state l] assms by (simp add: get_group_memberships_def)

definition ex_states :: "source_state list" where
  "ex_states = [\<lparr>ss_mc_filter = INCLUDE_MODE, ss_source_list = [(Addr4 1, new_source)]\<rparr>,
                \<lparr>ss_mc_filter = EXCLUDE_MODE, ss_source_list = [(Addr4 1, new_source), (Addr4 2, new_source)]\<rparr>]"

lemma memberships_union_witness:
  "\<exists>r. get_group_memberships 3 [(3, ex_states)] = Some (r, []) \<and> accepts r (Addr4 1) \<and> \<not> accepts r (Addr4 2)"
proof -
  have "\<forall>s \<in> set ex_states. state_ok s" by (simp add: ex_states_def state_ok_def less_addr_storage_def)
  from memberships_union [OF this, of 3 "[]"] show ?thesis by (auto simp: ex_states_def accepts_def)
qed

text \<open>C28: With first match, while all downstream interfaces are in include mode, a source is asked for on the
  upstream interface that the first match selects, whichever downstream interface asks for it, and on no
  other.\<close>

theorem first_match_division:
  assumes "all_include (downstream_states p g)" "k < length (p_upstreams p)"
  shows "fst (process_upstream_in_first p g ! k) = ui_if_index (snd (p_upstreams p ! k))
    \<and> (requested_at (process_upstream_in_first p g) k a \<longleftrightarrow>
         asked (downstream_states p g) (\<lambda>d. first_upstream p g (map snd (p_upstreams p)) d a = Some k) a)
    \<and> (\<forall>j < length (p_upstreams p). requested_at (process_upstream_in_first p g) j a
         \<and> requested_at (process_upstream_in_first p g) k a \<longrightarrow> j = k)"
proof -
  let ?us = "map snd (p_upstreams p)"
  have req: "fst (process_upstream_in_first p g ! j) = ui_if_index (snd (p_upstreams p ! j))
      \<and> (requested_at (process_upstream_in_first p g) j a \<longleftrightarrow>
          asked (downstream_states p g) (\<lambda>d. first_upstream p g ?us d a = Some j) a)" if "j < length (p_upstreams p)" for j
  proof -
    from upstream_in_first_result [OF assms(1), of j ?us p g a] that obtain ret where
      "process_upstream_in_first p g ! j = (ui_if_index (snd (p_upstreams p ! j)), ret)" "\<forall>s \<in> set ret. state_ok s"
      "(\<exists>s \<in> set ret. accepts s a) \<longleftrightarrow> asked (downstream_states p g) (\<lambda>d. first_upstream p g ?us d a = Some j) a"
      by (auto simp: process_upstream_in_first_def)
    with requested_at_merge [of j "process_upstream_in_first p g" a] that show ?thesis
      by (simp add: process_upstream_in_first_def)
  qed
  moreover have "j = k" if "asked (downstream_states p g) (\<lambda>d. first_upstream p g ?us d a = Some j) a"
      "asked (downstream_states p g) (\<lambda>d. first_upstream p g ?us d a = Some k) a" for j
    using that by (auto simp: asked_def dest: first_upstream_unique)
  ultimately show ?thesis using assms(2) by blast
qed

lemma ex_downstream_states:
  "downstream_states (ex_instance ex_include) (Addr4 0xE8010203) =
     [(\<lparr>ss_mc_filter = INCLUDE_MODE, ss_source_list = [(Addr4 7, new_source)]\<rparr>, new_interface ''eth0'')]"
proof -
  have "p_downstreams (ex_instance ex_include) =
      [(2, \<lparr>di_querier = set_group (Addr4 0xE8010203) ex_include ex_fresh, di_interface = new_interface ''eth0''\<rparr>)]"
    by (simp add: ex_instance_def)
  then show ?thesis by (simp add: downstream_states_def ex_group_infos source_state_of_def)
qed

lemma first_match_division_witness:
  "requested_at (process_upstream_in_first (ex_instance ex_include) (Addr4 0xE8010203)) 0 (Addr4 7)
   \<and> \<not> requested_at (process_upstream_in_first (ex_instance ex_include) (Addr4 0xE8010203)) 1 (Addr4 7)"
proof -
  have inc: "all_include (downstream_states (ex_instance ex_include) (Addr4 0xE8010203))"
    by (simp add: ex_downstream_states all_include_def state_ok_def)
  obtain u u' where us: "map snd (p_upstreams (ex_instance ex_include)) = [u, u']" "ui_interface u = new_interface ''eth1''"
    "length (p_upstreams (ex_instance ex_include)) = 2"
    by (simp add: ex_instance_def)
  show ?thesis
    using first_match_division [OF inc, of 0 "Addr4 7"] first_match_division [OF inc, of 1 "Addr4 7"]
    by (simp add: us ex_downstream_states asked_def)
qed

text \<open>C29: With mutual exclusion, a source that is known to arrive on some interface is named in the states of at
  most one upstream interface, and of none while it arrives on an interface that is no upstream.\<close>

theorem mutex_exclusive:
  assumes "known_interface (p_routing_data p) g a = Some i"
  shows "length (holders a (process_upstream_in_mutex p g)) \<le> 1
    \<and> (\<not> is_upstream p i \<longrightarrow> holders a (process_upstream_in_mutex p g) = [])"
  using upstream_in_mutex_known [of p g a i "[]"] assms
  by (simp add: process_upstream_in_mutex_def known_interface_def holders_def)

lemma mutex_exclusive_witness:
  "holders (Addr4 7) (process_upstream_in_mutex (ex_instance ex_include\<lparr>p_routing_data :=
      set_source (\<lambda>s g. None) 2 (Addr4 0xE8010203) (Addr4 7) new_source (new_routing_data IGMPv3)\<rparr>) (Addr4 0xE8010203)) = []"
proof -
  let ?rd = "set_source (\<lambda>s g. None) 2 (Addr4 0xE8010203) (Addr4 7) new_source (new_routing_data IGMPv3)"
  let ?p = "ex_instance ex_include\<lparr>p_routing_data := ?rd\<rparr>"
  have "rd_ok (new_routing_data IGMPv3)" by (simp add: rd_ok_def new_routing_data_def)
  then have "known_interface (p_routing_data ?p) (Addr4 0xE8010203) (Addr4 7) = Some 2" by (simp add: known_set_source)
  moreover have "\<not> is_upstream ?p 2" by (simp add: is_upstream_def ex_instance_def)
  ultimately show ?thesis using mutex_exclusive by blast
qed

end
