(* ===== verification/Mc_Proxy_Routing.thy ===== *)
theory Mc_Proxy_Routing
  imports Memberships
begin

section \<open>The routing management (simple_mc_proxy_routing.cpp)\<close>

text \<open>
  The reactions to new sources, to changes of the memberships and to the timers of sources: routes are
  calculated and handed to the kernel, and memberships are aggregated and reported upstream.  The
  operations only change the routing data of the instance and the world; \<open>stats\<close> are the packet
  counters of the kernel at the time of the event.
\<close>

definition get_source_life_time :: int where
  "get_source_life_time = 20"      \<comment> \<open>seconds\<close>

definition is_rule_matching_type ::
  "proxy_instance \<Rightarrow> rb_interface_type \<Rightarrow> rb_interface_direction \<Rightarrow> rb_rule_matching_type \<Rightarrow> bool" where
  "is_rule_matching_type p ity dir rmt =
     (if ity = IT_UPSTREAM then
        (if dir = ID_IN then rb_rule_matching_type (p_upstream_input_rule p) = rmt
         else if dir = ID_OUT then rb_rule_matching_type (p_upstream_output_rule p) = rmt
         else False)
      else False)"

definition check_interface ::
  "proxy_instance \<Rightarrow> rb_interface_type \<Rightarrow> rb_interface_direction \<Rightarrow> u32 \<Rightarrow> u32 \<Rightarrow> addr_storage \<Rightarrow> addr_storage \<Rightarrow> bool" where
  "check_interface p ity dir checking_if_index input_if_index gaddr saddr =
     (let interf = (case ity of
           IT_UPSTREAM \<Rightarrow>
             map_option (\<lambda>e. ui_interface (snd e)) (List.find (\<lambda>e. ui_if_index (snd e) = checking_if_index) (p_upstreams p))
         | IT_DOWNSTREAM \<Rightarrow> map_option di_interface (map_of (p_downstreams p) checking_if_index))
      in case interf of
           None \<Rightarrow> False
         | Some i \<Rightarrow>
             (let name = get_if_name (p_names p) input_if_index
              in if name = [] then False
                 else if dir = ID_IN then passes_input p i name gaddr saddr
                 else if dir = ID_OUT then passes_output p i name gaddr saddr
                 else False))"

subsection \<open>Route calculation\<close>

text \<open>The upstream interfaces of a source that arrives on a downstream interface: all that pass, or the
  first one.\<close>

fun upstream_outputs :: "proxy_instance \<Rightarrow> addr_storage \<Rightarrow> addr_storage \<Rightarrow> u32 \<Rightarrow> upstream_infos list \<Rightarrow> u32 list" where
  "upstream_outputs p gaddr a input [] = []"
| "upstream_outputs p gaddr a input (u # us) =
     (if check_interface p IT_UPSTREAM ID_OUT (ui_if_index u) input gaddr a then
        (if is_rule_matching_type p IT_UPSTREAM ID_OUT RMT_ALL then ui_if_index u # upstream_outputs p gaddr a input us
         else if is_rule_matching_type p IT_UPSTREAM ID_OUT RMT_FIRST then [ui_if_index u]
         else upstream_outputs p gaddr a input us)
      else upstream_outputs p gaddr a input us)"

text \<open>The first loop; a source without an input interface ends it.\<close>

fun collect_upstreams :: "proxy_instance \<Rightarrow> addr_storage \<Rightarrow> addr_storage list \<Rightarrow> bool \<times> forward_list" where
  "collect_upstreams p gaddr [] = (True, [])"
| "collect_upstreams p gaddr (a # as) =
     (case map_of (get_interface_map (p_routing_data p) gaddr) a of
        None \<Rightarrow> (False, [])
      | Some input \<Rightarrow>
          (let outs = (if is_downstream p input then upstream_outputs p gaddr a input (map snd (p_upstreams p)) else []);
               (rc, rest) = collect_upstreams p gaddr as
           in (rc, (a, outs) # rest)))"

definition downstream_filter :: "proxy_instance \<Rightarrow> addr_storage \<Rightarrow> u32 \<Rightarrow> addr_storage \<Rightarrow> bool" where
  "downstream_filter p gaddr output_if_index saddr =
     (case map_of (get_interface_map (p_routing_data p) gaddr) saddr of
        None \<Rightarrow> False
      | Some input \<Rightarrow>
          if output_if_index \<noteq> input then check_interface p IT_DOWNSTREAM ID_OUT output_if_index input gaddr saddr
          else False)"

definition collect_interested_interfaces :: "proxy_instance \<Rightarrow> addr_storage \<Rightarrow> addr_storage list \<Rightarrow> forward_list" where
  "collect_interested_interfaces p gaddr slist =
     (let (rc, rt_list) = collect_upstreams p gaddr slist
      in if \<not> rc then rt_list
         else fold (\<lambda>e rt. suggest_to_forward_traffic (di_querier (snd e)) gaddr rt (downstream_filter p gaddr (fst e)))
                (p_downstreams p) rt_list)"

definition del_route :: "proxy_instance \<Rightarrow> u32 \<Rightarrow> addr_storage \<Rightarrow> addr_storage \<Rightarrow> world \<Rightarrow> world" where
  "del_route p if_index gaddr saddr w =
     snd (routing_del_route (get_virtual_if_index (p_interfaces p) if_index) gaddr saddr w)"

definition use_input_interface :: "proxy_instance \<Rightarrow> u32 \<Rightarrow> addr_storage \<Rightarrow> addr_storage \<Rightarrow> bool" where
  "use_input_interface p input gaddr saddr \<longleftrightarrow>
     (is_upstream p input \<and> check_interface p IT_UPSTREAM ID_IN input input gaddr saddr)
   \<or> (is_downstream p input \<and> check_interface p IT_DOWNSTREAM ID_IN input input gaddr saddr)"

definition set_route :: "proxy_instance \<Rightarrow> addr_storage \<Rightarrow> addr_storage \<times> u32 list \<Rightarrow> world \<Rightarrow> world" where
  "set_route p gaddr e w =
     (case map_of (get_interface_map (p_routing_data p) gaddr) (fst e) of
        None \<Rightarrow> w
      | Some input \<Rightarrow>
          (if snd e = [] then del_route p input gaddr (fst e) w
           else if use_input_interface p input gaddr (fst e) then
             snd (add_route (p_routing p) (get_virtual_if_index (p_interfaces p) input) gaddr (fst e)
                    (map (get_virtual_if_index (p_interfaces p)) (snd e)) w)
           else w))"

definition set_routes :: "proxy_instance \<Rightarrow> addr_storage \<Rightarrow> forward_list \<Rightarrow> world \<Rightarrow> world" where
  "set_routes p gaddr output_if_index w = fold (set_route p gaddr) output_if_index w"

subsection \<open>Membership aggregation\<close>

fun send_records ::
  "proxy_instance \<Rightarrow> addr_storage \<Rightarrow> upstream_infos list \<Rightarrow> memberships \<Rightarrow> world \<Rightarrow> world" where
  "send_records p gaddr [] im w = w"
| "send_records p gaddr (u # us) im w =
     (case get_group_memberships (ui_if_index u) im of
        None \<Rightarrow> crash w
      | Some (s, im) \<Rightarrow>
          send_records p gaddr us im
            (snd (send_record (p_sender p) (ui_if_index u) (ss_mc_filter s) gaddr (ss_source_list s) w)))"

definition process_membership_aggregation ::
  "rb_rule_matching_type \<Rightarrow> addr_storage \<Rightarrow> proxy_instance \<Rightarrow> world \<Rightarrow> world" where
  "process_membership_aggregation t gaddr p w =
     (if t = RMT_FIRST \<or> t = RMT_MUTEX
      then send_records p gaddr (map snd (p_upstreams p)) (interface_memberships t gaddr p) w else w)"

subsection \<open>Events\<close>

definition set_source_timer ::
  "proxy_instance \<Rightarrow> u32 \<Rightarrow> addr_storage \<Rightarrow> addr_storage \<Rightarrow> world \<Rightarrow> timer_msg \<times> world" where
  "set_source_timer p if_index gaddr saddr w =
     (let life_time = (if is_upstream p if_index \<and> is_rule_matching_type p IT_UPSTREAM ID_IN RMT_MUTEX
                       then rb_timeout (p_upstream_input_rule p) else get_source_life_time * 1000);
          (nst, w) = make_timer NEW_SOURCE_TIMER_MSG if_index gaddr saddr life_time w
      in (nst, add_time (get_source_life_time * 1000) (p_worker p) nst w))"

record new_source_msg =
  ns_if_index :: u32
  ns_gaddr :: addr_storage
  ns_saddr :: addr_storage

definition event_new_source ::
  "mroute_stats \<Rightarrow> new_source_msg \<Rightarrow> proxy_instance \<Rightarrow> world \<Rightarrow> proxy_instance \<times> world" where
  "event_new_source stats sm p w =
     (let (t, w) = set_source_timer p (ns_if_index sm) (ns_gaddr sm) (ns_saddr sm) w;
          s = new_source\<lparr>shared_source_timer := Some t\<rparr>;
          p = p\<lparr>p_routing_data := set_source stats (ns_if_index sm) (ns_gaddr sm) (ns_saddr sm) s (p_routing_data p)\<rparr>;
          w = set_routes p (ns_gaddr sm) (collect_interested_interfaces p (ns_gaddr sm) [ns_saddr sm]) w
      in (p, if is_rule_matching_type p IT_UPSTREAM ID_IN RMT_MUTEX
             then process_membership_aggregation RMT_MUTEX (ns_gaddr sm) p w else w))"

definition event_querier_state_change :: "addr_storage \<Rightarrow> proxy_instance \<Rightarrow> world \<Rightarrow> world" where
  "event_querier_state_change gaddr p w =
     (let w = set_routes p gaddr
                (collect_interested_interfaces p gaddr (map fst (get_available_sources (p_routing_data p) gaddr))) w
      in if is_rule_matching_type p IT_UPSTREAM ID_IN RMT_FIRST then process_membership_aggregation RMT_FIRST gaddr p w
         else if is_rule_matching_type p IT_UPSTREAM ID_IN RMT_MUTEX
         then process_membership_aggregation RMT_MUTEX gaddr p w
         else w)"

text \<open>The message is outdated when no other reference to it is left; the other references are the one of
  the routing data and, while \<open>shared\<close> holds, the one of the timing thread.\<close>

definition rd_refers :: "simple_routing_data \<Rightarrow> nat \<Rightarrow> bool" where
  "rd_refers rd ptr \<longleftrightarrow> list_ex (\<lambda>e. slist_refers (m_source_list (snd e)) ptr) (rd_data rd)"

definition timer_triggerd_maintain_routing_table ::
  "mroute_stats \<Rightarrow> bool \<Rightarrow> timer_msg \<Rightarrow> proxy_instance \<Rightarrow> world \<Rightarrow> proxy_instance \<times> world" where
  "timer_triggerd_maintain_routing_table stats shared msg p w =
     (if \<not> (rd_refers (p_routing_data p) (tm_ptr msg) \<or> shared) then (p, w)
      else if tm_type msg = NEW_SOURCE_TIMER_MSG then
        (case map_of (get_available_sources (p_routing_data p) (tm_gaddr msg)) (tm_saddr msg) of
           None \<Rightarrow> (p, w)
         | Some s \<Rightarrow>
             (if refers (shared_source_timer s) (tm_ptr msg) then
                (let (rc, rd) = refresh_source_or_del_it_if_unused stats (tm_gaddr msg) (tm_saddr msg) (p_routing_data p);
                     p = p\<lparr>p_routing_data := rd\<rparr>
                 in if \<not> rc then
                      (let w = del_route p (tm_if_index msg) (tm_gaddr msg) (tm_saddr msg) w
                       in (p, if is_rule_matching_type p IT_UPSTREAM ID_IN RMT_MUTEX
                              then process_membership_aggregation RMT_MUTEX (tm_gaddr msg) p w else w))
                    else
                      (let (t, w) = set_source_timer p (tm_if_index msg) (tm_gaddr msg) (tm_saddr msg) w
                       in (p\<lparr>p_routing_data := set_shared_source_timer (tm_gaddr msg) (tm_saddr msg) t (p_routing_data p)\<rparr>, w)))
              else (p, w)))
      else (p, w))"

end
