(* ===== verification/Routes.thy ===== *)
theory Routes
  imports Mc_Proxy_Routing
begin

section \<open>Properties of the calculated routes\<close>

text \<open>
  What the routing management hands to the kernel.  \<open>inst_ok\<close> is the invariant of a proxy instance;
  \<open>wanted_outputs\<close> states which interfaces a source is forwarded to, and \<open>route_event\<close> the call of the
  kernel that follows.
\<close>

definition inst_ok :: "proxy_instance \<Rightarrow> bool" where
  "inst_ok p \<longleftrightarrow> smap_ok (p_upstreams p) \<and> smap_ok (p_downstreams p) \<and> rd_ok (p_routing_data p)
     \<and> ifs_ok (p_interfaces p) \<and> routing_ok (p_routing p)
     \<and> distinct (map (\<lambda>e. ui_if_index (snd e)) (p_upstreams p))
     \<and> (\<forall>e \<in> set (p_upstreams p). ui_if_index (snd e) \<in> registered (p_interfaces p))
     \<and> (\<forall>e \<in> set (p_downstreams p). q_if_index (di_querier (snd e)) = fst e \<and> fst e \<in> registered (p_interfaces p))"

definition sources_registered :: "proxy_instance \<Rightarrow> bool" where
  "sources_registered p \<longleftrightarrow>
     (\<forall>g a i. known_interface (p_routing_data p) g a = Some i \<longrightarrow> i \<in> registered (p_interfaces p))"

definition up_passes :: "proxy_instance \<Rightarrow> addr_storage \<Rightarrow> addr_storage \<Rightarrow> u32 \<Rightarrow> upstream_infos \<Rightarrow> bool" where
  "up_passes p g a input u \<longleftrightarrow> check_interface p IT_UPSTREAM ID_OUT (ui_if_index u) input g a"

definition wanted_upstreams :: "proxy_instance \<Rightarrow> addr_storage \<Rightarrow> addr_storage \<Rightarrow> u32 \<Rightarrow> u32 list" where
  "wanted_upstreams p g a input =
     (let us = map ui_if_index (filter (up_passes p g a input) (map snd (p_upstreams p)))
      in if \<not> is_downstream p input then []
         else case rb_rule_matching_type (p_upstream_output_rule p) of
                RMT_ALL \<Rightarrow> us | RMT_FIRST \<Rightarrow> take 1 us | _ \<Rightarrow> [])"

definition wanted_downstreams :: "proxy_instance \<Rightarrow> addr_storage \<Rightarrow> addr_storage \<Rightarrow> u32 \<Rightarrow> u32 list" where
  "wanted_downstreams p g a input =
     map fst (filter (\<lambda>e. fst e \<noteq> input \<and> is_querier (q_db (di_querier (snd e))) \<and> requests (di_querier (snd e)) g a
                          \<and> check_interface p IT_DOWNSTREAM ID_OUT (fst e) input g a) (p_downstreams p))"

definition wanted_outputs :: "proxy_instance \<Rightarrow> addr_storage \<Rightarrow> addr_storage \<Rightarrow> u32 list" where
  "wanted_outputs p g a =
     (case known_interface (p_routing_data p) g a of
        None \<Rightarrow> []
      | Some input \<Rightarrow> wanted_upstreams p g a input @ wanted_downstreams p g a input)"

lemma upstream_outputs_eq:
  "upstream_outputs p g a input us =
     (case rb_rule_matching_type (p_upstream_output_rule p) of
        RMT_ALL \<Rightarrow> map ui_if_index (filter (up_passes p g a input) us)
      | RMT_FIRST \<Rightarrow> take 1 (map ui_if_index (filter (up_passes p g a input) us)) | _ \<Rightarrow> [])"
  by (cases "rb_rule_matching_type (p_upstream_output_rule p)"; induction us)
     (simp_all add: is_rule_matching_type_def up_passes_def)

lemma outputs_wanted:
  "(if is_downstream p input then upstream_outputs p g a input (map snd (p_upstreams p)) else []) = wanted_upstreams p g a input"
  by (simp add: wanted_upstreams_def upstream_outputs_eq Let_def)

lemma collect_upstreams_eq:
  assumes "\<forall>a \<in> set as. known_interface (p_routing_data p) g a \<noteq> None"
  shows "collect_upstreams p g as =
     (True, map (\<lambda>a. (a, wanted_upstreams p g a (the (known_interface (p_routing_data p) g a)))) as)"
  using assms
proof (induction as)
  case (Cons a as)
  from Cons.prems obtain input where "map_of (get_interface_map (p_routing_data p) g) a = Some input"
    by (auto simp: known_interface_def)
  with Cons show ?case by (simp add: known_interface_def outputs_wanted)
qed simp

lemma suggest_fold:
  assumes "\<forall>e \<in> set ds. q_if_index (di_querier (snd e)) = fst e"
  shows "fold (\<lambda>e rt. suggest_to_forward_traffic (di_querier (snd e)) g rt (f (fst e))) ds l =
     map (\<lambda>(a, is). (a, is @ map fst (filter (\<lambda>e. is_querier (q_db (di_querier (snd e))) \<and> f (fst e) a
            \<and> requests (di_querier (snd e)) g a) ds))) l"
  using assms by (induction ds arbitrary: l) (auto simp: suggest_rule)

lemma collect_eq:
  assumes "inst_ok p" "\<forall>a \<in> set as. known_interface (p_routing_data p) g a \<noteq> None"
  shows "collect_interested_interfaces p g as = map (\<lambda>a. (a, wanted_outputs p g a)) as"
proof -
  have q: "\<forall>e \<in> set (p_downstreams p). q_if_index (di_querier (snd e)) = fst e" using assms(1) by (simp add: inst_ok_def)
  have eq: "(\<lambda>e. is_querier (q_db (di_querier (snd e))) \<and> downstream_filter p g (fst e) a \<and> requests (di_querier (snd e)) g a)
      = (\<lambda>e. fst e \<noteq> input \<and> is_querier (q_db (di_querier (snd e))) \<and> requests (di_querier (snd e)) g a
             \<and> check_interface p IT_DOWNSTREAM ID_OUT (fst e) input g a)"
    if "known_interface (p_routing_data p) g a = Some input" for a input
    using that by (intro ext) (auto simp: downstream_filter_def known_interface_def)
  have "wanted_upstreams p g a (the (known_interface (p_routing_data p) g a)) @
      map fst (filter (\<lambda>e. is_querier (q_db (di_querier (snd e))) \<and> downstream_filter p g (fst e) a \<and> requests (di_querier (snd e)) g a)
        (p_downstreams p)) = wanted_outputs p g a" if m: "a \<in> set as" for a
  proof -
    obtain input where k: "known_interface (p_routing_data p) g a = Some input" using assms(2) m by auto
    show ?thesis unfolding eq [OF k] by (simp add: k wanted_outputs_def wanted_downstreams_def)
  qed
  then show ?thesis
    by (simp add: collect_interested_interfaces_def collect_upstreams_eq [OF assms(2)] suggest_fold [OF q])
qed

text \<open>C9: A known source is forwarded to exactly the interfaces that want it: from a downstream interface to
  the upstream interfaces that pass it (all or the first), and from any interface to the other downstream
  interfaces whose querier requests it and whose filter passes it.\<close>

theorem interested_interfaces:
  assumes "inst_ok p" "\<forall>a \<in> set as. known_interface (p_routing_data p) g a \<noteq> None"
  shows "collect_interested_interfaces p g as = map (\<lambda>a. (a, wanted_outputs p g a)) as"
  using assms by (rule collect_eq)

definition ex_routed :: proxy_instance where
  "ex_routed = ex_instance ex_include\<lparr>p_routing_data :=
     set_source (\<lambda>s g. None) 3 (Addr4 0xE8010203) (Addr4 7) new_source (new_routing_data IGMPv3)\<rparr>"

lemma ex_routed_simps:
  "p_interfaces ex_routed = p_interfaces (ex_instance ex_include)"
  "p_upstreams ex_routed = [(0, \<lparr>ui_if_index = 3, ui_interface = new_interface ''eth1''\<rparr>),
     (100, \<lparr>ui_if_index = 4, ui_interface = new_interface ''eth2''\<rparr>)]"
  "p_downstreams ex_routed = [(2, \<lparr>di_querier = set_group (Addr4 0xE8010203) ex_include ex_fresh, di_interface = new_interface ''eth0''\<rparr>)]"
  by (simp_all add: ex_routed_def ex_instance_def)

lemma ex_routed_ifs: "ifs_ok (p_interfaces ex_routed) \<and> registered (p_interfaces ex_routed) = {2, 3, 4}"
  by (auto simp: ex_routed_def ex_instance_def ifs_ok_def registered_def)

lemma ex_routed_ok: "inst_ok ex_routed"
proof -
  have "rd_ok (new_routing_data IGMPv3)" by (simp add: rd_ok_def new_routing_data_def)
  then have "rd_ok (p_routing_data ex_routed)" by (simp add: ex_routed_def rd_ok_set_source)
  moreover have "routing_ok (p_routing ex_routed)" by (simp add: ex_routed_def ex_instance_def routing_ok_def)
  moreover have "smap_ok (p_upstreams ex_routed)" "smap_ok (p_downstreams ex_routed)"
    by (simp_all add: ex_routed_simps)
  ultimately show ?thesis using ex_routed_ifs
    by (simp add: inst_ok_def ex_routed_simps set_group_def ex_fresh_def)
qed

lemma ex_routed_known: "known_interface (p_routing_data ex_routed) g a =
    (if g = Addr4 0xE8010203 \<and> a = Addr4 7 then Some 3 else None)"
proof -
  have "rd_ok (new_routing_data IGMPv3)" by (simp add: rd_ok_def new_routing_data_def)
  then show ?thesis
    by (simp add: ex_routed_def known_set_source) (simp add: known_interface_def get_interface_map_def new_routing_data_def)
qed

lemma ex_routed_wanted: "wanted_outputs ex_routed (Addr4 0xE8010203) (Addr4 7) = [2]"
proof -
  have "check_interface ex_routed IT_DOWNSTREAM ID_OUT 2 3 (Addr4 0xE8010203) (Addr4 7)"
    by (simp add: check_interface_def ex_routed_def ex_instance_def ex_names3_def get_if_name_def passes_output_def
        match_output_filter_def match_filter_def new_interface_def)
  moreover have "requests (set_group (Addr4 0xE8010203) ex_include ex_fresh) (Addr4 0xE8010203) (Addr4 7)"
    by (simp add: requests_def find_group_def set_group_def ex_fresh_def new_membership_db_def ex_include_def
        new_gaddr_info_def abs_group_def)
  moreover have "is_querier (q_db (set_group (Addr4 0xE8010203) ex_include ex_fresh))"
    by (simp add: set_group_def ex_fresh_def new_membership_db_def)
  ultimately show ?thesis
    by (simp add: wanted_outputs_def ex_routed_known wanted_upstreams_def wanted_downstreams_def is_downstream_iff ex_routed_simps)
qed

lemma interested_interfaces_witness:
  "collect_interested_interfaces ex_routed (Addr4 0xE8010203) [Addr4 7] = [(Addr4 7, [2])]"
  using interested_interfaces [OF ex_routed_ok, of "[Addr4 7]" "Addr4 0xE8010203"]
  by (simp add: ex_routed_known ex_routed_wanted)

subsection \<open>The calls of the kernel\<close>

definition vif_of :: "proxy_instance \<Rightarrow> u32 \<Rightarrow> int" where
  "vif_of p i = get_virtual_if_index (p_interfaces p) i"

definition route_event :: "proxy_instance \<Rightarrow> addr_storage \<Rightarrow> addr_storage \<times> u32 list \<Rightarrow> event list" where
  "route_event p g e =
     (case known_interface (p_routing_data p) g (fst e) of
        None \<Rightarrow> []
      | Some input \<Rightarrow>
          if snd e = [] then [Del_mroute (vif_of p input) (fst e) g]
          else if use_input_interface p input g (fst e)
          then [Add_mroute (vif_of p input) (fst e) g (map (vif_of p) (snd e))] else [])"

definition up_down_disjoint :: "proxy_instance \<Rightarrow> bool" where
  "up_down_disjoint p \<longleftrightarrow> (\<forall>i. \<not> (is_upstream p i \<and> is_downstream p i))"

lemma vif_of_fun: "vif_of p = get_virtual_if_index (p_interfaces p)"
  by (rule ext) (simp add: vif_of_def)

lemma set_route_log:
  assumes "routing_ok (p_routing p)" "length (snd e) \<le> 32"
  shows "log (set_route p g e w) = log w @ route_event p g e"
proof -
  have "vif_limit (r_addr_family (p_routing p)) = Some 32"
    using assms(1) by (cases "r_addr_family (p_routing p)") (simp_all add: routing_ok_def vif_limit_def MAXVIFS_def MAXMIFS_def)
  with assms(2) show ?thesis
    by (auto simp: set_route_def route_event_def known_interface_def vif_of_def del_route_def routing_del_route_def
        add_route_def io_sock_call split: option.splits)
qed

lemma set_routes_log:
  "routing_ok (p_routing p) \<Longrightarrow> \<forall>e \<in> set l. length (snd e) \<le> 32 \<Longrightarrow>
     log (set_routes p g l w) = log w @ concat (map (route_event p g) l)"
  by (induction l arbitrary: w) (auto simp: set_routes_def set_route_log)

lemma wanted_outputs_ok:
  assumes "inst_ok p" "up_down_disjoint p" "known_interface (p_routing_data p) g a = Some input"
  shows "distinct (input # wanted_outputs p g a) \<and> set (wanted_outputs p g a) \<subseteq> registered (p_interfaces p)"
proof -
  have us: "set (wanted_upstreams p g a input) \<subseteq> ui_if_index ` snd ` set (p_upstreams p)"
    "wanted_upstreams p g a input \<noteq> [] \<Longrightarrow> is_downstream p input"
    "distinct (wanted_upstreams p g a input)"
  proof -
    let ?us = "map ui_if_index (filter (up_passes p g a input) (map snd (p_upstreams p)))"
    have "distinct (map ui_if_index (map snd (p_upstreams p)))" using assms(1) by (simp add: inst_ok_def comp_def)
    then have d: "distinct ?us" by (rule distinct_map_filter)
    have eq: "wanted_upstreams p g a input = [] \<or> wanted_upstreams p g a input = ?us \<or> wanted_upstreams p g a input = take 1 ?us"
      by (cases "rb_rule_matching_type (p_upstream_output_rule p)") (simp_all add: wanted_upstreams_def Let_def)
    with d show "distinct (wanted_upstreams p g a input)" by (metis distinct.simps(1) distinct_take)
    from eq have "set (wanted_upstreams p g a input) \<subseteq> set ?us" by (metis empty_iff list.set(1) set_take_subset subset_eq)
    then show "set (wanted_upstreams p g a input) \<subseteq> ui_if_index ` snd ` set (p_upstreams p)" by (rule subset_trans) auto
  qed (auto simp: wanted_upstreams_def Let_def split: if_splits)
  have ds: "set (wanted_downstreams p g a input) \<subseteq> sm_keys (p_downstreams p) - {input}"
    by (auto simp: wanted_downstreams_def sm_keys_def)
  have dd: "distinct (wanted_downstreams p g a input)"
    using assms(1) unfolding wanted_downstreams_def by (intro distinct_map_filter smap_ok_distinct) (simp add: inst_ok_def)
  have up: "is_upstream p i" if "i \<in> set (wanted_upstreams p g a input)" for i
    using us(1) that by (auto simp: is_upstream_iff)
  have dn: "is_downstream p i \<and> i \<noteq> input" if "i \<in> set (wanted_downstreams p g a input)" for i
    using ds that by (auto simp: is_downstream_iff)
  have "set (wanted_upstreams p g a input) \<inter> set (wanted_downstreams p g a input) = {}"
    using up dn assms(2) by (auto simp: up_down_disjoint_def)
  moreover have "input \<notin> set (wanted_upstreams p g a input)"
    using up [of input] us(2) assms(2) unfolding up_down_disjoint_def by (metis list.distinct(1) list.set_cases)
  moreover have "set (wanted_upstreams p g a input) \<subseteq> registered (p_interfaces p)"
    "set (wanted_downstreams p g a input) \<subseteq> registered (p_interfaces p)"
    using us(1) ds assms(1) by (fastforce simp: inst_ok_def sm_keys_def)+
  ultimately show ?thesis using us(3) dd dn assms(3) by (auto simp: wanted_outputs_def)
qed

lemma wanted_vifs:
  assumes "inst_ok p" "sources_registered p" "up_down_disjoint p" "known_interface (p_routing_data p) g a = Some input"
  shows "distinct (map (vif_of p) (input # wanted_outputs p g a)) \<and> length (wanted_outputs p g a) \<le> 32
      \<and> set (map (vif_of p) (input # wanted_outputs p g a)) \<subseteq> {0..<32}"
proof -
  have ok: "ifs_ok (p_interfaces p)" using assms(1) by (simp add: inst_ok_def)
  have reg: "distinct (input # wanted_outputs p g a)" "set (input # wanted_outputs p g a) \<subseteq> registered (p_interfaces p)"
    using wanted_outputs_ok [OF assms(1,3,4)] assms(2,4) by (auto simp: sources_registered_def)
  have "vif_of p i \<in> {0..<32}" if "i \<in> set (input # wanted_outputs p g a)" for i
    using ifs.law_range [OF ok, of i] reg(2) that unfolding vif_of_def by (meson atLeastLessThan_iff subsetD)
  with ifs.vif_list [OF ok reg] show ?thesis unfolding vif_of_fun by auto
qed

lemma set_routes_wanted:
  assumes "inst_ok p" "sources_registered p" "up_down_disjoint p"
    and "\<forall>a \<in> set as. known_interface (p_routing_data p) g a \<noteq> None"
  shows "log (set_routes p g (collect_interested_interfaces p g as) w) =
      log w @ concat (map (\<lambda>a. route_event p g (a, wanted_outputs p g a)) as)"
proof -
  have ok: "routing_ok (p_routing p)" using assms(1) by (simp add: inst_ok_def)
  have "length (wanted_outputs p g a) \<le> 32" if "a \<in> set as" for a
    using wanted_vifs [OF assms(1-3), of g a] assms(4) that by fastforce
  then show ?thesis
    by (subst collect_eq [OF assms(1,4)], subst set_routes_log [OF ok]) (auto simp: comp_def)
qed

lemma route_event_sound:
  assumes "inst_ok p" "sources_registered p" "up_down_disjoint p"
    and "Add_mroute v s h outs \<in> set (route_event p g (a, wanted_outputs p g a))"
  shows "s = a \<and> h = g \<and> outs \<noteq> [] \<and> distinct (v # outs) \<and> length outs \<le> 32 \<and> set (v # outs) \<subseteq> {0..<32}"
proof -
  obtain input where k: "known_interface (p_routing_data p) g a = Some input"
    and r: "v = vif_of p input" "s = a" "h = g" "outs = map (vif_of p) (wanted_outputs p g a)" "wanted_outputs p g a \<noteq> []"
    using assms(4) by (cases "known_interface (p_routing_data p) g a") (auto simp: route_event_def split: if_splits)
  from wanted_vifs [OF assms(1-3) k] show ?thesis by (simp add: r)
qed


lemma ex_routed_sources: "sources_registered ex_routed" "up_down_disjoint ex_routed"
  using ex_routed_ifs
  by (auto simp: sources_registered_def ex_routed_known up_down_disjoint_def is_upstream_def is_downstream_iff ex_routed_simps
      split: if_splits)

lemma ex_routed_event:
  "route_event ex_routed (Addr4 0xE8010203) (Addr4 7, [2]) = [Add_mroute 1 (Addr4 7) (Addr4 0xE8010203) [0]]"
proof -
  have "use_input_interface ex_routed 3 (Addr4 0xE8010203) (Addr4 7)"
    by (simp add: use_input_interface_def is_upstream_def is_downstream_def ex_routed_simps check_interface_def passes_input_def
        match_input_filter_def match_filter_def new_interface_def)
       (simp add: ex_routed_def ex_instance_def ex_names3_def get_if_name_def)
  then show ?thesis
    by (simp add: route_event_def ex_routed_known vif_of_def ex_routed_simps get_virtual_if_index_def)
       (simp add: ex_instance_def)
qed


end
