(* ===== verification/Message_Queue.thy ===== *)
theory Message_Queue
  imports Membership_Db "HOL-Library.Multiset"
begin

section \<open>The job queue of a worker (message_queue.hpp, worker.hpp, worker.cpp)\<close>

text \<open>
  Every worker thread has one \<^verbatim>\<open>std::priority_queue\<close> of messages, ordered by their priority; the smallest
  value comes first.  The C++ standard does not say which of several messages of the same priority is on
  top, so taking a message is a relation.  The lock and the condition variable make the operations
  atomic; a run is a sequence of them.  The constructor converts the size to \<^verbatim>\<open>unsigned int\<close>.
\<close>

definition WORKER_MESSAGE_QUEUE_DEFAULT_SIZE :: u32 where
  "WORKER_MESSAGE_QUEUE_DEFAULT_SIZE = 150"

record 'm message_queue =
  m_q :: "'m list"
  m_size :: u32

definition new_message_queue :: "u32 \<Rightarrow> 'm message_queue" where
  "new_message_queue n = \<lparr>m_q = [], m_size = n\<rparr>"

definition enqueue_loseable :: "'m \<Rightarrow> 'm message_queue \<Rightarrow> bool \<times> 'm message_queue" where
  "enqueue_loseable t q =
     (if length (m_q q) < unat (m_size q) then (True, q\<lparr>m_q := t # m_q q\<rparr>) else (False, q))"

definition enqueue :: "'m \<Rightarrow> 'm message_queue \<Rightarrow> 'm message_queue" where
  "enqueue t q = q\<lparr>m_q := t # m_q q\<rparr>"

text \<open>\<^verbatim>\<open>comp_proxy_msg\<close> reverses the order of the priorities: a message is on top when none has a smaller
  value.\<close>

definition tops :: "('m \<Rightarrow> message_priority) \<Rightarrow> 'm message_queue \<Rightarrow> 'm list" where
  "tops prio q = filter (\<lambda>t. \<forall>u \<in> set (m_q q). prio_value (prio t) \<le> prio_value (prio u)) (m_q q)"

inductive dequeue :: "('m \<Rightarrow> message_priority) \<Rightarrow> 'm message_queue \<Rightarrow> 'm \<Rightarrow> 'm message_queue \<Rightarrow> bool" for prio where
  "t \<in> set (tops prio q) \<Longrightarrow> dequeue prio q t (q\<lparr>m_q := remove1 t (m_q q)\<rparr>)"

inductive_cases dequeueE: "dequeue prio q t q'"

definition add_msg :: "('m \<Rightarrow> message_priority) \<Rightarrow> 'm \<Rightarrow> 'm message_queue \<Rightarrow> 'm message_queue" where
  "add_msg prio msg q = (if prio msg = LOSEABLE then snd (enqueue_loseable msg q) else enqueue msg q)"

subsection \<open>The interface of a job queue\<close>

text \<open>A run adds and takes messages.  The laws: adding puts the message in or loses it, and only a message
  that may be lost; taking removes a message that was there.\<close>

datatype 'm queue_event = Added 'm | Taken 'm

definition added :: "'m queue_event list \<Rightarrow> 'm list" where
  "added es = List.map_filter (\<lambda>e. case e of Added m \<Rightarrow> Some m | Taken m \<Rightarrow> None) es"

definition taken :: "'m queue_event list \<Rightarrow> 'm list" where
  "taken es = List.map_filter (\<lambda>e. case e of Added m \<Rightarrow> None | Taken m \<Rightarrow> Some m) es"

lemma added_simps [simp]: "added [] = []" "added (Added m # es) = m # added es" "added (Taken m # es) = added es"
  by (simp_all add: added_def)

lemma taken_simps [simp]: "taken [] = []" "taken (Added m # es) = taken es" "taken (Taken m # es) = m # taken es"
  by (simp_all add: taken_def)

locale job_queue =
  fixes content :: "'q \<Rightarrow> 'm multiset"
    and add :: "'m \<Rightarrow> 'q \<Rightarrow> 'q"
    and take :: "'q \<Rightarrow> 'm \<Rightarrow> 'q \<Rightarrow> bool"
    and loseable :: "'m \<Rightarrow> bool"
  assumes law_add: "content (add m q) = add_mset m (content q) \<or> content (add m q) = content q \<and> loseable m"
    and law_take: "take q m q' \<Longrightarrow> content q = add_mset m (content q')"
begin

inductive run :: "'q \<Rightarrow> 'm queue_event list \<Rightarrow> 'q \<Rightarrow> bool" where
  run_nil: "run q [] q"
| run_add: "run (add m q) es q' \<Longrightarrow> run q (Added m # es) q'"
| run_take: "take q m q1 \<Longrightarrow> run q1 es q' \<Longrightarrow> run q (Taken m # es) q'"

lemma conservation:
  "run q es q' \<Longrightarrow> \<exists>lost. (\<forall>m \<in># lost. loseable m) \<and>
     content q + mset (added es) = content q' + mset (taken es) + lost"
proof (induction rule: run.induct)
  case (run_nil q)
  show ?case by (intro exI [of _ "{#}"]) simp
next
  case (run_add m q es q')
  then obtain lost where l: "\<forall>x \<in># lost. loseable x" "content (add m q) + mset (added es) = content q' + mset (taken es) + lost"
    by blast
  from law_add [of m q] show ?case
  proof
    assume "content (add m q) = add_mset m (content q)"
    with l show ?thesis by (intro exI [of _ lost]) simp
  next
    assume "content (add m q) = content q \<and> loseable m"
    with l show ?thesis by (intro exI [of _ "add_mset m lost"]) simp
  qed
next
  case (run_take q m q1 es q')
  then obtain lost where "\<forall>x \<in># lost. loseable x" "content q1 + mset (added es) = content q' + mset (taken es) + lost" by blast
  with law_take [OF run_take(1)] show ?case by (intro exI [of _ lost]) simp
qed

end

lemma add_msg_content:
  "mset (m_q (add_msg prio m q)) = add_mset m (mset (m_q q)) \<or> mset (m_q (add_msg prio m q)) = mset (m_q q) \<and> prio m = LOSEABLE"
  by (simp add: add_msg_def enqueue_def enqueue_loseable_def)

lemma dequeue_content: "dequeue prio q m q' \<Longrightarrow> mset (m_q q) = add_mset m (mset (m_q q'))"
  by (auto simp: tops_def elim!: dequeueE)

interpretation jq: job_queue "\<lambda>q. mset (m_q q)" "add_msg prio" "dequeue prio" "\<lambda>m. prio m = LOSEABLE" for prio
  by unfold_locales (rule add_msg_content, rule dequeue_content)

subsection \<open>Properties\<close>

inductive queue_run :: "('m \<Rightarrow> message_priority) \<Rightarrow> 'm message_queue \<Rightarrow> 'm queue_event list \<Rightarrow> 'm message_queue \<Rightarrow> bool" for prio where
  queue_nil: "queue_run prio q [] q"
| queue_add: "queue_run prio (add_msg prio m q) es q' \<Longrightarrow> queue_run prio q (Added m # es) q'"
| queue_take: "dequeue prio q m q1 \<Longrightarrow> queue_run prio q1 es q' \<Longrightarrow> queue_run prio q (Taken m # es) q'"

lemma queue_run_jq: "queue_run prio q es q' \<Longrightarrow> jq.run prio q es q'"
  by (induction rule: queue_run.induct) (auto intro: jq.run_nil jq.run_add jq.run_take)

lemma queue_run_size: "queue_run prio q es q' \<Longrightarrow> m_size q' = m_size q"
  by (induction rule: queue_run.induct)
     (auto simp: add_msg_def enqueue_def enqueue_loseable_def elim!: dequeueE)



end
