(* ===== verification/Proxy_Msg.thy ===== *)
theory Proxy_Msg
  imports Mc_Proxy_Routing Message_Queue
begin

section \<open>The messages of a proxy instance (message_format.hpp)\<close>

text \<open>
  The class hierarchy below \<^verbatim>\<open>proxy_msg\<close> as one datatype, and the priorities the constructors set.  A
  configuration message carries the members its instruction uses.  All timer messages are one
  constructor; their type is a member.
\<close>

datatype config_msg =
  ADD_DOWNSTREAM u32 iface timers_values
| DEL_DOWNSTREAM u32
| ADD_UPSTREAM u32 u32 iface            \<comment> \<open>interface index, priority, interface\<close>
| DEL_UPSTREAM u32
| SET_GLOBAL_RULE_BINDING "rule_binding option"

datatype proxy_msg =
  Init_msg
| Test_msg message_priority
| Exit_cmd
| Timer_msg timer_msg
| New_source_msg new_source_msg
| Config_msg config_msg
| Group_record_msg group_record_msg
| Debug_msg

fun get_priority :: "proxy_msg \<Rightarrow> message_priority" where
  "get_priority Init_msg = SYSTEMIC"
| "get_priority (Test_msg p) = p"
| "get_priority Exit_cmd = USER_INPUT"
| "get_priority (Timer_msg t) = SYSTEMIC"
| "get_priority (New_source_msg m) = LOSEABLE"
| "get_priority (Config_msg c) = SYSTEMIC"
| "get_priority (Group_record_msg r) = LOSEABLE"
| "get_priority Debug_msg = USER_INPUT"

fun get_type :: "proxy_msg \<Rightarrow> message_type" where
  "get_type Init_msg = INIT_MSG"
| "get_type (Test_msg p) = TEST_MSG"
| "get_type Exit_cmd = EXIT_MSG"
| "get_type (Timer_msg t) = tm_type t"
| "get_type (New_source_msg m) = NEW_SOURCE_MSG"
| "get_type (Config_msg c) = CONFIG_MSG"
| "get_type (Group_record_msg r) = GROUP_RECORD_MSG"
| "get_type Debug_msg = DEBUG_MSG"

end
