(* ===== verification/Receivers.thy ===== *)
theory Receivers
  imports Proxy_Msg
begin

section \<open>The receivers (receiver.cpp, igmp_receiver.cpp, mld_receiver.cpp)\<close>

text \<open>
  The thread of a receiver reads packets into one buffer of fixed size and hands each to
  \<^verbatim>\<open>analyse_packet\<close>, which turns it into messages for the proxy instance.  Here \<open>buf\<close> is the whole buffer, with
  whatever earlier packets left behind the current one; a read that leaves the buffer is undefined, so
  the result is the list of the messages sent and whether all reads were inside.  \<open>host16\<close> is the byte
  order of the machine, in which the kernel stores the interface number of an IPv6 upcall.
\<close>

subsection \<open>Registered interfaces\<close>

definition is_if_index_relevant :: "(u32, unit) smap \<Rightarrow> u32 \<Rightarrow> bool" where
  "is_if_index_relevant rel if_index \<longleftrightarrow> sm_mem if_index rel"

definition registrate_interface :: "u32 \<Rightarrow> (u32, unit) smap \<Rightarrow> (u32, unit) smap" where
  "registrate_interface if_index rel = sm_insert if_index () rel"

definition receiver_del_interface :: "u32 \<Rightarrow> (u32, unit) smap \<Rightarrow> (u32, unit) smap" where
  "receiver_del_interface if_index rel = sm_erase if_index rel"

subsection \<open>Reading from the buffer\<close>

datatype receiver_kind = IGMP_RECEIVER | MLD_RECEIVER

definition ntohs :: "u8 \<Rightarrow> u8 \<Rightarrow> nat" where
  "ntohs a b = unat a * 256 + unat b"

definition ntohl :: "u8 \<Rightarrow> u8 \<Rightarrow> u8 \<Rightarrow> u8 \<Rightarrow> u32" where
  "ntohl a b c d = push_bit 24 (ucast a) OR push_bit 16 (ucast b) OR push_bit 8 (ucast c) OR ucast d"

definition read32 :: "u8 list \<Rightarrow> nat \<Rightarrow> u32" where
  "read32 buf pos = ntohl (buf ! pos) (buf ! (pos + 1)) (buf ! (pos + 2)) (buf ! (pos + 3))"

fun addr_len :: "receiver_kind \<Rightarrow> nat" where
  "addr_len IGMP_RECEIVER = 4"
| "addr_len MLD_RECEIVER = 16"

fun report_version :: "receiver_kind \<Rightarrow> group_mem_protocol" where
  "report_version IGMP_RECEIVER = IGMPv3"
| "report_version MLD_RECEIVER = MLDv2"

fun read_addr :: "receiver_kind \<Rightarrow> u8 list \<Rightarrow> nat \<Rightarrow> addr_storage" where
  "read_addr IGMP_RECEIVER buf pos = Addr4 (read32 buf pos)"
| "read_addr MLD_RECEIVER buf pos =
     Addr6 (read32 buf pos) (read32 buf (pos + 4)) (read32 buf (pos + 8)) (read32 buf (pos + 12))"

subsection \<open>Group records\<close>

text \<open>The loops over the sources of a record and over the records of a report, which both receivers have
  with their own address size.\<close>

fun read_sources :: "receiver_kind \<Rightarrow> u8 list \<Rightarrow> nat \<Rightarrow> nat \<Rightarrow> source_list \<Rightarrow> source_list" where
  "read_sources k buf 0 pos slist = slist"
| "read_sources k buf (Suc n) pos slist =
     read_sources k buf n (pos + addr_len k) (sm_insert (read_addr k buf pos) new_source slist)"

fun read_records :: "receiver_kind \<Rightarrow> u32 \<Rightarrow> u8 list \<Rightarrow> nat \<Rightarrow> nat \<Rightarrow> proxy_msg list \<times> bool" where
  "read_records k if_index buf 0 pos = ([], True)"
| "read_records k if_index buf (Suc n) pos =
     (if pos + 4 + addr_len k > length buf then ([], False)
      else
        (let rec_type = record_type_of_byte (buf ! pos); aux_size = unat (buf ! (pos + 1)) * 4;
             nos = ntohs (buf ! (pos + 2)) (buf ! (pos + 3)); gaddr = read_addr k buf (pos + 4);
             src = pos + 4 + addr_len k
         in if src + nos * addr_len k > length buf then ([], False)
            else
              (let msg = Group_record_msg \<lparr>gr_if_index = if_index, gr_record_type = rec_type, gr_gaddr = gaddr,
                     gr_slist = read_sources k buf nos src [], gr_grp_mem_proto = report_version k\<rparr>;
                   (msgs, ok) = read_records k if_index buf n (src + nos * addr_len k + aux_size)
               in (msg # msgs, ok))))"

definition older_record :: "u32 \<Rightarrow> mcast_addr_record_type \<Rightarrow> addr_storage \<Rightarrow> group_mem_protocol \<Rightarrow> proxy_msg" where
  "older_record if_index rt gaddr v =
     Group_record_msg \<lparr>gr_if_index = if_index, gr_record_type = rt, gr_gaddr = gaddr, gr_slist = [], gr_grp_mem_proto = v\<rparr>"

subsection \<open>IGMP\<close>

definition igmp_iov_min_size :: nat where
  "igmp_iov_min_size = max (20 + 8 + 4 + 10000) 20"

definition new_source_upcall ::
  "interfaces \<Rightarrow> (u32, unit) smap \<Rightarrow> int \<Rightarrow> addr_storage \<Rightarrow> addr_storage \<Rightarrow> proxy_msg list" where
  "new_source_upcall ifs rel vif gaddr saddr =
     (let if_index = get_if_index_vif ifs vif
      in if if_index = 0 then []
         else if \<not> is_if_index_relevant rel if_index then []
         else [New_source_msg \<lparr>ns_if_index = if_index, ns_gaddr = gaddr, ns_saddr = saddr\<rparr>])"

definition igmp_analyse_packet ::
  "net_names \<Rightarrow> interfaces \<Rightarrow> (u32, unit) smap \<Rightarrow> u8 list \<Rightarrow> proxy_msg list \<times> bool" where
  "igmp_analyse_packet net ifs rel buf =
     (if length buf < 20 then ([], False)
      else
        (let igmp = unat (buf ! 0 AND 15) * 4; ip_p = buf ! 9
         in if ip_p = 0 then
              (if buf ! 8 = 1
               then (new_source_upcall ifs rel (uint (buf ! 10)) (Addr4 (read32 buf 16)) (Addr4 (read32 buf 12)), True)
               else ([], True))
            else if ip_p = 2 \<and> ntohs (buf ! 2) (buf ! 3) \<le> igmp_iov_min_size then
              (if igmp + 8 > length buf then ([], False)
               else
                 (let igmp_type = buf ! igmp; saddr = Addr4 (read32 buf 12); gaddr = Addr4 (read32 buf (igmp + 4));
                      if_index = get_if_index_addr net ifs saddr;
                      relevant = (if_index \<noteq> 0 \<and> is_if_index_relevant rel if_index)
                  in if igmp_type = 0x16 \<or> igmp_type = 0x17 then
                       (if \<not> relevant then ([], True)
                        else if igmp_type = 0x16 then ([older_record if_index MODE_IS_EXCLUDE gaddr IGMPv2], True)
                        else ([older_record if_index CHANGE_TO_INCLUDE_MODE gaddr IGMPv2], True))
                     else if igmp_type = 0x22 then
                       (if \<not> relevant then ([], True)
                        else read_records IGMP_RECEIVER if_index buf (ntohs (buf ! (igmp + 6)) (buf ! (igmp + 7))) (igmp + 8))
                     else ([], True)))
            else ([], True)))"

subsection \<open>MLD\<close>

definition mld_iov_min_size :: nat where
  "mld_iov_min_size = max (24 + 10000) 40"

record cmsg =
  cmsg_len :: nat
  cmsg_level :: nat
  cmsg_type :: nat
  ipi6_ifindex :: u32

text \<open>The loop over the control messages keeps the last packet information.\<close>

definition find_pktinfo :: "cmsg list \<Rightarrow> u32 option" where
  "find_pktinfo cs =
     fold (\<lambda>c r. if cmsg_len c > 0 \<and> cmsg_level c = 41 \<and> cmsg_type c = 50 then Some (ipi6_ifindex c) else r) cs None"

definition mld_analyse_packet ::
  "(u8 \<Rightarrow> u8 \<Rightarrow> nat) \<Rightarrow> interfaces \<Rightarrow> (u32, unit) smap \<Rightarrow> u8 list \<Rightarrow> cmsg list \<Rightarrow> proxy_msg list \<times> bool" where
  "mld_analyse_packet host16 ifs rel buf cs =
     (if length buf < 40 then ([], False)
      else
        (let mld_type = buf ! 0
         in if mld_type = 0 then
              (if buf ! 1 = 1
               then (new_source_upcall ifs rel (int (host16 (buf ! 2) (buf ! 3))) (read_addr MLD_RECEIVER buf 24)
                       (read_addr MLD_RECEIVER buf 8), True)
               else ([], True))
            else if mld_type = 131 \<or> mld_type = 132 then
              (case find_pktinfo cs of
                 None \<Rightarrow> ([], True)
               | Some if_index \<Rightarrow>
                   (if \<not> is_if_index_relevant rel if_index then ([], True)
                    else if mld_type = 131
                    then ([older_record if_index MODE_IS_EXCLUDE (read_addr MLD_RECEIVER buf 8) MLDv1], True)
                    else ([older_record if_index CHANGE_TO_INCLUDE_MODE (read_addr MLD_RECEIVER buf 8) MLDv1], True)))
            else if mld_type = 143 then
              (case find_pktinfo cs of
                 None \<Rightarrow> ([], True)
               | Some if_index \<Rightarrow>
                   (if \<not> is_if_index_relevant rel if_index then ([], True)
                    else read_records MLD_RECEIVER if_index buf (ntohs (buf ! 6) (buf ! 7)) 8))
            else ([], True)))"

subsection \<open>The wire format of reports\<close>

text \<open>The format of RFC 3376, 4.2 and RFC 3810, 5.2: a record with auxiliary data, and the header that
  counts the records.\<close>

record wire_record =
  wr_type :: u8
  wr_gaddr :: addr_storage
  wr_srcs :: "addr_storage list"
  wr_aux :: "u8 list"

fun addr_bytes :: "addr_storage \<Rightarrow> u8 list" where
  "addr_bytes (Addr4 w) = word_bytes w"
| "addr_bytes (Addr6 w0 w1 w2 w3) = s6_addr w0 w1 w2 w3"
| "addr_bytes Addr_Unspec = []"

definition htons :: "nat \<Rightarrow> u8 list" where
  "htons n = [of_nat (n div 256), of_nat (n mod 256)]"

definition record_bytes :: "wire_record \<Rightarrow> u8 list" where
  "record_bytes r = [wr_type r, of_nat (length (wr_aux r) div 4)] @ htons (length (wr_srcs r)) @ addr_bytes (wr_gaddr r)
     @ concat (map addr_bytes (wr_srcs r)) @ wr_aux r"

fun kind_family :: "receiver_kind \<Rightarrow> addr_family" where
  "kind_family IGMP_RECEIVER = AF_INET"
| "kind_family MLD_RECEIVER = AF_INET6"

definition wire_ok :: "receiver_kind \<Rightarrow> wire_record \<Rightarrow> bool" where
  "wire_ok k r \<longleftrightarrow> (\<forall>a \<in> set (wr_gaddr r # wr_srcs r). get_addr_family a = kind_family k)
     \<and> length (wr_srcs r) < 65536 \<and> 4 dvd length (wr_aux r) \<and> length (wr_aux r) < 1024"

definition record_msg :: "receiver_kind \<Rightarrow> u32 \<Rightarrow> wire_record \<Rightarrow> proxy_msg" where
  "record_msg k if_index r = Group_record_msg \<lparr>gr_if_index = if_index, gr_record_type = record_type_of_byte (wr_type r),
     gr_gaddr = wr_gaddr r, gr_slist = source_list_of (wr_srcs r), gr_grp_mem_proto = report_version k\<rparr>"

text \<open>Bytes at a position of the buffer.\<close>

definition bytes_at :: "u8 list \<Rightarrow> nat \<Rightarrow> u8 list \<Rightarrow> bool" where
  "bytes_at buf pos bs \<longleftrightarrow> pos + length bs \<le> length buf \<and> take (length bs) (drop pos buf) = bs"

lemma bytes_at_Cons:
  "bytes_at buf pos (b # bs) \<longleftrightarrow> pos < length buf \<and> buf ! pos = b \<and> bytes_at buf (Suc pos) bs"
proof (cases "pos < length buf")
  case True
  then have "drop pos buf = buf ! pos # drop (Suc pos) buf" by (simp add: Cons_nth_drop_Suc)
  with True show ?thesis by (auto simp: bytes_at_def)
qed (simp add: bytes_at_def)

lemma bytes_at_append:
  "bytes_at buf pos (xs @ ys) \<longleftrightarrow> bytes_at buf pos xs \<and> bytes_at buf (pos + length xs) ys"
  by (induction xs arbitrary: pos) (auto simp: bytes_at_Cons, auto simp: bytes_at_def)

lemma bytes_at_length: "bytes_at buf pos bs \<Longrightarrow> pos + length bs \<le> length buf"
  by (simp add: bytes_at_def)

lemma ntohl_bytes: "ntohl (ucast (drop_bit 24 w)) (ucast (drop_bit 16 w)) (ucast (drop_bit 8 w)) (ucast w) = w"
proof (rule bit_word_eqI)
  fix n assume "n < LENGTH(32)"
  then have n: "n < 32" by simp
  show "bit (ntohl (ucast (drop_bit 24 w)) (ucast (drop_bit 16 w)) (ucast (drop_bit 8 w)) (ucast w)) n = bit w n"
  proof (cases "n < 8")
    case True
    then show ?thesis by (simp add: ntohl_def bit_or_iff bit_push_bit_iff bit_ucast_iff bit_drop_bit_eq n)
  next
    case False
    then consider "8 \<le> n" "n < 16" | "16 \<le> n" "n < 24" | "24 \<le> n" by linarith
    then show ?thesis using n False
      by cases (auto simp: ntohl_def bit_or_iff bit_push_bit_iff bit_ucast_iff bit_drop_bit_eq)
  qed
qed

lemma read32_word: "bytes_at buf pos (word_bytes w) \<Longrightarrow> read32 buf pos = w"
  by (simp add: word_bytes_def bytes_at_Cons read32_def ntohl_bytes numeral_2_eq_2 numeral_3_eq_3)

lemma addr_bytes_length: "get_addr_family a = kind_family k \<Longrightarrow> length (addr_bytes a) = addr_len k"
  by (cases k; cases a) (simp_all add: s6_addr_def)

lemma read_addr_bytes:
  "get_addr_family a = kind_family k \<Longrightarrow> bytes_at buf pos (addr_bytes a) \<Longrightarrow> read_addr k buf pos = a"
  by (cases k; cases a) (auto simp: s6_addr_def bytes_at_append read32_word add.assoc)

lemma ntohs_htons:
  assumes "n < 65536" "bytes_at buf pos (htons n)"
  shows "ntohs (buf ! pos) (buf ! Suc pos) = n"
proof -
  have "buf ! pos = of_nat (n div 256)" "buf ! Suc pos = of_nat (n mod 256)"
    using assms(2) by (simp_all add: htons_def bytes_at_Cons)
  moreover have "unat (of_nat (n div 256) :: u8) = n div 256" "unat (of_nat (n mod 256) :: u8) = n mod 256"
    using assms(1) by (simp_all add: unat_of_nat)
  ultimately show ?thesis by (simp add: ntohs_def)
qed

lemma read_sources_bytes:
  "\<forall>a \<in> set as. get_addr_family a = kind_family k \<Longrightarrow> bytes_at buf pos (concat (map addr_bytes as)) \<Longrightarrow>
     read_sources k buf (length as) pos l = fold (\<lambda>a. sm_insert a new_source) as l"
  by (induction as arbitrary: pos l) (auto simp: bytes_at_append read_addr_bytes addr_bytes_length)

lemma concat_addr_length:
  "\<forall>a \<in> set as. get_addr_family a = kind_family k \<Longrightarrow> length (concat (map addr_bytes as)) = length as * addr_len k"
  by (induction as) (auto simp: addr_bytes_length)

lemma record_bytes_at:
  assumes "wire_ok k r" "bytes_at buf pos (record_bytes r)"
  shows "pos + 4 + addr_len k \<le> length buf" "buf ! pos = wr_type r" "unat (buf ! (pos + 1)) * 4 = length (wr_aux r)"
    "ntohs (buf ! (pos + 2)) (buf ! (pos + 3)) = length (wr_srcs r)" "read_addr k buf (pos + 4) = wr_gaddr r"
    "pos + 4 + addr_len k + length (wr_srcs r) * addr_len k \<le> length buf"
    "read_sources k buf (length (wr_srcs r)) (pos + 4 + addr_len k) [] = source_list_of (wr_srcs r)"
    "length (record_bytes r) = 4 + addr_len k + length (wr_srcs r) * addr_len k + length (wr_aux r)"
proof -
  have f: "get_addr_family (wr_gaddr r) = kind_family k" "\<forall>a \<in> set (wr_srcs r). get_addr_family a = kind_family k"
    and w: "length (wr_srcs r) < 65536" "4 dvd length (wr_aux r)" "length (wr_aux r) < 1024"
    using assms(1) by (auto simp: wire_ok_def)
  have h: "length (htons n) = 2" "length [x, y] = 2" "(2::nat) + 2 = 4" for n and x y :: u8 by (simp_all add: htons_def)
  note at = assms(2) [unfolded record_bytes_def bytes_at_append h addr_bytes_length [OF f(1)] add.assoc]
  have b: "buf ! pos = wr_type r" "buf ! Suc pos = of_nat (length (wr_aux r) div 4)"
    "bytes_at buf (pos + 2) (htons (length (wr_srcs r)))" "bytes_at buf (pos + 4) (addr_bytes (wr_gaddr r))"
    "bytes_at buf (pos + 4 + addr_len k) (concat (map addr_bytes (wr_srcs r)))"
    using at by (simp_all only: bytes_at_Cons h add.assoc)
  have "unat (of_nat (length (wr_aux r) div 4) :: u8) = length (wr_aux r) div 4"
    using w(3) by (simp add: unat_of_nat)
  with b(2) w(2) show "unat (buf ! (pos + 1)) * 4 = length (wr_aux r)" by simp
  show "buf ! pos = wr_type r" by (rule b(1))
  show "ntohs (buf ! (pos + 2)) (buf ! (pos + 3)) = length (wr_srcs r)" 
    using ntohs_htons [OF w(1) b(3)] by (simp add: numeral_3_eq_3)
  show "read_addr k buf (pos + 4) = wr_gaddr r" by (rule read_addr_bytes [OF f(1) b(4)])
  show "pos + 4 + addr_len k \<le> length buf" using bytes_at_length [OF b(4)] by (simp add: addr_bytes_length [OF f(1)])
  show "pos + 4 + addr_len k + length (wr_srcs r) * addr_len k \<le> length buf"
    using bytes_at_length [OF b(5)] by (simp add: concat_addr_length [OF f(2)])
  show "read_sources k buf (length (wr_srcs r)) (pos + 4 + addr_len k) [] = source_list_of (wr_srcs r)"
    using read_sources_bytes [OF f(2) b(5)] by (simp add: source_list_of_def)
  show "length (record_bytes r) = 4 + addr_len k + length (wr_srcs r) * addr_len k + length (wr_aux r)"
    by (simp add: record_bytes_def h addr_bytes_length [OF f(1)] concat_addr_length [OF f(2)])
qed

lemma read_records_bytes:
  "\<forall>r \<in> set rs. wire_ok k r \<Longrightarrow> bytes_at buf pos (concat (map record_bytes rs)) \<Longrightarrow>
     read_records k i buf (length rs) pos = (map (record_msg k i) rs, True)"
proof (induction rs arbitrary: pos)
  case (Cons r rs)
  have at: "bytes_at buf pos (record_bytes r)" "bytes_at buf (pos + length (record_bytes r)) (concat (map record_bytes rs))"
    using Cons.prems(2) by (simp_all add: bytes_at_append)
  have ok: "wire_ok k r" "\<forall>r \<in> set rs. wire_ok k r" using Cons.prems(1) by simp_all
  note r = record_bytes_at [OF ok(1) at(1)]
  from Cons.IH [OF ok(2) at(2)] r show ?case
    by (simp add: record_msg_def Let_def add.assoc)
qed simp

lemma read_records_inside:
  "snd (read_records k i buf n pos) \<Longrightarrow> 0 < n \<Longrightarrow> pos + n * (4 + addr_len k) \<le> length buf"
proof (induction n arbitrary: pos)
  case (Suc n)
  let ?next = "pos + 4 + addr_len k + ntohs (buf ! (pos + 2)) (buf ! (pos + 3)) * addr_len k + unat (buf ! (pos + 1)) * 4"
  have step: "pos + 4 + addr_len k \<le> length buf" "snd (read_records k i buf n ?next)"
    using Suc.prems(1) by (auto simp: Let_def split: if_splits prod.splits)
  show ?case
  proof (cases "n = 0")
    case False
    with Suc.IH [OF step(2)] show ?thesis by simp
  qed (use step(1) in simp)
qed simp

subsection \<open>Properties\<close>

definition report_header :: "u8 \<Rightarrow> u8 list \<Rightarrow> nat \<Rightarrow> u8 list" where
  "report_header ty rest n = ty # rest @ htons n"

lemma report_header_at:
  assumes "length rest = 5" "n < 65536" "bytes_at buf pos (report_header ty rest n @ bs)"
  shows "pos + 8 \<le> length buf" "buf ! pos = ty" "ntohs (buf ! (pos + 6)) (buf ! (pos + 7)) = n" "bytes_at buf (pos + 8) bs"
proof -
  have l: "length (report_header ty rest n) = 8" using assms(1) by (simp add: report_header_def htons_def)
  have at: "bytes_at buf pos (report_header ty rest n)" "bytes_at buf (pos + 8) bs"
    using assms(3) by (simp_all add: bytes_at_append l)
  then show "bytes_at buf (pos + 8) bs" by simp
  show "pos + 8 \<le> length buf" using bytes_at_length [OF at(1)] by (simp add: l)
  from at(1) show "buf ! pos = ty" by (simp add: report_header_def bytes_at_Cons)
  have "bytes_at buf (pos + 6) (htons n)"
    using at(1) assms(1) by (simp add: report_header_def bytes_at_Cons bytes_at_append add.commute)
  from ntohs_htons [OF assms(2) this] show "ntohs (buf ! (pos + 6)) (buf ! (pos + 7)) = n"
    by (simp add: add.commute)
qed

lemma igmp_report_decoded:
  assumes "\<forall>r \<in> set rs. wire_ok IGMP_RECEIVER r" "length rs < 65536" "length rest = 5"
    and "bytes_at buf (unat (buf ! 0 AND 15) * 4) (report_header 0x22 rest (length rs) @ concat (map record_bytes rs))"
    and "20 \<le> length buf" "buf ! 9 = 2" "ntohs (buf ! 2) (buf ! 3) \<le> igmp_iov_min_size"
    and "i = get_if_index_addr net ifs (Addr4 (read32 buf 12))" "i \<noteq> 0" "is_if_index_relevant rel i"
  shows "igmp_analyse_packet net ifs rel buf = (map (record_msg IGMP_RECEIVER i) rs, True)"
proof -
  note h = report_header_at [OF assms(3,2,4)]
  from h read_records_bytes [OF assms(1) h(4), of i] assms(5-) show ?thesis
    by (simp add: igmp_analyse_packet_def Let_def)
qed

lemma mld_report_decoded:
  assumes "\<forall>r \<in> set rs. wire_ok MLD_RECEIVER r" "length rs < 65536" "length rest = 5"
    and "bytes_at buf 0 (report_header 143 rest (length rs) @ concat (map record_bytes rs))"
    and "40 \<le> length buf" "find_pktinfo cs = Some i" "is_if_index_relevant rel i"
  shows "mld_analyse_packet host16 ifs rel buf cs = (map (record_msg MLD_RECEIVER i) rs, True)"
proof -
  note h = report_header_at [OF assms(3,2,4)]
  from h read_records_bytes [OF assms(1) h(4), of i] assms(5-) show ?thesis
    by (simp add: mld_analyse_packet_def)
qed

text \<open>C12: A well-formed IGMPv3 report from a host of a registered interface becomes one group record message per
  record, in order, with the type, the group and the set of sources of the record; auxiliary data and IP
  options are skipped.  The same holds for MLDv2 reports.\<close>

theorem report_decoded:
  assumes "length rs < 65536" "length rest = 5" "is_if_index_relevant rel i"
  shows "((\<forall>r \<in> set rs. wire_ok IGMP_RECEIVER r)
      \<and> bytes_at buf (unat (buf ! 0 AND 15) * 4) (report_header 0x22 rest (length rs) @ concat (map record_bytes rs))
      \<and> 20 \<le> length buf \<and> buf ! 9 = 2 \<and> ntohs (buf ! 2) (buf ! 3) \<le> igmp_iov_min_size
      \<and> i = get_if_index_addr net ifs (Addr4 (read32 buf 12)) \<and> i \<noteq> 0 \<longrightarrow>
        igmp_analyse_packet net ifs rel buf = (map (record_msg IGMP_RECEIVER i) rs, True))
    \<and> ((\<forall>r \<in> set rs. wire_ok MLD_RECEIVER r)
      \<and> bytes_at buf 0 (report_header 143 rest (length rs) @ concat (map record_bytes rs))
      \<and> 40 \<le> length buf \<and> find_pktinfo cs = Some i \<longrightarrow>
        mld_analyse_packet host16 ifs rel buf cs = (map (record_msg MLD_RECEIVER i) rs, True))"
  using igmp_report_decoded [OF _ assms(1,2) _ _ _ _ _ _ assms(3)] mld_report_decoded [OF _ assms(1,2) _ _ _ assms(3)]
  by blast

definition ex_wire :: wire_record where
  "ex_wire = \<lparr>wr_type = 1, wr_gaddr = Addr4 0xE8010203, wr_srcs = [Addr4 7], wr_aux = [0, 0, 0, 0]\<rparr>"

definition ex_packet :: "u8 list" where
  "ex_packet = [0x46, 0, 0, 50, 0, 0, 0, 0, 1, 2, 0, 0, 10, 0, 0, 9, 224, 0, 0, 22, 0x94, 4, 0, 0]
     @ report_header 0x22 [0, 0, 0, 0, 0] 1 @ record_bytes ex_wire"

lemma report_decoded_witness:
  "igmp_analyse_packet ex_names ex_interfaces [(2, ())] ex_packet = ([record_msg IGMP_RECEIVER 2 ex_wire], True)"
proof -
  have "get_if_index_addr ex_names ex_interfaces (Addr4 (read32 ex_packet 12)) = 2"
    by (simp add: ex_packet_def read32_def ntohl_def get_if_index_addr_def ex_interfaces_def ex_names_def
        subnet_holds_def ex_ifaddrs_def)
  moreover have "bytes_at ex_packet (unat (ex_packet ! 0 AND 15) * 4)
      (report_header 0x22 [0, 0, 0, 0, 0] (length [ex_wire]) @ concat (map record_bytes [ex_wire]))"
    by (simp add: ex_packet_def bytes_at_def)
  moreover have "ntohs (ex_packet ! 2) (ex_packet ! 3) \<le> igmp_iov_min_size"
    by (simp add: ex_packet_def ntohs_def igmp_iov_min_size_def)
  moreover have "\<forall>r \<in> set [ex_wire]. wire_ok IGMP_RECEIVER r"
    by (simp add: ex_wire_def wire_ok_def) presburger
  moreover have "20 \<le> length ex_packet" "ex_packet ! 9 = 2" by (simp_all add: ex_packet_def)
  moreover have "is_if_index_relevant [(2, ())] 2" by (simp add: is_if_index_relevant_def)
  ultimately show ?thesis
    using report_decoded [of "[ex_wire]" "[0, 0, 0, 0, 0]" "[(2, ())]" 2 ex_packet ex_names ex_interfaces] by simp
qed

text \<open>The number of records a packet announces is trusted.  A report that announces more records than
  the receive buffer can hold makes the receiver read beyond the buffer.\<close>

theorem report_overread:
  assumes "igmp_iov_min_size = length buf" "buf ! 9 = 2" "ntohs (buf ! 2) (buf ! 3) \<le> igmp_iov_min_size"
    and "buf ! (unat (buf ! 0 AND 15) * 4) = 0x22"
    and "i = get_if_index_addr net ifs (Addr4 (read32 buf 12))" "i \<noteq> 0" "is_if_index_relevant rel i"
    and "n = ntohs (buf ! (unat (buf ! 0 AND 15) * 4 + 6)) (buf ! (unat (buf ! 0 AND 15) * 4 + 7))" "1254 \<le> n"
  shows "\<not> snd (igmp_analyse_packet net ifs rel buf)"
proof -
  let ?igmp = "unat (buf ! 0 AND 15) * 4"
  have len: "length buf = 10032" using assms(1) by (simp add: igmp_iov_min_size_def)
  have "unat (buf ! 0 AND 15) \<le> 15" using word_and_le1 [of "buf ! 0" 15] by (simp add: word_le_nat_alt)
  then have "?igmp + 8 \<le> length buf" using len by simp
  moreover have "\<not> snd (read_records IGMP_RECEIVER i buf n (?igmp + 8))"
  proof
    assume "snd (read_records IGMP_RECEIVER i buf n (?igmp + 8))"
    from read_records_inside [OF this] assms(9) len show False by simp
  qed
  ultimately show ?thesis using assms len by (simp add: igmp_analyse_packet_def Let_def)
qed

definition ex_long :: "u8 list" where
  "ex_long = [0x45, 0, 0, 50, 0, 0, 0, 0, 1, 2, 0, 0, 10, 0, 0, 9, 224, 0, 0, 22, 0x22, 0, 0, 0, 0, 0, 0xFF, 0xFF] @ replicate 10004 0"

lemma report_overread_witness: "\<not> snd (igmp_analyse_packet ex_names ex_interfaces [(2, ())] ex_long)"
proof -
  have "get_if_index_addr ex_names ex_interfaces (Addr4 (read32 ex_long 12)) = 2"
    by (simp add: ex_long_def read32_def ntohl_def get_if_index_addr_def ex_interfaces_def ex_names_def
        subnet_holds_def ex_ifaddrs_def)
  moreover have "igmp_iov_min_size = length ex_long" by (simp add: igmp_iov_min_size_def ex_long_def)
  moreover have "ex_long ! 9 = 2" "ntohs (ex_long ! 2) (ex_long ! 3) \<le> igmp_iov_min_size" "unat (ex_long ! 0 AND 15) * 4 = 20"
    "ex_long ! 20 = 0x22" "ntohs (ex_long ! 26) (ex_long ! 27) = 65535"
    by (simp_all add: ex_long_def ntohs_def igmp_iov_min_size_def)
  moreover have "is_if_index_relevant [(2, ())] 2" by (simp add: is_if_index_relevant_def)
  ultimately show ?thesis
    using report_overread [of ex_long 2 ex_names ex_interfaces "[(2, ())]" 65535] by simp
qed

end
