(* ===== verification/Proxy_Instance.thy ===== *)
theory Proxy_Instance
  imports Routes Receivers
begin

section \<open>The proxy instance (proxy_instance.cpp)\<close>

text \<open>
  The constructor and the worker thread of a proxy instance.  One message at a time is taken from the job
  queue and handled.  A querier calls the routing management back when the state of a group has changed;
  its notification is recorded in the log with the database the callback can read, it is the last effect of the
  handler (shown in \<^verbatim>\<open>Instance_Routes\<close>), and \<open>state_changes\<close> runs the callback for it.  An exception that leaves the worker
  thread ends the process (\<open>crash\<close>).
\<close>

subsection \<open>Construction\<close>

datatype instance_error =
  Failed_sender | Failed_mroute_socket | Failed_receiver | Failed_routing

text \<open>A sequence of socket calls, each of which throws when it fails.\<close>

fun setup_all :: "socket_option list \<Rightarrow> world \<Rightarrow> bool \<times> world" where
  "setup_all [] w = (True, w)"
| "setup_all (x # xs) w =
     (let (rc, w) = sock_call (Set_option x) w in if rc then setup_all xs w else (False, w))"

fun new_sender :: "sender_kind \<Rightarrow> world \<Rightarrow> bool \<times> world" where
  "new_sender IGMP_SENDER w = setup_all [Create_raw_socket AF_INET, Set_loop_back False, Set_no_ip_hdr True] w"
| "new_sender MLD_SENDER w =
     setup_all [Create_raw_socket AF_INET6, Set_loop_back False, Set_auto_icmp6_checksum True, Add_router_alert_header] w"

text \<open>The result of the creation of the raw socket is ignored.\<close>

definition init_mrt_socket :: "group_mem_protocol \<Rightarrow> int \<Rightarrow> world \<Rightarrow> bool \<times> world" where
  "init_mrt_socket gmp table w =
     (let (rc, w) = sock_call (Set_option (Create_raw_socket (get_addr_family_gmp gmp))) w
      in setup_all ((if table > 0 then [Set_kernel_table table] else []) @ [Set_mrt_flag True]) w)"

definition sender_of :: "group_mem_protocol \<Rightarrow> sender_kind" where
  "sender_of gmp = (if is_IPv4 gmp then IGMP_SENDER else MLD_SENDER)"

definition new_receiver :: "group_mem_protocol \<Rightarrow> world \<Rightarrow> bool \<times> world" where
  "new_receiver gmp w =
     setup_all (Set_receive_timeout 100 # (if is_IPv4 gmp then [] else [Set_recv_icmpv6_msg, Set_recv_pkt_info])) w"

definition new_proxy_instance ::
  "net_names \<Rightarrow> global_table_set \<Rightarrow> ifaddrs list option \<Rightarrow> group_mem_protocol \<Rightarrow> string \<Rightarrow> int \<Rightarrow> interfaces \<Rightarrow> nat
     \<Rightarrow> world \<Rightarrow> (instance_error + proxy_instance) \<times> world" where
  "new_proxy_instance net gts getifaddrs gmp name table ifs wk w =
     (let (t, w) = now w;
          (rc, w) = init_mrt_socket gmp table w
      in if \<not> rc then (Inl Failed_mroute_socket, w)
         else
           (let (rc, w) = new_sender (sender_of gmp) w
            in if \<not> rc then (Inl Failed_sender, w)
               else
                 (let (rc, w) = new_receiver gmp w
                  in if \<not> rc then (Inl Failed_receiver, w)
                     else
                       (case new_routing (get_addr_family_gmp gmp) getifaddrs table of
                          None \<Rightarrow> (Inl Failed_routing, w)
                        | Some r \<Rightarrow>
                            (Inr \<lparr>p_group_mem_protocol = gmp, p_instance_name = name, p_table_number = table,
                               p_worker = wk, p_names = net, p_tables = gts, p_interfaces = ifs, p_sender = sender_of gmp,
                               p_relevant_if_index = [], p_routing = r, p_routing_data = new_routing_data gmp,
                               p_upstreams = [], p_downstreams = [],
                               p_upstream_input_rule = matching_binding name IT_UPSTREAM ''*'' ID_IN RMT_FIRST 0,
                               p_upstream_output_rule = matching_binding name IT_UPSTREAM ''*'' ID_OUT RMT_ALL 0,
                               p_running = True\<rparr>, w)))))"

subsection \<open>Configuration messages\<close>

text \<open>Registering an interface at the kernel and at the receiver; the results are not looked at.\<close>

definition register_interface :: "u32 \<Rightarrow> proxy_instance \<Rightarrow> world \<Rightarrow> proxy_instance \<times> world" where
  "register_interface i p w =
     (let (rc, r, w) = add_vif (p_names p) i (get_virtual_if_index (p_interfaces p) i) (p_routing p) w
      in (p\<lparr>p_routing := r, p_relevant_if_index := registrate_interface i (p_relevant_if_index p)\<rparr>, w))"

definition unregister_interface :: "u32 \<Rightarrow> proxy_instance \<Rightarrow> world \<Rightarrow> proxy_instance \<times> world" where
  "unregister_interface i p w =
     (let (rc, r, w) = del_vif i (get_virtual_if_index (p_interfaces p) i) (p_routing p) w
      in (p\<lparr>p_routing := r, p_relevant_if_index := receiver_del_interface i (p_relevant_if_index p)\<rparr>, w))"

definition set_global_rule_binding :: "rule_binding \<Rightarrow> proxy_instance \<Rightarrow> proxy_instance" where
  "set_global_rule_binding rb p =
     (if rb_rule_binding_type rb = RBT_RULE_MATCHING then
        (if rb_interface_type rb = IT_UPSTREAM then
           (if rb_filter_direction rb = ID_IN then p\<lparr>p_upstream_input_rule := rb\<rparr>
            else if rb_filter_direction rb = ID_OUT then p\<lparr>p_upstream_output_rule := rb\<rparr>
            else p)
         else p)
      else p)"

fun handle_config :: "config_msg \<Rightarrow> proxy_instance \<Rightarrow> world \<Rightarrow> proxy_instance \<times> world" where
  "handle_config (ADD_DOWNSTREAM i interf tv) p w =
     (if \<not> is_downstream p i then
        (let (p, w) = (if \<not> is_upstream p i then register_interface i p w else (p, w))
         in case new_querier (p_worker p) (p_group_mem_protocol p) i (p_sender p) tv w of
              (Inl e, w) \<Rightarrow> (p, crash w)
            | (Inr q, w) \<Rightarrow>
                (p\<lparr>p_downstreams := sm_insert i \<lparr>di_querier = q, di_interface = interf\<rparr> (p_downstreams p)\<rparr>, w))
      else (p, w))"
| "handle_config (DEL_DOWNSTREAM i) p w =
     (case map_of (p_downstreams p) i of
        Some d \<Rightarrow>
          (let (p, w) = (if \<not> is_upstream p i then unregister_interface i p w else (p, w))
           in (p\<lparr>p_downstreams := sm_erase i (p_downstreams p)\<rparr>, delete_querier (di_querier d) w))
      | None \<Rightarrow> (p, w))"
| "handle_config (ADD_UPSTREAM i prio interf) p w =
     (if \<not> is_upstream p i then
        (let (p, w) = (if \<not> is_downstream p i then register_interface i p w else (p, w))
         in (p\<lparr>p_upstreams := sm_insert prio \<lparr>ui_if_index = i, ui_interface = interf\<rparr> (p_upstreams p)\<rparr>, w))
      else (p, w))"
| "handle_config (DEL_UPSTREAM i) p w =
     (case List.find (\<lambda>e. ui_if_index (snd e) = i) (p_upstreams p) of
        Some e \<Rightarrow>
          (let (p, w) = (if \<not> is_downstream p i then unregister_interface i p w else (p, w))
           in (p\<lparr>p_upstreams := sm_erase (fst e) (p_upstreams p)\<rparr>, w))
      | None \<Rightarrow> (p, w))"
| "handle_config (SET_GLOBAL_RULE_BINDING rb) p w =
     (case rb of Some rb \<Rightarrow> (set_global_rule_binding rb p, w) | None \<Rightarrow> (p, w))"

subsection \<open>The worker thread\<close>

text \<open>The callback of a querier, run on the state the notification carries.\<close>

definition with_db :: "u32 \<Rightarrow> membership_db \<Rightarrow> proxy_instance \<Rightarrow> proxy_instance" where
  "with_db i db p =
     p\<lparr>p_downstreams := sm_map (\<lambda>k d. if k = i then d\<lparr>di_querier := (di_querier d)\<lparr>q_db := db\<rparr>\<rparr> else d) (p_downstreams p)\<rparr>"

fun state_changes :: "event list \<Rightarrow> proxy_instance \<Rightarrow> world \<Rightarrow> world" where
  "state_changes [] p w = w"
| "state_changes (State_change i gaddr db # es) p w =
     state_changes es p (event_querier_state_change gaddr (with_db i db p) w)"
| "state_changes (e # es) p w = state_changes es p w"

definition run_querier ::
  "u32 \<Rightarrow> (querier \<Rightarrow> world \<Rightarrow> querier \<times> world) \<Rightarrow> proxy_instance \<Rightarrow> world \<Rightarrow> proxy_instance \<times> world" where
  "run_querier i f p w =
     (case map_of (p_downstreams p) i of
        None \<Rightarrow> (p, w)
      | Some d \<Rightarrow>
          (let (q, w') = f (di_querier d) w;
               p = p\<lparr>p_downstreams := sm_assign i (d\<lparr>di_querier := q\<rparr>) (p_downstreams p)\<rparr>
           in (p, state_changes (drop (length (log w)) (log w')) p w')))"

text \<open>One message.  \<open>stats\<close> are the packet counters of the kernel, \<open>shared\<close> tells whether the timing thread
  still holds a reference to a timer message.\<close>

definition handle_msg ::
  "mroute_stats \<Rightarrow> bool \<Rightarrow> proxy_msg \<Rightarrow> proxy_instance \<Rightarrow> world \<Rightarrow> proxy_instance \<times> world" where
  "handle_msg stats shared msg p w =
     (case msg of
        Config_msg c \<Rightarrow> handle_config c p w
      | Timer_msg tm \<Rightarrow>
          (if tm_type tm \<in> {FILTER_TIMER_MSG, SOURCE_TIMER_MSG, RET_GROUP_TIMER_MSG, RET_SOURCE_TIMER_MSG,
                             OLDER_HOST_PRESENT_TIMER_MSG, GENERAL_QUERY_TIMER_MSG}
           then run_querier (tm_if_index tm) (\<lambda>q w. timer_triggerd shared q tm w) p w
           else if tm_type tm = NEW_SOURCE_TIMER_MSG then timer_triggerd_maintain_routing_table stats shared tm p w
           else (p, w))
      | Group_record_msg r \<Rightarrow> run_querier (gr_if_index r) (\<lambda>q w. receive_record q r w) p w
      | New_source_msg m \<Rightarrow> event_new_source stats m p w
      | Exit_cmd \<Rightarrow> (p\<lparr>p_running := False\<rparr>, w)
      | _ \<Rightarrow> (p, w))"

end
