(* ===== verification/Instance_Run.thy ===== *)
theory Instance_Run
  imports Proxy_Instance
begin

section \<open>Runs of a proxy instance\<close>

text \<open>
  A proxy instance as a transition system: it is created and handles messages, one after the other, while
  other threads act on the world.  The invariant composes the ones of the parts; in particular every
  downstream querier behaves as a querier of its own (\<open>querier_run\<close>), so that the properties of the
  querier hold inside the instance.
\<close>

subsection \<open>What the operations do to the world\<close>

lemma extends_sock [simp]: "extends w (snd (sock_call e w))"
  by (simp add: extends_def sock_call_def emit_def)

lemma extends_send_record [simp]: "extends w (snd (send_record k i fm g l w))"
  using io_only_send_record [of w k i fm g l] by (auto simp: io_only_def extends_def)

lemma extends_add_vif: "extends w (snd (snd (add_vif net i v r w)))"
  by (auto simp: add_vif_def bind_table_def sock_call_def emit_def crash_def extends_def Let_def split: vif_item.splits)

lemma extends_del_vif: "extends w (snd (snd (del_vif i v r w)))"
  by (auto simp: del_vif_def unbind_table_def sock_call_def emit_def extends_def Let_def)

lemma extends_set_route: "extends w (set_route p g e w)"
  by (auto simp: set_route_def del_route_def routing_del_route_def add_route_def split: option.splits)

lemma extends_set_routes: "extends w (set_routes p g l w)"
  unfolding set_routes_def by (induction l arbitrary: w) (auto intro: extends_trans [OF extends_set_route])

lemma extends_send_records: "extends w (send_records p g us im w)"
proof (induction us arbitrary: im w)
  case (Cons u us)
  then show ?case by (auto split: option.splits intro: extends_trans [OF extends_send_record])
qed simp

lemma extends_aggregation: "extends w (process_membership_aggregation t g p w)"
  by (simp add: process_membership_aggregation_def extends_send_records)

lemma extends_state_change: "extends w (event_querier_state_change g p w)"
  by (auto simp: event_querier_state_change_def Let_def extends_set_routes
      intro: extends_trans [OF extends_set_routes extends_aggregation])

lemma extends_state_changes: "extends w (state_changes es p w)"
  by (induction es p w rule: state_changes.induct) (auto intro: extends_trans [OF extends_state_change])

lemma extends_set_source_timer: "set_source_timer p i g a w = (t, w') \<Longrightarrow> extends w w'"
  by (auto simp: set_source_timer_def Let_def split: prod.splits intro: extends_trans [OF extends_make_timer])

lemma extends_router_groups: "extends w (snd (router_groups_function b q w))"
proof -
  have "extends w (snd (send_router_groups k i mf gs w))" for k i mf gs
    by (induction gs arbitrary: w) (auto simp: case_prod_unfold Let_def intro: extends_trans [OF extends_send_record])
  then show ?thesis by (simp add: router_groups_function_def Let_def del: send_router_groups.simps)
qed

lemma extends_new_querier: "extends w (snd (new_querier wk gmp i k tv w))"
proof -
  let ?q = "\<lparr>q_msg_worker = wk, q_if_index = i, q_db = new_membership_db gmp,
               q_timers_values = copy_timers_values new_timers_values tv, q_sender = k\<rparr>"
  obtain rc w1 where r: "router_groups_function True ?q w = (rc, w1)" by fastforce
  obtain rc2 q w2 where g: "send_general_query ?q w1 = (rc2, q, w2)" by (metis prod_cases3)
  have "db_inv ?q w1" by (simp add: db_inv_def find_group_def new_membership_db_def)
  with general_query_ok(1) [OF g] have "extends w1 w2" by (simp add: stays_ok_def)
  moreover have "extends w w1" using extends_router_groups [of w True ?q] by (simp add: r)
  ultimately show ?thesis by (auto simp: new_querier_def r g Let_def intro: extends_trans)
qed

lemma new_querier_config: "new_querier wk gmp i k tv w = (Inr q, w') \<Longrightarrow> q_if_index q = i"
proof -
  assume n: "new_querier wk gmp i k tv w = (Inr q, w')"
  let ?q = "\<lparr>q_msg_worker = wk, q_if_index = i, q_db = new_membership_db gmp,
               q_timers_values = copy_timers_values new_timers_values tv, q_sender = k\<rparr>"
  obtain rc w1 where r: "router_groups_function True ?q w = (rc, w1)" by fastforce
  obtain rc2 where g: "send_general_query ?q w1 = (rc2, q, w')"
    using n r by (auto simp: new_querier_def Let_def split: if_splits prod.splits)
  have "db_inv ?q w1" by (simp add: db_inv_def find_group_def new_membership_db_def)
  with general_query_ok(1) [OF g] show ?thesis by (simp add: stays_ok_def same_config_def)
qed

subsection \<open>The invariant\<close>

definition queriers_run :: "proxy_instance \<Rightarrow> world \<Rightarrow> bool" where
  "queriers_run p w \<longleftrightarrow> (\<forall>e \<in> set (p_downstreams p). querier_run (di_querier (snd e)) w)"

definition relevant_ok :: "proxy_instance \<Rightarrow> bool" where
  "relevant_ok p \<longleftrightarrow> (\<forall>i. i \<in> sm_keys (p_relevant_if_index p) \<longleftrightarrow> is_upstream p i \<or> is_downstream p i)"

definition inst_inv :: "proxy_instance \<Rightarrow> world \<Rightarrow> bool" where
  "inst_inv p w \<longleftrightarrow> inst_ok p \<and> sources_registered p \<and> relevant_ok p \<and> queriers_run p w"

text \<open>The messages an instance can get: the proxy adds interfaces that were numbered, with a priority of
  their own; the receivers report sources on numbered interfaces and records as they build them; no timer
  is marked as a source timer.\<close>

definition msg_ok :: "proxy_instance \<Rightarrow> proxy_msg \<Rightarrow> bool" where
  "msg_ok p msg \<longleftrightarrow>
     (case msg of
        Config_msg (ADD_DOWNSTREAM i interf tv) \<Rightarrow> i \<in> registered (p_interfaces p)
      | Config_msg (ADD_UPSTREAM i prio interf) \<Rightarrow> i \<in> registered (p_interfaces p) \<and> \<not> sm_mem prio (p_upstreams p)
      | New_source_msg m \<Rightarrow> ns_if_index m \<in> registered (p_interfaces p)
      | Group_record_msg r \<Rightarrow> record_ok r
      | Timer_msg tm \<Rightarrow> \<not> tm_is_used_as_source_timer tm
      | _ \<Rightarrow> True)"

inductive instance_run :: "proxy_instance \<Rightarrow> world \<Rightarrow> bool" where
  inst_start: "ifs_ok ifs \<Longrightarrow> new_proxy_instance net gts getifaddrs gmp name table ifs wk w0 = (Inr p, w) \<Longrightarrow> instance_run p w"
| inst_msg: "instance_run p w \<Longrightarrow> \<not> crashed w \<Longrightarrow> msg_ok p msg \<Longrightarrow> handle_msg stats shared msg p w = (p', w') \<Longrightarrow> instance_run p' w'"
| inst_other: "instance_run p w \<Longrightarrow> extends w w' \<Longrightarrow> instance_run p w'"

lemma inst_inv_extends: "inst_inv p w \<Longrightarrow> extends w w' \<Longrightarrow> inst_inv p w'"
  by (auto simp: inst_inv_def queriers_run_def intro: run_other)

lemma inst_inv_parts:
  assumes "inst_inv p w"
  shows "smap_ok (p_upstreams p)" "smap_ok (p_downstreams p)" "rd_ok (p_routing_data p)" "ifs_ok (p_interfaces p)"
    "routing_ok (p_routing p)"
  using assms by (simp_all add: inst_inv_def inst_ok_def)

subsection \<open>Queriers\<close>

lemma receive_record_frame:
  "querier_run q w \<Longrightarrow> record_ok r \<Longrightarrow> receive_record q r w = (q', w') \<Longrightarrow>
     querier_run q' w' \<and> q_if_index q' = q_if_index q \<and> extends w w'"
  using receive_record_ok(1) [OF _ run_inv] by (auto simp: stays_ok_def same_config_def intro: run_record)

lemma timer_triggerd_frame:
  "querier_run q w \<Longrightarrow> \<not> tm_is_used_as_source_timer m \<Longrightarrow> timer_triggerd s q m w = (q', w') \<Longrightarrow>
     querier_run q' w' \<and> q_if_index q' = q_if_index q \<and> extends w w'"
  using timer_triggerd_ok(1) [OF _ run_inv] by (auto simp: stays_ok_def same_config_def intro: run_timer)

lemma run_querier_inv:
  assumes "inst_inv p w" "run_querier i f p w = (p', w')"
    and f: "\<And>q q1 w1. querier_run q w \<Longrightarrow> f q w = (q1, w1) \<Longrightarrow> querier_run q1 w1 \<and> q_if_index q1 = q_if_index q \<and> extends w w1"
  shows "inst_inv p' w'"
proof (cases "map_of (p_downstreams p) i")
  case None
  with assms(1,2) show ?thesis by (simp add: run_querier_def)
next
  case (Some d)
  obtain q1 w1 where q1: "f (di_querier d) w = (q1, w1)" by fastforce
  let ?p = "p\<lparr>p_downstreams := sm_assign i (d\<lparr>di_querier := q1\<rparr>) (p_downstreams p)\<rparr>"
  have r: "p' = ?p" "w' = state_changes (drop (length (log w)) (log w1)) ?p w1"
    using assms(2) Some q1 by (auto simp: run_querier_def Let_def)
  have d: "(i, d) \<in> set (p_downstreams p)" using Some by (rule map_of_SomeD)
  then have "querier_run (di_querier d) w" using assms(1) by (auto simp: inst_inv_def queriers_run_def)
  note q = f [OF this q1]
  have "i \<in> sm_keys (p_downstreams p)" using Some by (auto simp: sm_keys_dom)
  then have keys: "sm_keys (p_downstreams ?p) = sm_keys (p_downstreams p)" by (simp add: insert_absorb)
  have elem: "e \<in> set (p_downstreams ?p) \<Longrightarrow> e = (i, d\<lparr>di_querier := q1\<rparr>) \<or> e \<in> set (p_downstreams p)" for e
    by (auto dest: sm_assign_set)
  have "\<forall>e \<in> set (p_downstreams ?p). q_if_index (di_querier (snd e)) = fst e \<and> fst e \<in> registered (p_interfaces ?p)"
    using elem d q assms(1) by (fastforce simp: inst_inv_def inst_ok_def)
  moreover have "queriers_run ?p w1"
    using elem q assms(1) run_other [OF _ conjunct2 [OF conjunct2 [OF q]]] by (fastforce simp: inst_inv_def queriers_run_def)
  moreover have "sources_registered ?p" "relevant_ok ?p"
    using assms(1) keys by (simp_all add: inst_inv_def sources_registered_def relevant_ok_def is_downstream_iff is_upstream_def)
  moreover have "smap_ok (p_downstreams ?p)" using inst_inv_parts [OF assms(1)] by simp
  ultimately have "inst_inv ?p w1" using assms(1) by (simp add: inst_inv_def inst_ok_def)
  then show ?thesis using r inst_inv_extends extends_state_changes by blast
qed

subsection \<open>Sources\<close>

definition knows_no_more :: "simple_routing_data \<Rightarrow> simple_routing_data \<Rightarrow> bool" where
  "knows_no_more rd rd' \<longleftrightarrow> rd_ok rd' \<and> (\<forall>g a i. known_interface rd' g a = Some i \<longrightarrow> known_interface rd g a = Some i)"

lemma inst_inv_rd:
  assumes "inst_inv p w" "rd_ok rd" "\<And>g a i. known_interface rd g a = Some i \<Longrightarrow> i \<in> registered (p_interfaces p)"
  shows "inst_inv (p\<lparr>p_routing_data := rd\<rparr>) w"
  using assms by (simp add: inst_inv_def inst_ok_def sources_registered_def relevant_ok_def is_upstream_def is_downstream_def queriers_run_def)

lemma refresh_knows:
  assumes "rd_ok rd" "refresh_source_or_del_it_if_unused stats g a rd = (rc, rd')"
  shows "knows_no_more rd rd'"
proof (cases "\<exists>s. map_of (get_available_sources rd g) a = Some s \<and> word_of_int (retransmission_count s) \<noteq> get_current_packet_count stats rd g a")
  case True
  then obtain s where s: "map_of (get_available_sources rd g) a = Some s"
    "word_of_int (retransmission_count s) \<noteq> get_current_packet_count stats rd g a" by blast
  from refresh_kept [OF assms(1) s] assms(2) show ?thesis by (auto simp: knows_no_more_def known_interface_def)
next
  case False
  then have "rd' = del_source g a rd" using refresh_dropped [OF assms(1), of g a stats] assms(2) by auto
  with del_source_eq [OF assms(1)] known_del_source [OF assms(1)] show ?thesis by (auto simp: knows_no_more_def split: if_splits)
qed

lemma new_source_inv:
  assumes "inst_inv p w" "ns_if_index m \<in> registered (p_interfaces p)" "event_new_source stats m p w = (p', w')"
  shows "inst_inv p' w'"
proof -
  obtain t w1 where t: "set_source_timer p (ns_if_index m) (ns_gaddr m) (ns_saddr m) w = (t, w1)" by fastforce
  let ?rd = "set_source stats (ns_if_index m) (ns_gaddr m) (ns_saddr m) (new_source\<lparr>shared_source_timer := Some t\<rparr>) (p_routing_data p)"
  let ?p = "p\<lparr>p_routing_data := ?rd\<rparr>"
  let ?w = "set_routes ?p (ns_gaddr m) (collect_interested_interfaces ?p (ns_gaddr m) [ns_saddr m]) w1"
  have r: "p' = ?p" "w' = (if is_rule_matching_type ?p IT_UPSTREAM ID_IN RMT_MUTEX
      then process_membership_aggregation RMT_MUTEX (ns_gaddr m) ?p ?w else ?w)"
    using assms(3) by (auto simp: event_new_source_def t Let_def)
  have rd: "rd_ok (p_routing_data p)" by (rule inst_inv_parts [OF assms(1)])
  have "inst_inv ?p w"
    using assms(1,2) by (intro inst_inv_rd [OF assms(1)])
      (auto simp: rd_ok_set_source rd known_set_source inst_inv_def sources_registered_def split: if_splits)
  moreover have "extends w ?w" by (rule extends_trans [OF extends_set_source_timer [OF t] extends_set_routes])
  then have "extends w w'" unfolding r(2) by (auto intro: extends_trans [OF _ extends_aggregation])
  ultimately show ?thesis using r inst_inv_extends by blast
qed

lemma maintain_inv:
  assumes "inst_inv p w" "timer_triggerd_maintain_routing_table stats shared m p w = (p', w')"
  shows "inst_inv p' w'"
proof -
  have rd: "rd_ok (p_routing_data p)" by (rule inst_inv_parts [OF assms(1)])
  have reg: "known_interface (p_routing_data p) g a = Some i \<Longrightarrow> i \<in> registered (p_interfaces p)" for g a i
    using assms(1) by (auto simp: inst_inv_def sources_registered_def)
  obtain rc rd1 where f: "refresh_source_or_del_it_if_unused stats (tm_gaddr m) (tm_saddr m) (p_routing_data p) = (rc, rd1)"
    by fastforce
  have k: "rd_ok rd1" "known_interface rd1 g a = Some i \<Longrightarrow> i \<in> registered (p_interfaces p)" for g a i
    using refresh_knows [OF rd f] reg unfolding knows_no_more_def by blast+
  let ?p = "p\<lparr>p_routing_data := rd1\<rparr>"
  have inv: "inst_inv ?p w" by (rule inst_inv_rd [OF assms(1) k])
  let ?w = "del_route ?p (tm_if_index m) (tm_gaddr m) (tm_saddr m) w"
  let ?wa = "if is_rule_matching_type ?p IT_UPSTREAM ID_IN RMT_MUTEX
      then process_membership_aggregation RMT_MUTEX (tm_gaddr m) ?p ?w else ?w"
  obtain t w1 where t: "set_source_timer ?p (tm_if_index m) (tm_gaddr m) (tm_saddr m) w = (t, w1)" by fastforce
  let ?pt = "p\<lparr>p_routing_data := set_shared_source_timer (tm_gaddr m) (tm_saddr m) t rd1\<rparr>"
  have "p' = p \<and> w' = w \<or> p' = ?p \<and> w' = ?wa \<or> p' = ?pt \<and> w' = w1"
    using assms(2) unfolding timer_triggerd_maintain_routing_table_def f
    by (auto simp: t Let_def split: if_splits option.splits)
  moreover have "extends w ?w" by (simp add: del_route_def routing_del_route_def)
  then have "extends w ?wa" by (auto intro: extends_trans [OF _ extends_aggregation])
  moreover have "inst_inv ?pt w"
    using set_timer_ok [OF k(1)] k(2) by (intro inst_inv_rd [OF assms(1)]) (auto simp: known_interface_def)
  ultimately show ?thesis
    using assms(1) inv inst_inv_extends extends_set_source_timer [OF t] by blast
qed

subsection \<open>Configuration\<close>

lemma add_vif_ok: "routing_ok r \<Longrightarrow> routing_ok (fst (snd (add_vif net i v r w)))"
  by (auto simp: add_vif_def bind_table_def sock_call_def routing_ok_def Let_def split: vif_item.splits)

lemma del_vif_ok: "routing_ok r \<Longrightarrow> routing_ok (fst (snd (del_vif i v r w)))"
  by (auto simp: del_vif_def unbind_table_def sock_call_def routing_ok_def Let_def)

lemma register_frame:
  assumes "register_interface i p w = (p', w')"
  shows "\<exists>r. p' = p\<lparr>p_routing := r, p_relevant_if_index := sm_insert i () (p_relevant_if_index p)\<rparr>
    \<and> (routing_ok (p_routing p) \<longrightarrow> routing_ok r) \<and> extends w w'"
proof -
  let ?a = "add_vif (p_names p) i (get_virtual_if_index (p_interfaces p) i) (p_routing p) w"
  have "p' = p\<lparr>p_routing := fst (snd ?a), p_relevant_if_index := sm_insert i () (p_relevant_if_index p)\<rparr>" "w' = snd (snd ?a)"
    using assms by (auto simp: register_interface_def registrate_interface_def Let_def split: prod.splits)
  then show ?thesis using add_vif_ok extends_add_vif by blast
qed

lemma unregister_frame:
  assumes "unregister_interface i p w = (p', w')"
  shows "\<exists>r. p' = p\<lparr>p_routing := r, p_relevant_if_index := sm_erase i (p_relevant_if_index p)\<rparr>
    \<and> (routing_ok (p_routing p) \<longrightarrow> routing_ok r) \<and> extends w w'"
proof -
  let ?a = "del_vif i (get_virtual_if_index (p_interfaces p) i) (p_routing p) w"
  have "p' = p\<lparr>p_routing := fst (snd ?a), p_relevant_if_index := sm_erase i (p_relevant_if_index p)\<rparr>" "w' = snd (snd ?a)"
    using assms by (auto simp: unregister_interface_def receiver_del_interface_def Let_def split: prod.splits)
  then show ?thesis using del_vif_ok extends_del_vif by blast
qed

text \<open>The four changes of the interfaces, with the interface registered or unregistered where it is not used
  otherwise.\<close>

lemma inst_inv_change:
  assumes "inst_inv p w" "p_interfaces p' = p_interfaces p" "p_routing_data p' = p_routing_data p" "routing_ok (p_routing p')"
    and "smap_ok (p_upstreams p')" "distinct (map (\<lambda>e. ui_if_index (snd e)) (p_upstreams p'))" "smap_ok (p_downstreams p')"
    and "\<And>e. e \<in> set (p_upstreams p') \<Longrightarrow> ui_if_index (snd e) \<in> registered (p_interfaces p)"
    and "\<And>e. e \<in> set (p_downstreams p') \<Longrightarrow> q_if_index (di_querier (snd e)) = fst e \<and> fst e \<in> registered (p_interfaces p)
           \<and> querier_run (di_querier (snd e)) w'"
    and "\<And>j. j \<in> sm_keys (p_relevant_if_index p') \<longleftrightarrow> j \<in> ui_if_index ` snd ` set (p_upstreams p') \<or> j \<in> sm_keys (p_downstreams p')"
  shows "inst_inv p' w'"
  using assms
  by (simp add: inst_inv_def inst_ok_def sources_registered_def relevant_ok_def is_upstream_iff is_downstream_iff queriers_run_def)

lemma inst_inv_lists:
  assumes "inst_inv p w"
  shows "\<And>e. e \<in> set (p_upstreams p) \<Longrightarrow> ui_if_index (snd e) \<in> registered (p_interfaces p)"
    "\<And>e. e \<in> set (p_downstreams p) \<Longrightarrow> q_if_index (di_querier (snd e)) = fst e \<and> fst e \<in> registered (p_interfaces p)
       \<and> querier_run (di_querier (snd e)) w"
    "\<And>j. j \<in> sm_keys (p_relevant_if_index p) \<longleftrightarrow> j \<in> ui_if_index ` snd ` set (p_upstreams p) \<or> j \<in> sm_keys (p_downstreams p)"
    "distinct (map (\<lambda>e. ui_if_index (snd e)) (p_upstreams p))"
  using assms
  by (simp_all add: inst_inv_def inst_ok_def relevant_ok_def is_upstream_iff is_downstream_iff queriers_run_def)

lemma insert_fresh_distinct:
  "\<not> sm_mem k m \<Longrightarrow> f v \<notin> f ` snd ` set m \<Longrightarrow> distinct (map (\<lambda>e. f (snd e)) m) \<Longrightarrow>
     distinct (map (\<lambda>e. f (snd e)) (sm_insert k v m)) \<and> snd ` set (sm_insert k v m) = insert v (snd ` set m)"
proof (induction k v m rule: sm_insert.induct)
  case (2 k v k' v' m)
  show ?case
  proof (cases "k < k'")
    case True
    with 2(2-) show ?thesis by force
  next
    case False
    have "k \<noteq> k'" "\<not> sm_mem k m" "f v \<notin> f ` snd ` set m" "distinct (map (\<lambda>e. f (snd e)) m)" using 2(2-) by auto
    note ih = 2(1) [OF False this]
    have "f v' \<notin> (\<lambda>e. f (snd e)) ` set (sm_insert k v m)"
    proof -
      have "(\<lambda>e. f (snd e)) ` set (sm_insert k v m) = f ` snd ` set (sm_insert k v m)" by (simp add: image_image)
      also have "\<dots> = insert (f v) (f ` snd ` set m)" using ih by simp
      finally show ?thesis using 2(3,4) by (auto simp: image_image)
    qed
    with ih False \<open>k \<noteq> k'\<close> show ?thesis by auto
  qed
qed simp

lemma register_if_new:
  assumes "(if c then register_interface i p w else (p, w)) = (p1, w1)" "inst_inv p w"
  shows "\<exists>r rel. p1 = p\<lparr>p_routing := r, p_relevant_if_index := rel\<rparr> \<and> routing_ok r \<and> extends w w1
    \<and> sm_keys rel = sm_keys (p_relevant_if_index p) \<union> (if c then {i} else {})"
proof (cases c)
  case True
  with register_frame [of i p w p1 w1] assms inst_inv_parts [OF assms(2)] show ?thesis by fastforce
next
  case False
  with assms inst_inv_parts [OF assms(2)] show ?thesis
    by (intro exI [of _ "p_routing p"] exI [of _ "p_relevant_if_index p"]) auto
qed

lemma unregister_if_unused:
  assumes "(if c then unregister_interface i p w else (p, w)) = (p1, w1)" "inst_inv p w"
  shows "\<exists>r rel. p1 = p\<lparr>p_routing := r, p_relevant_if_index := rel\<rparr> \<and> routing_ok r \<and> extends w w1
    \<and> sm_keys rel = sm_keys (p_relevant_if_index p) - (if c then {i} else {})"
proof (cases c)
  case True
  with unregister_frame [of i p w p1 w1] assms inst_inv_parts [OF assms(2)] show ?thesis by fastforce
next
  case False
  with assms inst_inv_parts [OF assms(2)] show ?thesis
    by (intro exI [of _ "p_routing p"] exI [of _ "p_relevant_if_index p"]) auto
qed

lemma add_upstream_inv:
  assumes "inst_inv p w" "i \<in> registered (p_interfaces p)" "\<not> sm_mem prio (p_upstreams p)"
    and "handle_config (ADD_UPSTREAM i prio interf) p w = (p', w')"
  shows "inst_inv p' w'"
proof (cases "is_upstream p i")
  case True
  with assms show ?thesis by simp
next
  case False
  obtain p1 w1 where r: "(if \<not> is_downstream p i then register_interface i p w else (p, w)) = (p1, w1)" by fastforce
  from register_if_new [OF r assms(1)] obtain rr rel where
    p1: "p1 = p\<lparr>p_routing := rr, p_relevant_if_index := rel\<rparr>" "routing_ok rr" "extends w w1"
      "sm_keys rel = sm_keys (p_relevant_if_index p) \<union> (if \<not> is_downstream p i then {i} else {})" by blast
  let ?u = "\<lparr>ui_if_index = i, ui_interface = interf\<rparr>"
  let ?us = "sm_insert prio ?u (p_upstreams p)"
  have res: "p' = p\<lparr>p_routing := rr, p_relevant_if_index := rel, p_upstreams := ?us\<rparr>" "w' = w1"
    using assms(4) False r p1(1) by (auto simp: Let_def)
  note l = inst_inv_lists [OF assms(1)] and parts = inst_inv_parts [OF assms(1)]
  have d: "distinct (map (\<lambda>e. ui_if_index (snd e)) ?us)" "snd ` set ?us = insert ?u (snd ` set (p_upstreams p))"
    using insert_fresh_distinct [OF assms(3), of ui_if_index ?u] l(4) False by (auto simp: is_upstream_iff)
  have "ui_if_index (snd e) \<in> registered (p_interfaces p)" if "e \<in> set ?us" for e
    using sm_insert_set [OF that] l(1) [of e] assms(2) by auto
  moreover have "q_if_index (di_querier (snd e)) = fst e \<and> fst e \<in> registered (p_interfaces p) \<and> querier_run (di_querier (snd e)) w1"
    if "e \<in> set (p_downstreams p)" for e using l(2) [OF that] run_other p1(3) by blast
  moreover have "j \<in> sm_keys rel \<longleftrightarrow> j \<in> ui_if_index ` snd ` set ?us \<or> j \<in> sm_keys (p_downstreams p)" for j
    unfolding d(2) p1(4) using l(3) [of j] by (auto simp: is_downstream_iff)
  ultimately show ?thesis unfolding res
    using d(1) p1(2) parts by (intro inst_inv_change [OF assms(1)]) simp_all
qed

lemma add_downstream_inv:
  assumes "inst_inv p w" "i \<in> registered (p_interfaces p)" "handle_config (ADD_DOWNSTREAM i interf tv) p w = (p', w')"
  shows "inst_inv p' w' \<or> crashed w'"
proof (cases "is_downstream p i")
  case True
  with assms show ?thesis by simp
next
  case False
  obtain p1 w1 where r: "(if \<not> is_upstream p i then register_interface i p w else (p, w)) = (p1, w1)" by fastforce
  from register_if_new [OF r assms(1)] obtain rr rel where
    p1: "p1 = p\<lparr>p_routing := rr, p_relevant_if_index := rel\<rparr>" "routing_ok rr" "extends w w1"
      "sm_keys rel = sm_keys (p_relevant_if_index p) \<union> (if \<not> is_upstream p i then {i} else {})" by blast
  obtain x w2 where n: "new_querier (p_worker p1) (p_group_mem_protocol p1) i (p_sender p1) tv w1 = (x, w2)" by fastforce
  show ?thesis
  proof (cases x)
    case (Inl e)
    with assms(3) False r n show ?thesis by (auto simp: crash_def)
  next
    case (Inr q)
    let ?d = "\<lparr>di_querier = q, di_interface = interf\<rparr>"
    let ?ds = "sm_insert i ?d (p_downstreams p)"
    have res: "p' = p\<lparr>p_routing := rr, p_relevant_if_index := rel, p_downstreams := ?ds\<rparr>" "w' = w2"
      using assms(3) False r p1(1) n Inr by (auto simp: Let_def)
    note l = inst_inv_lists [OF assms(1)] and parts = inst_inv_parts [OF assms(1)]
    have q: "querier_run q w2" "q_if_index q = i" using n Inr run_start new_querier_config by blast+
    have "extends w1 w2"
      using extends_new_querier [of w1 "p_worker p1" "p_group_mem_protocol p1" i "p_sender p1" tv] by (simp add: n)
    then have ext: "extends w w2" by (rule extends_trans [OF p1(3)])
    have "q_if_index (di_querier (snd e)) = fst e \<and> fst e \<in> registered (p_interfaces p) \<and> querier_run (di_querier (snd e)) w2"
      if "e \<in> set ?ds" for e
      using sm_insert_set [OF that]
    proof
      assume "e = (i, ?d)"
      with q assms(2) show ?thesis by simp
    next
      assume "e \<in> set (p_downstreams p)"
      with l(2) [OF this] run_other [OF _ ext] show ?thesis by blast
    qed
    moreover have "j \<in> sm_keys rel \<longleftrightarrow> j \<in> ui_if_index ` snd ` set (p_upstreams p) \<or> j \<in> sm_keys ?ds" for j
      unfolding p1(4) using l(3) [of j] by (auto simp: is_upstream_iff)
    ultimately have "inst_inv p' w'" unfolding res
      using p1(2) parts l(1,4) by (intro inst_inv_change [OF assms(1)]) simp_all
    then show ?thesis ..
  qed
qed

lemma del_downstream_inv:
  assumes "inst_inv p w" "handle_config (DEL_DOWNSTREAM i) p w = (p', w')"
  shows "inst_inv p' w'"
proof (cases "map_of (p_downstreams p) i")
  case None
  with assms show ?thesis by simp
next
  case (Some d)
  obtain p1 w1 where r: "(if \<not> is_upstream p i then unregister_interface i p w else (p, w)) = (p1, w1)" by fastforce
  from unregister_if_unused [OF r assms(1)] obtain rr rel where
    p1: "p1 = p\<lparr>p_routing := rr, p_relevant_if_index := rel\<rparr>" "routing_ok rr" "extends w w1"
      "sm_keys rel = sm_keys (p_relevant_if_index p) - (if \<not> is_upstream p i then {i} else {})" by blast
  have res: "p' = p\<lparr>p_routing := rr, p_relevant_if_index := rel, p_downstreams := sm_erase i (p_downstreams p)\<rparr>"
    "w' = delete_querier (di_querier d) w1"
    using assms(2) Some r p1(1) by (auto simp: Let_def)
  have ext: "extends w w'"
    using extends_trans [OF p1(3) extends_router_groups] by (simp add: res(2) delete_querier_def)
  note l = inst_inv_lists [OF assms(1)] and parts = inst_inv_parts [OF assms(1)]
  have "q_if_index (di_querier (snd e)) = fst e \<and> fst e \<in> registered (p_interfaces p) \<and> querier_run (di_querier (snd e)) w'"
    if "e \<in> set (sm_erase i (p_downstreams p))" for e
    using l(2) [of e] run_other [OF _ ext] that by (simp add: sm_erase_set)
  moreover have "j \<in> sm_keys rel \<longleftrightarrow> j \<in> ui_if_index ` snd ` set (p_upstreams p) \<or> j \<in> sm_keys (sm_erase i (p_downstreams p))" for j
    unfolding p1(4) using l(3) [of j] by (auto simp: is_upstream_iff)
  ultimately show ?thesis unfolding res(1)
    using p1(2) parts l(1,4) by (intro inst_inv_change [OF assms(1)]) simp_all
qed

lemma erase_upstream_indexes:
  assumes "distinct (map (\<lambda>e. ui_if_index (snd e)) us)" "smap_ok us" "(k, u) \<in> set us"
  shows "ui_if_index ` snd ` set (sm_erase k us) = ui_if_index ` snd ` set us - {ui_if_index u}"
proof -
  have "ui_if_index (snd e) = ui_if_index u \<longleftrightarrow> fst e = k" if "e \<in> set us" for e
  proof
    assume "ui_if_index (snd e) = ui_if_index u"
    with assms(1,3) that show "fst e = k" by (force simp: distinct_map dest: inj_onD [where x = e and y = "(k, u)"])
  next
    assume "fst e = k"
    then have "map_of us k = Some (snd e)" using that smap_elem_lookup [OF assms(2), of k "snd e"] by auto
    moreover have "map_of us k = Some u" using assms(3) smap_elem_lookup [OF assms(2)] by simp
    ultimately show "ui_if_index (snd e) = ui_if_index u" by simp
  qed
  then show ?thesis by (force simp: sm_erase_set)
qed

lemma find_Some_elem: "List.find P xs = Some x \<Longrightarrow> x \<in> set xs \<and> P x"
  by (induction xs) (auto split: if_splits)

lemma del_upstream_inv:
  assumes "inst_inv p w" "handle_config (DEL_UPSTREAM i) p w = (p', w')"
  shows "inst_inv p' w'"
proof (cases "List.find (\<lambda>e. ui_if_index (snd e) = i) (p_upstreams p)")
  case None
  with assms show ?thesis by simp
next
  case (Some e)
  obtain k u where e: "e = (k, u)" by (cases e)
  then have u: "(k, u) \<in> set (p_upstreams p)" "ui_if_index u = i"
    using find_Some_elem [OF Some] by simp_all
  obtain p1 w1 where r: "(if \<not> is_downstream p i then unregister_interface i p w else (p, w)) = (p1, w1)" by fastforce
  from unregister_if_unused [OF r assms(1)] obtain rr rel where
    p1: "p1 = p\<lparr>p_routing := rr, p_relevant_if_index := rel\<rparr>" "routing_ok rr" "extends w w1"
      "sm_keys rel = sm_keys (p_relevant_if_index p) - (if \<not> is_downstream p i then {i} else {})" by blast
  let ?us = "sm_erase k (p_upstreams p)"
  have res: "p' = p\<lparr>p_routing := rr, p_relevant_if_index := rel, p_upstreams := ?us\<rparr>" "w' = w1"
    using assms(2) Some r p1(1) by (auto simp: Let_def e)
  note l = inst_inv_lists [OF assms(1)] and parts = inst_inv_parts [OF assms(1)]
  have d: "distinct (map (\<lambda>e. ui_if_index (snd e)) ?us)" unfolding sm_erase_def by (rule distinct_map_filter [OF l(4)])
  note idx = erase_upstream_indexes [OF l(4) parts(1) u(1)]
  have "q_if_index (di_querier (snd e)) = fst e \<and> fst e \<in> registered (p_interfaces p) \<and> querier_run (di_querier (snd e)) w1"
    if "e \<in> set (p_downstreams p)" for e using l(2) [OF that] run_other [OF _ p1(3)] by blast
  moreover have "ui_if_index (snd e) \<in> registered (p_interfaces p)" if "e \<in> set ?us" for e
    using l(1) [of e] that by (simp add: sm_erase_set)
  moreover have "j \<in> sm_keys rel \<longleftrightarrow> j \<in> ui_if_index ` snd ` set ?us \<or> j \<in> sm_keys (p_downstreams p)" for j
    unfolding p1(4) idx u(2) using l(3) [of j] by (auto simp: is_downstream_iff)
  ultimately show ?thesis unfolding res
    using d p1(2) parts by (intro inst_inv_change [OF assms(1)]) simp_all
qed

subsection \<open>Reachable states\<close>

lemma inst_inv_rule: "inst_inv (p\<lparr>p_upstream_input_rule := r\<rparr>) w = inst_inv p w" "inst_inv (p\<lparr>p_upstream_output_rule := r\<rparr>) w = inst_inv p w"
    "inst_inv (p\<lparr>p_running := b\<rparr>) w = inst_inv p w"
  by (simp_all add: inst_inv_def inst_ok_def sources_registered_def relevant_ok_def is_upstream_def is_downstream_def queriers_run_def)

lemma handle_config_inv:
  assumes "inst_inv p w" "msg_ok p (Config_msg c)" "handle_config c p w = (p', w')"
  shows "inst_inv p' w' \<or> crashed w'"
proof (cases c)
  case (ADD_DOWNSTREAM i interf tv)
  then have "i \<in> registered (p_interfaces p)" using assms(2) by (simp add: msg_ok_def)
  from add_downstream_inv [OF assms(1) this] assms(3) show ?thesis unfolding ADD_DOWNSTREAM .
next
  case (ADD_UPSTREAM i prio interf)
  then have "i \<in> registered (p_interfaces p)" "\<not> sm_mem prio (p_upstreams p)" using assms(2) by (simp_all add: msg_ok_def)
  from add_upstream_inv [OF assms(1) this] assms(3) show ?thesis unfolding ADD_UPSTREAM by blast
next
  case (SET_GLOBAL_RULE_BINDING rb)
  with assms show ?thesis by (auto simp: set_global_rule_binding_def inst_inv_rule split: option.splits if_splits)
qed (use assms del_downstream_inv del_upstream_inv in blast)+

lemma handle_msg_inv:
  assumes "inst_inv p w" "msg_ok p msg" "handle_msg stats shared msg p w = (p', w')"
  shows "inst_inv p' w' \<or> crashed w'"
proof (cases msg)
  case (Timer_msg tm)
  then have u: "\<not> tm_is_used_as_source_timer tm" using assms(2) by (simp add: msg_ok_def)
  have "run_querier (tm_if_index tm) (\<lambda>q w. timer_triggerd shared q tm w) p w = (p', w')
      \<or> timer_triggerd_maintain_routing_table stats shared tm p w = (p', w') \<or> p' = p \<and> w' = w"
    using assms(3) Timer_msg by (auto simp: handle_msg_def split: if_splits)
  then show ?thesis
  proof (elim disjE)
    assume r: "run_querier (tm_if_index tm) (\<lambda>q w. timer_triggerd shared q tm w) p w = (p', w')"
    have "inst_inv p' w'" by (rule run_querier_inv [OF assms(1) r]) (rule timer_triggerd_frame [OF _ u])
    then show ?thesis ..
  qed (use assms(1) maintain_inv in blast)+
next
  case (Group_record_msg r)
  then have r: "record_ok r" "run_querier (gr_if_index r) (\<lambda>q w. receive_record q r w) p w = (p', w')"
    using assms(2,3) by (simp_all add: msg_ok_def handle_msg_def)
  have "inst_inv p' w'" by (rule run_querier_inv [OF assms(1) r(2)]) (rule receive_record_frame [OF _ r(1)])
  then show ?thesis ..
next
  case (New_source_msg m)
  with assms new_source_inv show ?thesis by (auto simp: handle_msg_def msg_ok_def)
next
  case (Config_msg c)
  with assms handle_config_inv show ?thesis by (simp add: handle_msg_def)
qed (use assms in \<open>auto simp: handle_msg_def inst_inv_rule\<close>)

lemma new_instance_inv:
  assumes "ifs_ok ifs" "new_proxy_instance net gts getifaddrs gmp name table ifs wk w0 = (Inr p, w)"
  shows "inst_inv p w"
proof -
  have "get_addr_family_gmp gmp \<noteq> AF_UNSPEC" by (cases gmp) (simp_all add: get_addr_family_gmp_def is_IPv4_iff is_IPv6_iff)
  moreover obtain r where r: "new_routing (get_addr_family_gmp gmp) getifaddrs table = Some r"
    and p: "p_interfaces p = ifs" "p_routing p = r" "p_routing_data p = new_routing_data gmp" "p_upstreams p = []"
      "p_downstreams p = []" "p_relevant_if_index p = []"
    using assms(2) by (auto simp: new_proxy_instance_def Let_def split: prod.splits if_splits option.splits)
  moreover from r have "r_addr_family r = get_addr_family_gmp gmp" "m_added_ifs r = []"
    by (auto simp: new_routing_def Let_def split: prod.splits if_splits)
  ultimately have "routing_ok r" by (simp add: routing_ok_def)
  with assms(1) p show ?thesis
    by (simp add: inst_inv_def inst_ok_def sources_registered_def relevant_ok_def is_upstream_def is_downstream_def
        queriers_run_def rd_ok_def new_routing_data_def known_interface_def get_interface_map_def)
qed

lemma instance_run_inv: "instance_run p w \<Longrightarrow> crashed w \<or> inst_inv p w"
proof (induction rule: instance_run.induct)
  case (inst_start ifs net gts getifaddrs gmp name table wk w0 p w)
  then show ?case using new_instance_inv by blast
next
  case (inst_msg p w msg stats shared p' w')
  then show ?case using handle_msg_inv by blast
next
  case (inst_other p w w')
  then show ?case using inst_inv_extends by (auto simp: extends_def)
qed

end
