(* ===== verification/Instance_Routes.thy ===== *)
theory Instance_Routes
  imports Instance_Run
begin

section \<open>The instance as a whole\<close>

text \<open>
  What the invariant gives for the composed program: the messages of the receivers keep it, and the kernel
  routes follow the state of the queriers.
\<close>

subsection \<open>The messages of the receivers\<close>

lemma fresh_slist_insert: "fresh_slist l \<Longrightarrow> fresh_slist (sm_insert a new_source l)"
  by (auto simp: fresh_slist_def lookup_insert split: if_splits)

lemma fresh_read_sources: "fresh_slist l \<Longrightarrow> fresh_slist (read_sources k buf n pos l)"
  by (induction n arbitrary: pos l) (simp_all add: fresh_slist_insert)

lemma read_records_ok: "m \<in> set (fst (read_records k i buf n pos)) \<Longrightarrow> \<exists>r. m = Group_record_msg r \<and> record_ok r"
proof (induction n arbitrary: pos)
  case (Suc n)
  have "fresh_slist (read_sources k buf c s [])" for c s by (rule fresh_read_sources) (simp add: fresh_slist_def)
  moreover have "is_newest_version (report_version k)" by (cases k) (simp_all add: is_newest_version_def)
  ultimately show ?case using Suc by (auto simp: Let_def record_ok_def case_prod_unfold split: if_splits)
qed simp

lemma relevant_registered: "inst_inv p w \<Longrightarrow> i \<in> sm_keys (p_relevant_if_index p) \<Longrightarrow> i \<in> registered (p_interfaces p)"
  using inst_inv_lists(1,2) inst_inv_lists(3) [of p w i] by (fastforce simp: sm_keys_def)

lemma new_source_upcall_ok:
  assumes "inst_inv p w" "m \<in> set (new_source_upcall (p_interfaces p) (p_relevant_if_index p) vif g a)"
  shows "msg_ok p m"
proof -
  have "m = New_source_msg \<lparr>ns_if_index = get_if_index_vif (p_interfaces p) vif, ns_gaddr = g, ns_saddr = a\<rparr>"
    "get_if_index_vif (p_interfaces p) vif \<in> sm_keys (p_relevant_if_index p)"
    using assms(2) by (auto simp: new_source_upcall_def Let_def is_if_index_relevant_def split: if_splits)
  with relevant_registered [OF assms(1)] show ?thesis by (simp add: msg_ok_def)
qed

lemma older_record_ok: "rt \<noteq> BLOCK_OLD_SOURCES \<Longrightarrow> msg_ok p (older_record i rt g v)"
  by (simp add: msg_ok_def older_record_def record_ok_def fresh_slist_def)

lemma records_msg_ok: "m \<in> set (fst (read_records k i buf n pos)) \<Longrightarrow> msg_ok p m"
  using read_records_ok by (fastforce simp: msg_ok_def)

lemma igmp_msgs_ok:
  "inst_inv p w \<Longrightarrow> m \<in> set (fst (igmp_analyse_packet net (p_interfaces p) (p_relevant_if_index p) buf)) \<Longrightarrow> msg_ok p m"
  by (auto simp: igmp_analyse_packet_def Let_def older_record_ok split: if_splits
      dest: new_source_upcall_ok records_msg_ok)

lemma mld_msgs_ok:
  "inst_inv p w \<Longrightarrow> m \<in> set (fst (mld_analyse_packet host16 (p_interfaces p) (p_relevant_if_index p) buf cs)) \<Longrightarrow> msg_ok p m"
  by (auto simp: mld_analyse_packet_def Let_def older_record_ok split: if_splits option.splits
      dest: new_source_upcall_ok records_msg_ok)

subsection \<open>Properties\<close>

text \<open>C7: In every reachable state of an instance whose process has not ended, every downstream interface has
  a querier in a reachable state of its own, the receiver watches exactly the interfaces that are used, all of
  them and the interfaces of all known sources are numbered, upstream interfaces are different, and whatever
  packet the receivers read gives only messages that the instance can handle.\<close>

theorem instance_invariant:
  assumes "instance_run p w" "\<not> crashed w"
  shows "(\<forall>(i, d) \<in> set (p_downstreams p). querier_run (di_querier d) w \<and> q_if_index (di_querier d) = i)
    \<and> sm_keys (p_relevant_if_index p) = {i. is_upstream p i \<or> is_downstream p i}
    \<and> sm_keys (p_relevant_if_index p) \<subseteq> registered (p_interfaces p)
    \<and> (\<forall>g a i. known_interface (p_routing_data p) g a = Some i \<longrightarrow> i \<in> registered (p_interfaces p))
    \<and> distinct (map (\<lambda>e. ui_if_index (snd e)) (p_upstreams p))
    \<and> (\<forall>m \<in> set (fst (igmp_analyse_packet (p_names p) (p_interfaces p) (p_relevant_if_index p) buf))
            \<union> set (fst (mld_analyse_packet host16 (p_interfaces p) (p_relevant_if_index p) buf cs)). msg_ok p m)"
proof -
  have inv: "inst_inv p w" using instance_run_inv [OF assms(1)] assms(2) by blast
  note l = inst_inv_lists [OF inv]
  have "\<forall>(i, d) \<in> set (p_downstreams p). querier_run (di_querier d) w \<and> q_if_index (di_querier d) = i"
    using l(2) by fastforce
  moreover have "sm_keys (p_relevant_if_index p) = {i. is_upstream p i \<or> is_downstream p i}"
    using inv by (auto simp: inst_inv_def relevant_ok_def)
  moreover have "sm_keys (p_relevant_if_index p) \<subseteq> registered (p_interfaces p)" using relevant_registered [OF inv] by blast
  moreover have "\<forall>g a i. known_interface (p_routing_data p) g a = Some i \<longrightarrow> i \<in> registered (p_interfaces p)"
    using inv by (simp add: inst_inv_def sources_registered_def)
  moreover have "\<forall>m \<in> set (fst (igmp_analyse_packet (p_names p) (p_interfaces p) (p_relevant_if_index p) buf))
            \<union> set (fst (mld_analyse_packet host16 (p_interfaces p) (p_relevant_if_index p) buf cs)). msg_ok p m"
    using igmp_msgs_ok [OF inv] mld_msgs_ok [OF inv] by blast
  ultimately show ?thesis using l(4) by blast
qed

subsection \<open>Silent steps\<close>

text \<open>Events that neither notify the routing management nor touch the routes.\<close>

fun is_route_event :: "event \<Rightarrow> bool" where
  "is_route_event (Add_mroute v a g outs) = True"
| "is_route_event (Del_mroute v a g) = True"
| "is_route_event e = False"

fun is_silent :: "event \<Rightarrow> bool" where
  "is_silent (State_change i g db) = False"
| "is_silent e = (\<not> is_route_event e)"

definition silent :: "world \<Rightarrow> world \<Rightarrow> bool" where
  "silent w w' \<longleftrightarrow> (\<exists>es. log w' = log w @ es \<and> (\<forall>e \<in> set es. is_silent e))"

lemma silent_refl [simp]: "silent w w"
  by (simp add: silent_def)

lemma silent_trans: "silent w w' \<Longrightarrow> silent w' w'' \<Longrightarrow> silent w w''"
  unfolding silent_def by (auto simp: ball_Un)

lemma sending_silent: "is_sending e \<Longrightarrow> is_silent e"
  by (cases e) simp_all

lemma io_only_silent: "io_only w w' \<Longrightarrow> silent w w'"
  unfolding io_only_def silent_def using sending_silent by blast

lemma silent_make_timer: "silent w (snd (make_timer ty i g s d w))"
  by (simp add: silent_def make_timer_def now_def)

lemma silent_add_time: "silent w (add_time d wk t w)"
  by (simp add: silent_def add_time_def now_def emit_def)

lemma silent_timer: "silent w (add_time d' wk (fst (make_timer ty i g s d w)) (snd (make_timer ty i g s d w)))"
  by (rule silent_trans [OF silent_make_timer silent_add_time])

lemma silent_crash: "silent w (crash w)"
  by (simp add: silent_def crash_def)

lemma silent_mali_list: "silent w (snd (mali_list q g l w))"
  by (simp add: mali_list_def Let_def case_prod_unfold silent_make_timer silent_timer)

lemma silent_mali: "silent w (snd (mali q g l tmp w))"
  using silent_mali_list by (simp add: mali_def Let_def case_prod_unfold)

lemma silent_mali_filter: "silent w (snd (mali_filter q g gi w))"
  by (simp add: mali_filter_def Let_def case_prod_unfold silent_timer)

lemma silent_send_query: "silent w (snd (send_mc_addr_specific_query k i tv g s w))"
  "silent w (snd (sender_send_general_query k i tv w))"
  by (auto intro!: io_only_silent simp: send_mc_addr_specific_query_def sender_send_general_query_def io_only_send_query)

lemma silent_send_Q: "silent w (snd (send_Q q g gi tmp b w))"
proof -
  let ?tv = "q_timers_values q"
  obtain st w1 where st: "make_timer SOURCE_TIMER_MSG (q_if_index q) g Addr_Unspec (get_last_listener_query_time ?tv) w = (st, w1)"
    by fastforce
  obtain u l where m: "send_Q_mark st (to_long (get_last_listener_query_count ?tv)) (include_requested_list gi) tmp = (u, l)"
    by fastforce
  let ?w2 = "if u then add_time (get_last_listener_query_time ?tv) (q_msg_worker q) st w1 else w1"
  obtain rc l3 w3 where s: "send_mc_addr_and_src_specific_query (q_sender q) (q_if_index q) ?tv g l ?w2 = (rc, l3, w3)"
    by (metis prod_cases3)
  have "silent w w1" using silent_make_timer [of w SOURCE_TIMER_MSG] st by (metis snd_conv)
  then have "silent w ?w2" using silent_trans [OF _ silent_add_time] by simp
  moreover have "silent ?w2 w3" using io_only_send_src_query [OF s] by (rule io_only_silent)
  ultimately have w3: "silent w w3" by (rule silent_trans)
  then have "silent w (add_time d wk (fst (make_timer ty i g s d' w3)) (snd (make_timer ty i g s d' w3)))" for d wk ty i s d'
    by (rule silent_trans) (rule silent_timer)
  then show ?thesis using w3 s \<open>silent w ?w2\<close> by (cases u) (simp_all add: send_Q_def st m Let_def case_prod_unfold)
qed

lemma silent_group_query: "silent w (snd (start_group_query q g gi w))" "silent w (snd (schedule_group_query q g gi w))"
  "silent w (snd (filter_timer_above_llqt q gi w))"
  by (simp_all add: start_group_query_def schedule_group_query_def filter_timer_above_llqt_def Let_def case_prod_unfold
      silent_timer silent_crash io_only_silent [OF io_only_remaining] split: option.split)

lemma silent_send_Q_group: "silent w (snd (send_Q_group q g gi w))"
  by (auto simp: send_Q_group_def Let_def case_prod_unfold
      intro!: silent_trans [OF _ silent_send_query(1)] silent_trans [OF _ silent_group_query(3)]
        silent_trans [OF _ silent_group_query(2)] silent_group_query(1))

lemma silent_compatibility: "silent w (snd (compatibility_update q g v gi w))"
  by (simp add: compatibility_update_def Let_def case_prod_unfold silent_timer)

lemma silent_general_query: "silent w (snd (snd (send_general_query q w)))"
  by (simp add: send_general_query_def Let_def case_prod_unfold silent_trans [OF silent_timer silent_send_query(2)])

lemmas silent_actions = silent_mali silent_mali_filter silent_send_Q silent_send_Q_group

lemma silent_include: "silent w (snd (snd (receive_record_in_include_mode q rt g l gi w)))"
  by (cases rt) (auto simp: Let_def case_prod_unfold
      intro: silent_actions silent_trans [OF silent_send_Q silent_mali_filter] silent_trans [OF silent_send_Q silent_mali])

lemma silent_exclude: "silent w (snd (snd (receive_record_in_exclude_mode q rt g l gi w)))"
  by (cases rt) (auto simp: Let_def case_prod_unfold
      intro: silent_actions silent_trans [OF silent_send_Q silent_mali_filter] silent_trans [OF silent_mali silent_mali_filter]
        silent_trans [OF silent_trans [OF silent_send_Q silent_send_Q_group] silent_mali])

subsection \<open>The notification is the last event\<close>

text \<open>A handler of the querier: silent steps, then perhaps the notification, with the state the routing
  management can read then, which is the final one unless the group is dropped afterwards.\<close>

definition notifies_last :: "addr_storage \<Rightarrow> world \<Rightarrow> querier \<Rightarrow> world \<Rightarrow> bool" where
  "notifies_last g w q' w' \<longleftrightarrow>
     (\<exists>w1. silent w w1 \<and> (w' = w1 \<or> (\<exists>qn. w' = state_change_notification g qn w1 \<and> q_if_index qn = q_if_index q'
        \<and> (q' = qn \<or> q' = erase_group g qn))))"

lemma notifies_silent: "silent w w' \<Longrightarrow> notifies_last g w q' w'"
  by (auto simp: notifies_last_def)

lemma notifies_if:
  "silent w w1 \<Longrightarrow> q' = qn \<or> q' = erase_group g qn \<Longrightarrow> notifies_last g w q' (notify_if b g qn w1)"
  unfolding notifies_last_def notify_if_def by (intro exI [of _ w1]) (auto simp: erase_group_def)

lemma receive_record_notifies:
  assumes "receive_record q gr w = (q', w')"
  shows "notifies_last (gr_gaddr gr) w q' w'"
proof -
  let ?g = "gr_gaddr gr"
  let ?gi = "case find_group ?g q of Some gi \<Rightarrow> gi | None \<Rightarrow> new_gaddr_info (querier_version_mode (q_db q))"
  obtain gi w1 where c: "compatibility_update q ?g (gr_grp_mem_proto gr) ?gi w = (gi, w1)" by fastforce
  have w1: "silent w w1" using silent_compatibility [of w q ?g "gr_grp_mem_proto gr" ?gi] by (simp add: c)
  have p: "notifies_last ?g w (fst (process_record q rt ?g l gi w1)) (snd (process_record q rt ?g l gi w1))" for rt l
    by (cases "filter_mode gi")
       (auto simp: process_record_def Let_def case_prod_unfold
         intro!: notifies_if silent_trans [OF w1] silent_include silent_exclude)
  have "w' = w1 \<or> (\<exists>rt l. process_record q rt ?g l gi w1 = (q', w'))"
    using assms unfolding receive_record_def Let_def c by (auto split: if_splits)
  then show ?thesis
  proof (elim disjE exE)
    fix rt l assume "process_record q rt ?g l gi w1 = (q', w')"
    with p [of rt l] show ?thesis by simp
  qed (simp add: notifies_silent [OF w1])
qed

lemma timer_triggerd_notifies:
  assumes "timer_triggerd shared q msg w = (q', w')" "\<not> tm_is_used_as_source_timer msg"
  shows "notifies_last (tm_gaddr msg) w q' w'"
proof -
  have n: "notifies_last g w q' (state_change_notification g q' w)" for g q'
    by (auto simp: notifies_last_def intro: exI [of _ w])
  have f: "timer_triggerd_filter_timer q g gi msg w = (q', w') \<Longrightarrow> notifies_last g w q' w'" for g gi
    using assms(2) n by (auto simp: timer_triggerd_filter_timer_def Let_def notifies_silent silent_crash split: option.splits if_splits)
  have s: "timer_triggerd_source_timer q g gi msg w = (q', w') \<Longrightarrow> notifies_last g w q' w'" for g gi
    using n by (auto simp: timer_triggerd_source_timer_def Let_def split: mc_filter.splits)
  have o: "timer_triggerd_older_host_present_timer q g gi msg w = (q', w') \<Longrightarrow> notifies_last g w q' w'" for g gi
    using n by (auto simp: timer_triggerd_older_host_present_timer_def Let_def case_prod_unfold notifies_silent silent_crash silent_timer
        split: option.splits if_splits)
  have r: "timer_triggerd_ret_group_timer q g gi msg w = (q', w') \<Longrightarrow> notifies_last g w q' w'"
    "timer_triggerd_ret_source_timer q g gi msg w = (q', w') \<Longrightarrow> notifies_last g w q' w'"
    "timer_triggerd_general_query_timer q msg w = (q', w') \<Longrightarrow> notifies_last g w q' w'" for g gi
    by (auto simp: timer_triggerd_ret_group_timer_def timer_triggerd_ret_source_timer_def timer_triggerd_general_query_timer_def
        Let_def case_prod_unfold intro!: notifies_silent split: if_splits)
       (metis silent_send_Q_group silent_send_Q silent_general_query silent_refl snd_conv)+
  show ?thesis using assms(1) unfolding timer_triggerd_def Let_def
    by (auto simp: notifies_silent split: if_splits option.splits intro: f s o r)
qed

subsection \<open>The routes follow the queriers\<close>

definition routes_of :: "proxy_instance \<Rightarrow> addr_storage \<Rightarrow> event list" where
  "routes_of p g = concat (map (\<lambda>a. route_event p g (a, wanted_outputs p g a))
     (map fst (get_available_sources (p_routing_data p) g)))"

lemma silent_send_records: "silent w (send_records p g us im w)"
proof (induction us arbitrary: im w)
  case (Cons u us)
  show ?case
    by (auto simp: silent_crash split: option.split
        intro: silent_trans [OF io_only_silent [OF io_only_send_record] Cons.IH])
qed simp

lemma silent_aggregation: "silent w (process_membership_aggregation t g p w)"
  by (simp add: process_membership_aggregation_def silent_send_records)

lemma available_known:
  assumes "rd_ok rd" "a \<in> set (map fst (get_available_sources rd g))"
  shows "known_interface rd g a \<noteq> None"
proof -
  have "a \<in> sm_keys (get_available_sources rd g)" using assms(2) by (simp add: sm_keys_def)
  then have "a \<in> sm_keys (get_interface_map rd g)" by (simp only: lists_ok(3) [OF assms(1)])
  then show ?thesis by (auto simp: known_interface_def sm_keys_dom)
qed

lemma state_change_routes:
  assumes "inst_ok p" "sources_registered p" "up_down_disjoint p"
  shows "\<exists>es. log (event_querier_state_change g p w) = log w @ routes_of p g @ es \<and> (\<forall>e \<in> set es. is_silent e)"
proof -
  have "rd_ok (p_routing_data p)" using assms(1) by (simp add: inst_ok_def)
  then have k: "\<forall>a \<in> set (map fst (get_available_sources (p_routing_data p) g)). known_interface (p_routing_data p) g a \<noteq> None"
    using available_known by blast
  let ?w = "set_routes p g (collect_interested_interfaces p g (map fst (get_available_sources (p_routing_data p) g))) w"
  have w: "log ?w = log w @ routes_of p g" using set_routes_wanted [OF assms k, of w] by (simp add: routes_of_def)
  have "silent ?w (event_querier_state_change g p w)" by (simp add: event_querier_state_change_def Let_def silent_aggregation)
  then show ?thesis unfolding silent_def w by simp
qed

lemma with_db_ok:
  "inst_ok p \<Longrightarrow> inst_ok (with_db i db p)" "sources_registered p \<Longrightarrow> sources_registered (with_db i db p)"
  "up_down_disjoint p \<Longrightarrow> up_down_disjoint (with_db i db p)"
proof -
  have "e \<in> set (p_downstreams (with_db i db p)) \<Longrightarrow>
      \<exists>e' \<in> set (p_downstreams p). fst e' = fst e \<and> q_if_index (di_querier (snd e')) = q_if_index (di_querier (snd e))" for e
    by (force simp: with_db_def sm_map_def)
  then show "inst_ok p \<Longrightarrow> inst_ok (with_db i db p)" by (fastforce simp: with_db_def inst_ok_def)
qed (simp_all add: with_db_def sources_registered_def up_down_disjoint_def is_upstream_def is_downstream_def)


lemma with_db_same:
  assumes "smap_ok ds" "q_db q = db" "p_downstreams p = sm_assign i (d\<lparr>di_querier := q\<rparr>) ds"
  shows "with_db i db p = p"
proof -
  have ok: "smap_ok (p_downstreams p)" using assms(1,3) by simp
  have "(if k = i then x\<lparr>di_querier := (di_querier x)\<lparr>q_db := db\<rparr>\<rparr> else x) = x" if "(k, x) \<in> set (p_downstreams p)" for k x
  proof (cases "k = i")
    case True
    have "map_of (p_downstreams p) i = Some x" using that True smap_elem_lookup [OF ok] by simp
    then have "x = d\<lparr>di_querier := q\<rparr>" using assms(1) by (simp add: assms(3) lookup_assign)
    then show ?thesis using assms(2) by auto
  qed simp
  then have "sm_map (\<lambda>k d. if k = i then d\<lparr>di_querier := (di_querier d)\<lparr>q_db := db\<rparr>\<rparr> else d) (p_downstreams p) = p_downstreams p"
    unfolding sm_map_def by (intro map_idI) auto
  then show ?thesis by (simp add: with_db_def)
qed

lemma state_changes_silent: "\<forall>e \<in> set es. is_silent e \<Longrightarrow> state_changes (es @ fs) p w = state_changes fs p w"
proof (induction es)
  case (Cons e es)
  then show ?case by (cases e) simp_all
qed simp

text \<open>What a handler of the querier on interface \<open>i\<close>, from \<open>w\<close> to \<open>w1\<close>, makes of the whole instance: nothing more when
  it did not notify; otherwise the routes of the group for the state it notified of, which is the final one
  while the group is known.\<close>

definition routes_follow ::
  "addr_storage \<Rightarrow> u32 \<Rightarrow> querier \<Rightarrow> world \<Rightarrow> world \<Rightarrow> proxy_instance \<times> world \<Rightarrow> bool" where
  "routes_follow g i q w w1 r \<longleftrightarrow>
     silent w w1 \<and> snd r = w1
   \<or> (\<exists>es db es'. log w1 = log w @ es @ [State_change i g db] \<and> log (snd r) = log w1 @ routes_of (with_db i db (fst r)) g @ es'
        \<and> (\<forall>e \<in> set (es @ es'). is_silent e) \<and> (find_group g q \<noteq> None \<longrightarrow> with_db i db (fst r) = fst r))"

lemma run_querier_routes:
  assumes "inst_inv p w" "up_down_disjoint p" "map_of (p_downstreams p) i = Some d" "f (di_querier d) w = (q, w1)"
    and f: "\<And>q q1 w1. querier_run q w \<Longrightarrow> f q w = (q1, w1) \<Longrightarrow> querier_run q1 w1 \<and> q_if_index q1 = q_if_index q \<and> extends w w1"
    and "notifies_last g w q w1"
  shows "p_downstreams (fst (run_querier i f p w)) = sm_assign i (d\<lparr>di_querier := q\<rparr>) (p_downstreams p)
    \<and> routes_follow g i q w w1 (run_querier i f p w)"
proof -
  let ?p = "p\<lparr>p_downstreams := sm_assign i (d\<lparr>di_querier := q\<rparr>) (p_downstreams p)\<rparr>"
  have r: "run_querier i f p w = (?p, state_changes (drop (length (log w)) (log w1)) ?p w1)"
    using assms(3,4) by (simp add: run_querier_def Let_def)
  note parts = inst_inv_parts [OF assms(1)]
  have mem: "(i, d) \<in> set (p_downstreams p)" using assms(3) by (rule map_of_SomeD)
  then have k: "i \<in> sm_keys (p_downstreams p)" by (force simp: sm_keys_def)
  have iq: "q_if_index q = i"
    using f [OF _ assms(4)] inst_inv_lists(2) [OF assms(1) mem] by simp
  have "inst_inv ?p (snd (run_querier i f p w))" using run_querier_inv [OF assms(1) r f] by (simp add: r)
  moreover have "up_down_disjoint ?p"
    using assms(2) k by (simp add: up_down_disjoint_def is_downstream_iff is_upstream_def insert_absorb)
  ultimately have ok: "inst_ok ?p" "sources_registered ?p" "up_down_disjoint ?p" by (simp_all add: inst_inv_def)
  from assms(6) obtain w0 where w0: "silent w w0"
    "w1 = w0 \<or> (\<exists>qn. w1 = state_change_notification g qn w0 \<and> q_if_index qn = q_if_index q \<and> (q = qn \<or> q = erase_group g qn))"
    unfolding notifies_last_def by blast
  obtain es where es: "log w0 = log w @ es" "\<forall>e \<in> set es. is_silent e" using w0(1) unfolding silent_def by blast
  from w0(2) consider (quiet) "w1 = w0"
    | (notified) qn where "w1 = state_change_notification g qn w0" "q_if_index qn = q_if_index q" "q = qn \<or> q = erase_group g qn"
    by blast
  then have "routes_follow g i q w w1 (run_querier i f p w)"
  proof cases
    case quiet
    with es state_changes_silent [OF es(2), of "[]"] w0(1) show ?thesis by (simp add: routes_follow_def r)
  next
    case n: notified
    have l: "log w1 = log w @ es @ [State_change i g (q_db qn)]"
      using es n(1,2) iq by (simp add: state_change_notification_def emit_def)
    have w': "snd (run_querier i f p w) = event_querier_state_change g (with_db i (q_db qn) ?p) w1"
      by (simp add: r l state_changes_silent [OF es(2)])
    from state_change_routes [OF with_db_ok(1) [OF ok(1)] with_db_ok(2) [OF ok(2)] with_db_ok(3) [OF ok(3)]]
    obtain es' where es': "log (snd (run_querier i f p w)) = log w1 @ routes_of (with_db i (q_db qn) ?p) g @ es'"
      "\<forall>e \<in> set es'. is_silent e" unfolding w' by blast
    have "find_group g (erase_group g qn) = None" by (simp add: find_group_def erase_group_def lookup_erase)
    then have "find_group g q \<noteq> None \<longrightarrow> with_db i (q_db qn) ?p = ?p"
      using n(3) with_db_same [OF parts(2), of q "q_db qn" ?p i d] by auto
    with l es' es(2) show ?thesis unfolding routes_follow_def by (intro disjI2 exI [of _ es] exI [of _ "q_db qn"] exI [of _ es']) (auto simp: r)
  qed
  then show ?thesis by (simp add: r)
qed


text \<open>A concrete run: an instance for IGMPv3 with the interface 2 as its downstream.\<close>

definition ex_ifs2 :: interfaces where
  "ex_ifs2 = ex_interfaces\<lparr>m_if_vif := [(2, 0)], m_vif_if := [(0, 2)]\<rparr>"

definition ex_i0 :: "(instance_error + proxy_instance) \<times> world" where
  "ex_i0 = new_proxy_instance ex_names [] (Some [ex_ifaddrs]) IGMPv3 ''proxy'' 0 ex_ifs2 1 example_world"

definition ex_p0 :: proxy_instance where
  "ex_p0 = (case fst ex_i0 of Inr p \<Rightarrow> p | Inl e \<Rightarrow> undefined)"

definition ex_i1 :: "proxy_instance \<times> world" where
  "ex_i1 = handle_msg (\<lambda>s g. None) False (Config_msg (ADD_DOWNSTREAM 2 (new_interface ''eth0'') new_timers_values)) ex_p0 (snd ex_i0)"

lemma ex_ifs2_ok: "ifs_ok ex_ifs2" "registered ex_ifs2 = {2}"
  by (auto simp: ex_ifs2_def ex_interfaces_def ifs_ok_def registered_def)

lemma ex_i0_run: "instance_run ex_p0 (snd ex_i0)"
proof (rule inst_start [OF ex_ifs2_ok(1)])
  have "\<not> isl (fst ex_i0)" by code_simp
  then have "fst ex_i0 = Inr ex_p0" by (cases "fst ex_i0") (auto simp: ex_p0_def)
  then show "new_proxy_instance ex_names [] (Some [ex_ifaddrs]) IGMPv3 ''proxy'' 0 ex_ifs2 1 example_world = (Inr ex_p0, snd ex_i0)"
    by (metis ex_i0_def prod.collapse)
qed

lemma ex_i0_facts: "\<not> crashed (snd ex_i0)" "p_interfaces ex_p0 = ex_ifs2"
proof -
  show "\<not> crashed (snd ex_i0)" by code_simp
  show "p_interfaces ex_p0 = ex_ifs2"
    by code_simp
qed

lemma ex_i1_run: "instance_run (fst ex_i1) (snd ex_i1)"
  by (rule inst_msg [OF ex_i0_run ex_i0_facts(1)]) (simp_all add: msg_ok_def ex_i0_facts ex_ifs2_ok ex_i1_def)

lemma ex_i1_facts: "\<not> crashed (snd ex_i1)" "map_of (p_downstreams (fst ex_i1)) 2 \<noteq> None" "p_upstreams (fst ex_i1) = []"
proof -
  show "\<not> crashed (snd ex_i1)" by code_simp
  show "map_of (p_downstreams (fst ex_i1)) 2 \<noteq> None" by code_simp
  show "p_upstreams (fst ex_i1) = []" by code_simp
qed

lemma instance_invariant_witness:
  "instance_run (fst ex_i1) (snd ex_i1) \<and> sm_keys (p_relevant_if_index (fst ex_i1)) \<subseteq> {2}"
proof -
  have "p_interfaces (fst ex_i1) = ex_ifs2" by code_simp
  then show ?thesis using instance_invariant [OF ex_i1_run ex_i1_facts(1)] ex_i1_run ex_ifs2_ok(2) by metis
qed


end
