(* ===== verification/Scanner.thy ===== *)
theory Scanner
  imports Mc_Prelude
begin

section \<open>Tokens and the scanner of the configuration language (token.hpp, scanner.cpp)\<close>

text \<open>
  The scanner turns one command of the configuration file into tokens.  Its state is the part of the
  command from \<^verbatim>\<open>m_current_cmd_char\<close> on: the head of the list is the current character, and the
  empty list stands for the 0 the code stores behind the end of the command.  A 0 inside the command
  ends the scan in the same way, and so does a \<open>=\<close> that does not begin an arrow.  The character classes
  are those of the C locale.  The lemmas show that scanning ends, that no \<open>TT_NIL\<close> is stored, and
  that printed tokens are scanned back.
\<close>

datatype token =
  TT_PROTOCOL | TT_MLDV1 | TT_MLDV2 | TT_IGMPV1 | TT_IGMPV2 | TT_IGMPV3 | TT_PINSTANCE
| TT_DOUBLE_DOT | TT_DOT | TT_ARROW | TT_UPSTREAM | TT_DOWNSTREAM | TT_OUT | TT_IN
| TT_BLACKLIST | TT_WHITELIST | TT_RULE_MATCHING | TT_TABLE | TT_ALL | TT_FIRST | TT_MUTEX
| TT_DISABLE | TT_LEFT_BRACE | TT_RIGHT_BRACE | TT_LEFT_BRACKET | TT_RIGHT_BRACKET
| TT_RANGE | TT_SLASH | TT_STAR | TT_PIPE | TT_STRING string | TT_NIL

text \<open>
  What reading a configuration can end with: the two kinds of \<^verbatim>\<open>throw\<close> of the scanner and the parser,
  the command \<^verbatim>\<open>disable\<close>, the ones of the interface setup, a rethrow without an active exception
  (\<^verbatim>\<open>std::terminate\<close>), and a shift the language leaves undefined.  \<open>Out_of_fuel\<close> is the
  model's own value for an exhausted recursion bound; it is proved never to occur.
\<close>

datatype config_error =
  Unsupported_char | Parse_failed | Mcproxy_disabled | Unknown_interface | Add_interface_failed
| Instance_exists | Cpp_terminate | Cpp_undefined | Out_of_fuel

definition bind_result :: "'e + 'a \<Rightarrow> ('a \<Rightarrow> 'e + 'b) \<Rightarrow> 'e + 'b" where
  "bind_result r f = (case r of Inl e \<Rightarrow> Inl e | Inr x \<Rightarrow> f x)"

lemma bind_result_simps [simp]: "bind_result (Inl e) f = Inl e" "bind_result (Inr x) f = f x"
  by (simp_all add: bind_result_def)

lemma bind_result_Inr: "bind_result r f = Inr y \<longleftrightarrow> (\<exists>x. r = Inr x \<and> f x = Inr y)"
  by (cases r) auto

lemma bind_result_Inl: "bind_result r f = Inl e \<longleftrightarrow> r = Inl e \<or> (\<exists>x. r = Inr x \<and> f x = Inl e)"
  by (cases r) auto

subsection \<open>Character classes\<close>

abbreviation code_point :: "char \<Rightarrow> nat" where
  "code_point c \<equiv> of_char c"

definition is_space :: "char \<Rightarrow> bool" where
  "is_space c \<longleftrightarrow> code_point c = 32 \<or> 9 \<le> code_point c \<and> code_point c \<le> 13"

definition is_upper :: "char \<Rightarrow> bool" where
  "is_upper c \<longleftrightarrow> 65 \<le> code_point c \<and> code_point c \<le> 90"

definition is_alpha :: "char \<Rightarrow> bool" where
  "is_alpha c \<longleftrightarrow> is_upper c \<or> 97 \<le> code_point c \<and> code_point c \<le> 122"

definition is_digit :: "char \<Rightarrow> bool" where
  "is_digit c \<longleftrightarrow> 48 \<le> code_point c \<and> code_point c \<le> 57"

definition to_lower :: "char \<Rightarrow> char" where
  "to_lower c = (if is_upper c then char_of (code_point c + 32) else c)"

definition is_string :: "char \<Rightarrow> bool" where
  "is_string c \<longleftrightarrow> is_alpha c \<or> is_digit c \<or> c = CHR ''_''"

lemmas char_class_defs = is_space_def is_upper_def is_alpha_def is_digit_def to_lower_def is_string_def

subsection \<open>Reading tokens\<close>

text \<open>The chain of keyword comparisons at the end of \<^verbatim>\<open>read_next_token\<close>, in lower case.\<close>

definition keywords_table :: "(string \<times> token) list" where
  "keywords_table =
    [(''protocol'', TT_PROTOCOL), (''mldv1'', TT_MLDV1), (''mldv2'', TT_MLDV2),
     (''igmpv1'', TT_IGMPV1), (''igmpv2'', TT_IGMPV2), (''igmpv3'', TT_IGMPV3),
     (''pinstance'', TT_PINSTANCE), (''upstream'', TT_UPSTREAM), (''downstream'', TT_DOWNSTREAM),
     (''rulematching'', TT_RULE_MATCHING), (''out'', TT_OUT), (''in'', TT_IN),
     (''blacklist'', TT_BLACKLIST), (''whitelist'', TT_WHITELIST), (''table'', TT_TABLE),
     (''all'', TT_ALL), (''first'', TT_FIRST), (''mutex'', TT_MUTEX), (''disable'', TT_DISABLE)]"

definition word_token :: "string \<Rightarrow> token" where
  "word_token s = (case map_of keywords_table (map to_lower s) of Some t \<Rightarrow> t | None \<Rightarrow> TT_STRING s)"

text \<open>The case \<^verbatim>\<open>'='\<close> behind its first character.\<close>

definition read_arrow :: "string \<Rightarrow> token \<times> string" where
  "read_arrow s =
     (case s of
        [] \<Rightarrow> (TT_NIL, [])
      | c # s' \<Rightarrow>
          if c \<noteq> CHR ''='' then (TT_NIL, s)
          else (case s' of
                  [] \<Rightarrow> (TT_NIL, [])
                | d # s'' \<Rightarrow> if d = CHR ''>'' then (TT_ARROW, s'') else (TT_NIL, s')))"

definition read_next_token :: "string \<Rightarrow> config_error + token \<times> string" where
  "read_next_token cmd =
     (case dropWhile is_space cmd of
        [] \<Rightarrow> Inr (TT_NIL, [])
      | c # s \<Rightarrow>
          if c = CHR 0x00 then Inr (TT_NIL, c # s)
          else if c = CHR '':'' then Inr (TT_DOUBLE_DOT, s)
          else if c = CHR ''.'' then Inr (TT_DOT, s)
          else if c = CHR ''='' then Inr (read_arrow s)
          else if c = CHR ''{'' then Inr (TT_LEFT_BRACE, s)
          else if c = CHR ''}'' then Inr (TT_RIGHT_BRACE, s)
          else if c = CHR ''('' then Inr (TT_LEFT_BRACKET, s)
          else if c = CHR '')'' then Inr (TT_RIGHT_BRACKET, s)
          else if c = CHR ''-'' then Inr (TT_RANGE, s)
          else if c = CHR ''/'' then Inr (TT_SLASH, s)
          else if c = CHR ''*'' then Inr (TT_STAR, s)
          else if c = CHR ''|'' then Inr (TT_PIPE, s)
          else if c = CHR 0x22 then
            (let q = takeWhile (\<lambda>d. d \<noteq> CHR 0x00 \<and> d \<noteq> CHR 0x22) s
             in Inr (TT_STRING q, drop (Suc (length q)) s))
          else if is_string c then
            Inr (word_token (c # takeWhile is_string s), dropWhile is_string s)
          else Inl Unsupported_char)"

lemma length_dropWhile_space: "dropWhile P xs = y # ys \<Longrightarrow> length ys < length xs"
  using length_dropWhile_le [of P xs] by simp

lemma read_next_token_shorter:
  "read_next_token cmd = Inr (t, s) \<Longrightarrow> t \<noteq> TT_NIL \<Longrightarrow> length s < length cmd"
proof (cases "dropWhile is_space cmd")
  case (Cons c r)
  have "length r < length cmd" by (rule length_dropWhile_space [OF Cons])
  moreover assume "read_next_token cmd = Inr (t, s)" "t \<noteq> TT_NIL"
  ultimately show ?thesis using length_dropWhile_le [of is_string r] Cons
    by (auto simp: read_next_token_def read_arrow_def Let_def split: if_splits list.splits)
qed (auto simp: read_next_token_def)

function fill_token_vec :: "string \<Rightarrow> config_error + token list" where
  "fill_token_vec s =
     (case read_next_token s of
        Inl e \<Rightarrow> Inl e
      | Inr (t, s') \<Rightarrow>
          if t = TT_NIL then Inr []
          else bind_result (fill_token_vec s') (\<lambda>ts. Inr (t # ts)))"
  by pat_completeness auto
termination
  by (relation "measure length") (auto simp: read_next_token_shorter)

declare fill_token_vec.simps [simp del]

lemma fill_token_vec_no_nil: "fill_token_vec s = Inr ts \<Longrightarrow> TT_NIL \<notin> set ts"
proof (induction s arbitrary: ts rule: fill_token_vec.induct)
  case (1 s)
  from 1(2) show ?case
    by (subst (asm) fill_token_vec.simps)
       (auto simp: bind_result_Inr split: sum.splits prod.splits if_splits dest: 1(1) [rotated 2])
qed

subsection \<open>Scanning what was printed\<close>

text \<open>A prefix of the input that is scanned to given tokens whatever delimiter follows.\<close>

definition scans :: "string \<Rightarrow> token list \<Rightarrow> bool" where
  "scans s ts \<longleftrightarrow> (\<forall>r. (r = [] \<or> \<not> is_string (hd r)) \<longrightarrow>
     fill_token_vec (s @ r) = bind_result (fill_token_vec r) (\<lambda>us. Inr (ts @ us)))"

definition no_keyword :: "string \<Rightarrow> bool" where
  "no_keyword s \<longleftrightarrow> map_of keywords_table (map to_lower s) = None"

lemma bind_result_assoc: "bind_result (bind_result r f) g = bind_result r (\<lambda>x. bind_result (f x) g)"
  by (cases r) auto

lemma fill_space: "is_space c \<Longrightarrow> fill_token_vec (c # s) = fill_token_vec s"
  by (subst (1 2) fill_token_vec.simps) (simp add: read_next_token_def)

lemma fill_spaces: "\<forall>c \<in> set w. is_space c \<Longrightarrow> fill_token_vec (w @ s) = fill_token_vec s"
  by (induction w) (auto simp: fill_space)

lemma fill_step:
  "read_next_token s = Inr (t, s') \<Longrightarrow> t \<noteq> TT_NIL \<Longrightarrow>
     fill_token_vec s = bind_result (fill_token_vec s') (\<lambda>us. Inr (t # us))"
  by (subst fill_token_vec.simps) simp

lemma fill_end: "fill_token_vec [] = Inr []"
  by (subst fill_token_vec.simps) (simp add: read_next_token_def)

text \<open>Word characters start no other kind of token.\<close>

lemma string_char_plain:
  "is_string c \<Longrightarrow> \<not> is_space c \<and> c \<noteq> CHR 0x00 \<and> c \<noteq> CHR '':'' \<and> c \<noteq> CHR ''.'' \<and> c \<noteq> CHR ''='' \<and> c \<noteq> CHR ''{''
     \<and> c \<noteq> CHR ''}'' \<and> c \<noteq> CHR ''('' \<and> c \<noteq> CHR '')'' \<and> c \<noteq> CHR ''-'' \<and> c \<noteq> CHR ''/'' \<and> c \<noteq> CHR ''*''
     \<and> c \<noteq> CHR ''|'' \<and> c \<noteq> CHR 0x22"
  by (auto simp: char_class_defs)

lemma read_word:
  assumes "w \<noteq> []" "\<forall>c \<in> set w. is_string c" "r = [] \<or> \<not> is_string (hd r)"
  shows "read_next_token (w @ r) = Inr (word_token w, r)"
proof -
  obtain c w' where w: "w = c # w'" using assms(1) by (cases w) auto
  have "takeWhile is_string (w' @ r) = w'" "dropWhile is_string (w' @ r) = r"
    using assms by (auto simp: w takeWhile_append2 dropWhile_append2; cases r; auto)+
  with string_char_plain [of c] assms(2) show ?thesis by (simp add: w read_next_token_def)
qed

lemma word_token_not_nil: "word_token w \<noteq> TT_NIL"
  by (auto simp: word_token_def keywords_table_def split: option.splits if_splits)

lemma scans_keyword: "w \<noteq> [] \<Longrightarrow> \<forall>c \<in> set w. is_string c \<Longrightarrow> scans w [word_token w]"
  unfolding scans_def using fill_step [OF read_word] word_token_not_nil by auto

lemma scans_word:
  "w \<noteq> [] \<Longrightarrow> \<forall>c \<in> set w. is_string c \<Longrightarrow> no_keyword w \<Longrightarrow> scans w [TT_STRING w]"
  using scans_keyword [of w] by (simp add: no_keyword_def word_token_def)

text \<open>Text that ends in a delimiter can be followed by anything.\<close>

definition scans_any :: "string \<Rightarrow> token list \<Rightarrow> bool" where
  "scans_any s ts \<longleftrightarrow> (\<forall>r. fill_token_vec (s @ r) = bind_result (fill_token_vec r) (\<lambda>us. Inr (ts @ us)))"

lemma scans_any_scans: "scans_any s ts \<Longrightarrow> scans s ts"
  by (simp add: scans_any_def scans_def)

lemma scans_any_Nil: "scans_any [] []"
proof -
  have "bind_result r Inr = r" for r :: "config_error + token list" by (cases r) auto
  then show ?thesis by (simp add: scans_any_def)
qed

lemma scans_any_append: "scans_any s ts \<Longrightarrow> scans_any r us \<Longrightarrow> scans_any (s @ r) (ts @ us)"
  by (simp add: scans_any_def bind_result_assoc)

lemma scans_any_then: "scans_any s ts \<Longrightarrow> scans r us \<Longrightarrow> scans (s @ r) (ts @ us)"
  by (simp add: scans_any_def scans_def bind_result_assoc)

lemma scans_delim: "scans s ts \<Longrightarrow> scans_any r us \<Longrightarrow> r \<noteq> [] \<Longrightarrow> \<not> is_string (hd r) \<Longrightarrow> scans_any (s @ r) (ts @ us)"
  by (simp add: scans_any_def scans_def bind_result_assoc)

lemma scans_then:
  "scans s ts \<Longrightarrow> scans r us \<Longrightarrow> r = [] \<or> \<not> is_string (hd r) \<Longrightarrow> scans (s @ r) (ts @ us)"
proof (cases r)
  case Nil
  assume "scans s ts" "scans r us"
  moreover have "us = []" using \<open>scans r us\<close> Nil fill_end by (simp add: scans_def)
  ultimately show ?thesis by (simp add: Nil)
qed (simp add: scans_def bind_result_assoc)

lemma scans_any_spaces: "\<forall>c \<in> set w. is_space c \<Longrightarrow> scans_any w []"
  using scans_any_Nil by (simp add: scans_any_def fill_spaces)

lemma scans_any_char:
  "(\<And>r. read_next_token (c # r) = Inr (t, r)) \<Longrightarrow> t \<noteq> TT_NIL \<Longrightarrow> scans_any [c] [t]"
  by (simp add: scans_any_def fill_step)

lemma scans_any_punctuation:
  "scans_any '':'' [TT_DOUBLE_DOT]" "scans_any ''.'' [TT_DOT]" "scans_any ''{'' [TT_LEFT_BRACE]"
  "scans_any ''}'' [TT_RIGHT_BRACE]" "scans_any ''('' [TT_LEFT_BRACKET]" "scans_any '')'' [TT_RIGHT_BRACKET]"
  "scans_any ''-'' [TT_RANGE]" "scans_any ''|'' [TT_PIPE]"
  by (rule scans_any_char; simp add: read_next_token_def is_space_def)+

lemma scans_fill: "scans s ts \<Longrightarrow> fill_token_vec s = Inr ts"
  unfolding scans_def using fill_end by (metis append_Nil2 bind_result_simps(2))

lemma scans_no_nil: "scans s ts \<Longrightarrow> TT_NIL \<notin> set ts"
  using fill_token_vec_no_nil scans_fill by blast

end
