(* ===== verification/Parser.thy ===== *)
theory Parser
  imports Scanner Interface_Rules
begin

section \<open>The parser of the configuration language (parser.hpp, parser.cpp)\<close>

text \<open>
  A \<^verbatim>\<open>parser\<close> object is its current token and the tokens the scanner has not delivered yet.  Every
  \<^verbatim>\<open>throw\<close> is an \<open>Inl\<close> value.  Tables and rules are parsed by mutual recursion; the recursion bound of
  \<open>parse_table_n\<close> and \<open>parse_rules\<close> is an argument, and \<open>parse_table\<close> starts them with
  the number of tokens, which is proved to be enough (\<open>parse_table_ends\<close>).  \<^verbatim>\<open>inet_pton\<close> of the C library is a
  parameter.
\<close>

text \<open>The test for \<^verbatim>\<open>TT_STRING\<close> together with \<^verbatim>\<open>get_string\<close>.\<close>

fun token_string :: "token \<Rightarrow> string option" where
  "token_string (TT_STRING s) = Some s"
| "token_string _ = None"

record parser =
  current_token :: token
  tokens :: "token list"

definition get_next_token :: "parser \<Rightarrow> parser" where
  "get_next_token p =
     (case tokens p of [] \<Rightarrow> p\<lparr>current_token := TT_NIL\<rparr>
      | t # ts \<Rightarrow> \<lparr>current_token = t, tokens = ts\<rparr>)"

definition peek_token :: "parser \<Rightarrow> nat \<Rightarrow> token" where
  "peek_token p n = (if n < length (tokens p) then tokens p ! n else TT_NIL)"

definition new_parser :: "string \<Rightarrow> config_error + parser" where
  "new_parser cmd =
     bind_result (fill_token_vec cmd) (\<lambda>ts. Inr (get_next_token \<lparr>current_token = TT_NIL, tokens = ts\<rparr>))"

definition remaining :: "parser \<Rightarrow> nat" where
  "remaining p = length (tokens p) + (if current_token p = TT_NIL then 0 else 1)"

datatype parser_type = PT_PROTOCOL | PT_INSTANCE_DEFINITION | PT_TABLE | PT_INTERFACE_RULE_BINDING

definition get_parser_type :: "parser \<Rightarrow> config_error + parser_type" where
  "get_parser_type p =
     (if current_token p = TT_PROTOCOL then Inr PT_PROTOCOL
      else if current_token p = TT_TABLE then Inr PT_TABLE
      else if current_token p = TT_PINSTANCE then
        (let cmp_token = peek_token p 1
         in if cmp_token = TT_DOUBLE_DOT \<or> cmp_token = TT_LEFT_BRACKET then Inr PT_INSTANCE_DEFINITION
            else if cmp_token = TT_UPSTREAM \<or> cmp_token = TT_DOWNSTREAM then Inr PT_INTERFACE_RULE_BINDING
            else Inl Parse_failed)
      else if current_token p = TT_DISABLE then Inl Mcproxy_disabled
      else Inl Parse_failed)"

definition parse_group_mem_proto :: "parser \<Rightarrow> config_error + group_mem_protocol" where
  "parse_group_mem_proto p =
     bind_result (get_parser_type p) (\<lambda>pt.
       if pt \<noteq> PT_PROTOCOL then Inl Parse_failed
       else
         (let p = get_next_token p
          in bind_result
               (if current_token p = TT_MLDV1 then Inr MLDv1
                else if current_token p = TT_MLDV2 then Inr MLDv2
                else if current_token p = TT_IGMPV1 then Inr IGMPv1
                else if current_token p = TT_IGMPV2 then Inr IGMPv2
                else if current_token p = TT_IGMPV3 then Inr IGMPv3
                else Inl Parse_failed)
               (\<lambda>result. if current_token (get_next_token p) = TT_NIL then Inr result else Inl Parse_failed)))"

subsection \<open>Numbers\<close>

definition digits_value :: "string \<Rightarrow> int" where
  "digits_value ds = foldl (\<lambda>a c. 10 * a + (int (code_point c) - 48)) 0 ds"

text \<open>\<^verbatim>\<open>std::stoi\<close> in base 10: leading white space, a sign, digits; what follows is ignored.  \<open>None\<close> stands
  for \<^verbatim>\<open>std::invalid_argument\<close> and \<^verbatim>\<open>std::out_of_range\<close>.\<close>

definition stoi :: "string \<Rightarrow> int option" where
  "stoi s =
     (let s1 = dropWhile is_space s;
          neg = (s1 \<noteq> [] \<and> hd s1 = CHR ''-'');
          s2 = (if s1 \<noteq> [] \<and> (hd s1 = CHR ''-'' \<or> hd s1 = CHR ''+'') then tl s1 else s1);
          ds = takeWhile is_digit s2;
          v = (if neg then - digits_value ds else digits_value ds)
      in if ds = [] \<or> v < - (2 ^ 31) \<or> 2 ^ 31 \<le> v then None else Some v)"

subsection \<open>Instance definitions\<close>

lemma token_string_Some [simp]: "token_string t = Some s \<longleftrightarrow> t = TT_STRING s"
  by (cases t) auto

lemma remaining_next:
  "current_token p \<noteq> TT_NIL \<Longrightarrow> remaining (get_next_token p) < remaining p"
  by (auto simp: remaining_def get_next_token_def split: list.splits)

lemma remaining_next_le: "remaining (get_next_token p) \<le> remaining p"
  by (auto simp: remaining_def get_next_token_def split: list.splits)

function parse_if_names :: "parser \<Rightarrow> iface list \<times> parser" where
  "parse_if_names p =
     (case token_string (current_token p) of
        Some s \<Rightarrow> (let (ns, p') = parse_if_names (get_next_token p) in (new_interface s # ns, p'))
      | None \<Rightarrow> ([], p))"
  by pat_completeness auto
termination
  by (relation "measure remaining") (auto intro!: remaining_next)

declare parse_if_names.simps [simp del]

definition parse_table_number :: "parser \<Rightarrow> config_error + int \<times> bool \<times> parser" where
  "parse_table_number p =
     (if current_token p = TT_LEFT_BRACKET then
        (let p = get_next_token p
         in case token_string (current_token p) of
              Some s \<Rightarrow>
                (case stoi s of
                   None \<Rightarrow> Inl Parse_failed
                 | Some n \<Rightarrow>
                     let p = get_next_token p
                     in if current_token p = TT_RIGHT_BRACKET then Inr (n, True, get_next_token p)
                        else Inl Parse_failed)
            | None \<Rightarrow> Inl Parse_failed)
      else Inr (0, False, p))"

definition parse_instance_definition :: "parser \<Rightarrow> inst_def_set \<Rightarrow> config_error + inst_def_set" where
  "parse_instance_definition p ids =
     bind_result (get_parser_type p) (\<lambda>pt.
       if pt \<noteq> PT_INSTANCE_DEFINITION then Inl Parse_failed
       else
         (let p = get_next_token p
          in case token_string (current_token p) of
               Some name \<Rightarrow>
                 bind_result (parse_table_number (get_next_token p)) (\<lambda>(number, user, p).
                   if current_token p \<noteq> TT_DOUBLE_DOT then Inl Parse_failed
                   else
                     (let (ups, p) = parse_if_names (get_next_token p)
                      in if current_token p \<noteq> TT_ARROW then Inl Parse_failed
                         else
                           (let (downs, p) = parse_if_names (get_next_token p)
                            in if downs \<noteq> [] \<and> current_token p = TT_NIL then
                                 (let (inserted, ids') = insert_instance
                                    \<lparr>instance_name = name, table_number = number,
                                     user_selected_table_number = user, upstreams = ups,
                                     downstreams = downs, global_settings = []\<rparr> ids
                                  in if inserted then Inr ids' else Inl Parse_failed)
                               else Inl Parse_failed)))
             | None \<Rightarrow> Inl Parse_failed))"

subsection \<open>Addresses and address patterns\<close>

type_synonym pton = "addr_family \<Rightarrow> string \<Rightarrow> addr_storage option"

text \<open>What \<^verbatim>\<open>get_addr\<close> appends for a token; \<open>None\<close> ends its loop.\<close>

definition addr_token :: "token \<Rightarrow> string option" where
  "addr_token t =
     (case token_string t of
        Some s \<Rightarrow> Some s
      | None \<Rightarrow> if t = TT_DOT then Some ''.'' else if t = TT_DOUBLE_DOT then Some '':'' else None)"

function read_addr_string :: "parser \<Rightarrow> string \<times> parser" where
  "read_addr_string p =
     (case addr_token (current_token p) of
        Some s \<Rightarrow> (let (r, p') = read_addr_string (get_next_token p) in (s @ r, p'))
      | None \<Rightarrow> ([], p))"
  by pat_completeness auto
termination
  by (relation "measure remaining") (auto intro!: remaining_next simp: addr_token_def)

declare read_addr_string.simps [simp del]

definition get_addr :: "pton \<Rightarrow> group_mem_protocol \<Rightarrow> parser \<Rightarrow> config_error + addr_storage \<times> parser" where
  "get_addr inet_pton gmp p =
     (let (s, p') = read_addr_string p;
          result = addr_of_string inet_pton s
      in if is_valid result then
           (if get_addr_family result = get_addr_family_gmp gmp then Inr (result, p') else Inl Parse_failed)
         else Inl Parse_failed)"

text \<open>The branch of \<^verbatim>\<open>parse_rule_part\<close> behind a slash.\<close>

definition parse_prefix :: "addr_storage \<Rightarrow> parser \<Rightarrow> config_error + addr_match \<times> parser" where
  "parse_prefix addr_from p =
     (case token_string (current_token p) of
        Some s \<Rightarrow>
          (case stoi s of
             None \<Rightarrow> Inl Parse_failed
           | Some n \<Rightarrow>
               let prefix = (word_of_int n :: u32)
               in if prefix > 128 then Inl Cpp_terminate
                  else
                    (case (mask_addr prefix addr_from, broadcast_addr prefix addr_from) of
                       (Some from, Some to) \<Rightarrow>
                         (let p = get_next_token p
                          in if current_token p = TT_RIGHT_BRACKET \<or> current_token p = TT_PIPE
                             then Inr (Addr_range from to, p) else Inl Parse_failed)
                     | _ \<Rightarrow> Inl Cpp_undefined))
      | None \<Rightarrow> Inl Parse_failed)"

text \<open>An address or a star; the star leaves the zero address of the family.\<close>

definition parse_bound :: "pton \<Rightarrow> group_mem_protocol \<Rightarrow> parser \<Rightarrow> config_error + addr_storage \<times> parser" where
  "parse_bound inet_pton gmp p =
     (if token_string (current_token p) \<noteq> None then get_addr inet_pton gmp p
      else if current_token p = TT_STAR
      then Inr (addr_of_family (get_addr_family_gmp gmp), get_next_token p)
      else Inl Parse_failed)"

definition parse_rule_part :: "pton \<Rightarrow> group_mem_protocol \<Rightarrow> parser \<Rightarrow> config_error + addr_match \<times> parser" where
  "parse_rule_part inet_pton gmp p =
     bind_result (parse_bound inet_pton gmp p) (\<lambda>(addr_from, p).
       if current_token p = TT_SLASH then parse_prefix addr_from (get_next_token p)
       else if current_token p = TT_RIGHT_BRACKET \<or> current_token p = TT_PIPE then Inr (Single_addr addr_from, p)
       else if current_token p = TT_RANGE then
         bind_result (parse_bound inet_pton gmp (get_next_token p)) (\<lambda>(addr_to, p).
           if current_token p = TT_RIGHT_BRACKET \<or> current_token p = TT_PIPE
           then Inr (Addr_range addr_from addr_to, p) else Inl Parse_failed)
       else Inl Parse_failed)"

subsection \<open>Tables and rules\<close>

text \<open>The address part of \<^verbatim>\<open>parse_rule\<close>, behind the bracket.\<close>

definition parse_addr_rule ::
  "pton \<Rightarrow> group_mem_protocol \<Rightarrow> string \<Rightarrow> parser \<Rightarrow> config_error + rule_box \<times> parser" where
  "parse_addr_rule inet_pton gmp ifn p =
     bind_result (parse_rule_part inet_pton gmp p) (\<lambda>(grp, p).
       if current_token p \<noteq> TT_PIPE then Inl Parse_failed
       else
         bind_result (parse_rule_part inet_pton gmp (get_next_token p)) (\<lambda>(src, p).
           if current_token p = TT_RIGHT_BRACKET then Inr (Rule_addr ifn grp src, p)
           else Inl Parse_failed))"

text \<open>The start of a rule: the optional interface name; \<open>None\<close> where no rule begins.\<close>

definition rule_start :: "parser \<Rightarrow> (string \<times> parser) option" where
  "rule_start p =
     (case token_string (current_token p) of
        Some s \<Rightarrow> Some (s, get_next_token p)
      | None \<Rightarrow> if current_token p = TT_LEFT_BRACKET then Some ([], p) else None)"

text \<open>The name of a table and its left brace, behind the keyword: the parser behind the brace.\<close>

definition table_start :: "parser \<Rightarrow> config_error + string \<times> parser" where
  "table_start p =
     (case token_string (current_token p) of
        Some s \<Rightarrow>
          (let p = get_next_token p
           in if current_token p = TT_LEFT_BRACE then Inr (s, get_next_token p) else Inl Parse_failed)
      | None \<Rightarrow> if current_token p = TT_LEFT_BRACE then Inr ([], get_next_token p) else Inl Parse_failed)"

text \<open>The token that ends a table: none at the top level, a bracket inside a rule.\<close>

definition table_end :: "bool \<Rightarrow> token" where
  "table_end inside_rule_box = (if inside_rule_box then TT_RIGHT_BRACKET else TT_NIL)"

definition parse_table_ref :: "global_table_set \<Rightarrow> parser \<Rightarrow> config_error + table \<times> parser" where
  "parse_table_ref gts p =
     (case token_string (current_token p) of
        Some s \<Rightarrow>
          (case get_table s gts of
             None \<Rightarrow> Inl Parse_failed
           | Some t \<Rightarrow> Inr (Table [] [Rule_table_ref s], get_next_token p))
      | None \<Rightarrow> Inl Parse_failed)"

text \<open>\<^verbatim>\<open>parse_rule\<close>, over the parser \<open>tbl\<close> of a table inside a rule; \<open>None\<close> is the null pointer.\<close>

definition parse_rule ::
  "pton \<Rightarrow> group_mem_protocol \<Rightarrow> (parser \<Rightarrow> config_error + table \<times> parser) \<Rightarrow> parser \<Rightarrow>
     config_error + rule_box option \<times> parser" where
  "parse_rule inet_pton gmp tbl p =
     (case rule_start p of
        None \<Rightarrow> Inr (None, p)
      | Some (ifn, p) \<Rightarrow>
          if current_token p \<noteq> TT_LEFT_BRACKET then Inl Parse_failed
          else
            (let p = get_next_token p
             in if current_token p = TT_TABLE then bind_result (tbl p) (\<lambda>(t, p). Inr (Some (Rule_table t), p))
                else bind_result (parse_addr_rule inet_pton gmp ifn p) (\<lambda>(r, p). Inr (Some r, p))))"

text \<open>The \<^verbatim>\<open>while\<close> loop of \<^verbatim>\<open>parse_table\<close> over the rules.\<close>

primrec parse_rules ::
  "nat \<Rightarrow> pton \<Rightarrow> group_mem_protocol \<Rightarrow> (parser \<Rightarrow> config_error + table \<times> parser) \<Rightarrow> parser \<Rightarrow>
     config_error + rule_box list \<times> parser" where
  "parse_rules 0 inet_pton gmp tbl p = Inl Out_of_fuel"
| "parse_rules (Suc n) inet_pton gmp tbl p =
     bind_result (parse_rule inet_pton gmp tbl p) (\<lambda>(r, p).
       case r of
         None \<Rightarrow> Inr ([], p)
       | Some rule \<Rightarrow>
           bind_result (parse_rules n inet_pton gmp tbl (get_next_token p)) (\<lambda>(rules, p). Inr (rule # rules, p)))"

primrec parse_table_n ::
  "nat \<Rightarrow> pton \<Rightarrow> global_table_set \<Rightarrow> group_mem_protocol \<Rightarrow> bool \<Rightarrow> parser \<Rightarrow> config_error + table \<times> parser" where
  "parse_table_n 0 inet_pton gts gmp inside p = Inl Out_of_fuel"
| "parse_table_n (Suc n) inet_pton gts gmp inside p =
     bind_result (get_parser_type p) (\<lambda>pt.
       if pt \<noteq> PT_TABLE then Inl Parse_failed
       else
         (let p = get_next_token p
          in if peek_token p 0 = table_end inside then parse_table_ref gts p
             else
               bind_result (table_start p) (\<lambda>(name, p).
                 bind_result (parse_rules n inet_pton gmp (parse_table_n n inet_pton gts gmp True) p) (\<lambda>(rules, p).
                   if current_token p = TT_RIGHT_BRACE \<and> current_token (get_next_token p) = table_end inside
                   then Inr (Table name rules, get_next_token p) else Inl Parse_failed))))"

definition parse_table_in ::
  "pton \<Rightarrow> global_table_set \<Rightarrow> group_mem_protocol \<Rightarrow> bool \<Rightarrow> parser \<Rightarrow> config_error + table \<times> parser" where
  "parse_table_in inet_pton gts gmp inside p = parse_table_n (remaining p + 1) inet_pton gts gmp inside p"

definition parse_table ::
  "pton \<Rightarrow> global_table_set \<Rightarrow> group_mem_protocol \<Rightarrow> parser \<Rightarrow> config_error + table \<times> parser" where
  "parse_table inet_pton gts gmp p = parse_table_in inet_pton gts gmp False p"

subsection \<open>Interface rule bindings\<close>

text \<open>The first interface of that name, as \<^verbatim>\<open>std::find\<close> returns it, is changed in place.\<close>

fun change_interface :: "string \<Rightarrow> (iface \<Rightarrow> config_error + iface) \<Rightarrow> iface list \<Rightarrow> config_error + iface list" where
  "change_interface n f [] = Inl Parse_failed"
| "change_interface n f (i # is) =
     (if if_name i = n then bind_result (f i) (\<lambda>i'. Inr (i' # is))
      else bind_result (change_interface n f is) (\<lambda>is'. Inr (i # is')))"

definition set_filter :: "rb_interface_direction \<Rightarrow> rule_binding \<Rightarrow> iface \<Rightarrow> config_error + iface" where
  "set_filter dir rb i =
     (case dir of
        ID_IN \<Rightarrow> if input_filter i = None then Inr (i\<lparr>input_filter := Some rb\<rparr>) else Inl Parse_failed
      | ID_OUT \<Rightarrow> if output_filter i = None then Inr (i\<lparr>output_filter := Some rb\<rparr>) else Inl Parse_failed
      | ID_WILDCARD \<Rightarrow> Inl Parse_failed)"

definition parse_interface_table_binding ::
  "pton \<Rightarrow> string \<Rightarrow> rb_interface_type \<Rightarrow> string \<Rightarrow> rb_interface_direction \<Rightarrow> global_table_set \<Rightarrow>
     group_mem_protocol \<Rightarrow> inst_def_set \<Rightarrow> parser \<Rightarrow> config_error + inst_def_set" where
  "parse_interface_table_binding inet_pton inst ity ifn dir gts gmp ids p =
     bind_result
       (if current_token p = TT_WHITELIST then Inr FT_WHITELIST
        else if current_token p = TT_BLACKLIST then Inr FT_BLACKLIST else Inl Parse_failed)
       (\<lambda>ft. bind_result (parse_table inet_pton gts gmp (get_next_token p)) (\<lambda>(t, p).
          if current_token p \<noteq> TT_NIL then Inl Parse_failed
          else
            (case map_of ids inst of
               None \<Rightarrow> Inl Parse_failed
             | Some d \<Rightarrow>
                 let rb = filter_binding inst ity ifn dir ft t
                 in bind_result
                      (case ity of
                         IT_UPSTREAM \<Rightarrow>
                           bind_result (change_interface ifn (set_filter dir rb) (upstreams d)) (\<lambda>us. Inr (d\<lparr>upstreams := us\<rparr>))
                       | IT_DOWNSTREAM \<Rightarrow>
                           bind_result (change_interface ifn (set_filter dir rb) (downstreams d)) (\<lambda>ds. Inr (d\<lparr>downstreams := ds\<rparr>)))
                      (\<lambda>d'. Inr (sm_assign inst d' ids)))))"

definition parse_rule_matching :: "parser \<Rightarrow> config_error + rb_rule_matching_type \<times> int \<times> parser" where
  "parse_rule_matching p =
     (if current_token p = TT_RULE_MATCHING then
        (let p = get_next_token p
         in if current_token p = TT_ALL then Inr (RMT_ALL, 0, p)
            else if current_token p = TT_FIRST then Inr (RMT_FIRST, 0, p)
            else if current_token p = TT_MUTEX then
              (let p = get_next_token p
               in case token_string (current_token p) of
                    Some s \<Rightarrow> (case stoi s of None \<Rightarrow> Inl Parse_failed | Some n \<Rightarrow> Inr (RMT_MUTEX, n, p))
                  | None \<Rightarrow> Inl Parse_failed)
            else Inl Parse_failed)
      else Inl Parse_failed)"

definition parse_interface_rule_match_binding ::
  "string \<Rightarrow> rb_interface_type \<Rightarrow> string \<Rightarrow> rb_interface_direction \<Rightarrow> inst_def_set \<Rightarrow> parser \<Rightarrow>
     config_error + inst_def_set" where
  "parse_interface_rule_match_binding inst ity ifn dir ids p =
     bind_result (parse_rule_matching p) (\<lambda>(rmt, timeout, p).
       if current_token (get_next_token p) \<noteq> TT_NIL then Inl Parse_failed
       else
         (case map_of ids inst of
            None \<Rightarrow> Inl Parse_failed
          | Some d \<Rightarrow>
              Inr (sm_assign inst
                (d\<lparr>global_settings := global_settings d @ [matching_binding inst ity ifn dir rmt timeout]\<rparr>) ids)))"

definition parse_interface_rule_binding ::
  "pton \<Rightarrow> global_table_set \<Rightarrow> group_mem_protocol \<Rightarrow> inst_def_set \<Rightarrow> parser \<Rightarrow> config_error + inst_def_set" where
  "parse_interface_rule_binding inet_pton gts gmp ids p =
     bind_result (get_parser_type p) (\<lambda>pt.
       if pt \<noteq> PT_INTERFACE_RULE_BINDING then Inl Parse_failed
       else
         (let p = get_next_token p
          in bind_result
               (case token_string (current_token p) of
                  Some s \<Rightarrow> if map_of ids s = None then Inl Parse_failed else Inr s
                | None \<Rightarrow> Inl Parse_failed) (\<lambda>inst.
          let p = get_next_token p
          in bind_result
               (if current_token p = TT_UPSTREAM then Inr IT_UPSTREAM
                else if current_token p = TT_DOWNSTREAM then Inr IT_DOWNSTREAM
                else Inl Parse_failed) (\<lambda>ity.
          let p = get_next_token p
          in bind_result
               (case token_string (current_token p) of
                  Some s \<Rightarrow> Inr s
                | None \<Rightarrow> if current_token p = TT_STAR then Inr ''*'' else Inl Parse_failed) (\<lambda>ifn.
          let p = get_next_token p
          in bind_result
               (if current_token p = TT_IN then Inr ID_IN
                else if current_token p = TT_OUT then Inr ID_OUT
                else Inl Parse_failed) (\<lambda>dir.
          let p = get_next_token p
          in if current_token p = TT_WHITELIST \<or> current_token p = TT_BLACKLIST
             then parse_interface_table_binding inet_pton inst ity ifn dir gts gmp ids p
             else if current_token p = TT_RULE_MATCHING
             then parse_interface_rule_match_binding inst ity ifn dir ids p
             else Inl Parse_failed))))))"

subsection \<open>Parsing ends\<close>

lemma if_names_remaining: "remaining (snd (parse_if_names p)) \<le> remaining p"
proof (induction p rule: parse_if_names.induct)
  case (1 p)
  then show ?case
    by (subst parse_if_names.simps)
       (auto split: option.splits prod.splits intro: order_trans [OF _ remaining_next_le])
qed

lemma addr_string_remaining: "remaining (snd (read_addr_string p)) \<le> remaining p"
proof (induction p rule: read_addr_string.induct)
  case (1 p)
  then show ?case
    by (subst read_addr_string.simps)
       (auto split: option.splits prod.splits intro: order_trans [OF _ remaining_next_le])
qed

lemma get_addr_remaining: "get_addr inet_pton gmp p = Inr (a, p') \<Longrightarrow> remaining p' \<le> remaining p"
  using addr_string_remaining [of p] by (auto simp: get_addr_def Let_def split: prod.splits if_splits)

lemma bound_remaining: "parse_bound inet_pton gmp p = Inr (a, p') \<Longrightarrow> remaining p' \<le> remaining p"
  by (auto simp: parse_bound_def split: if_splits dest: get_addr_remaining intro: remaining_next_le)

lemma prefix_remaining: "parse_prefix a p = Inr (m, p') \<Longrightarrow> remaining p' \<le> remaining p"
  by (auto simp: parse_prefix_def Let_def split: option.splits option.splits if_splits intro: remaining_next_le)

lemma rule_part_remaining: "parse_rule_part inet_pton gmp p = Inr (m, p') \<Longrightarrow> remaining p' \<le> remaining p"
  unfolding parse_rule_part_def bind_result_Inr
  by (auto simp: bind_result_Inr split: if_splits dest!: bound_remaining prefix_remaining
      intro: order_trans [OF order_trans [OF _ remaining_next_le]])

lemma addr_rule_remaining: "parse_addr_rule inet_pton gmp ifn p = Inr (r, p') \<Longrightarrow> remaining p' \<le> remaining p"
  unfolding parse_addr_rule_def bind_result_Inr
  by (auto simp: bind_result_Inr split: if_splits dest!: rule_part_remaining
      intro: order_trans [OF order_trans [OF _ remaining_next_le]])

lemma rule_start_remaining: "rule_start p = Some (ifn, p') \<Longrightarrow> remaining p' \<le> remaining p"
  by (auto simp: rule_start_def remaining_next_le split: option.splits if_splits)

lemma rule_remaining:
  assumes "\<And>q t q'. tbl q = Inr (t, q') \<Longrightarrow> remaining q' \<le> remaining q"
    and "parse_rule inet_pton gmp tbl p = Inr (r, p')"
  shows "remaining p' \<le> remaining p \<and> (r \<noteq> None \<longrightarrow> remaining p' < remaining p)"
proof (cases "rule_start p")
  case None
  with assms(2) show ?thesis by (simp add: parse_rule_def)
next
  case (Some x)
  obtain ifn q where x: "x = (ifn, q)" by (cases x)
  have q: "remaining q \<le> remaining p" using rule_start_remaining Some x by simp
  have lb: "current_token q = TT_LEFT_BRACKET" using assms(2) Some x by (auto simp: parse_rule_def split: if_splits)
  then have "remaining (get_next_token q) < remaining q" by (simp add: remaining_next)
  moreover have "remaining p' \<le> remaining (get_next_token q)"
    using assms(2) Some x lb
    by (auto simp: parse_rule_def Let_def bind_result_Inr split: if_splits dest: assms(1) addr_rule_remaining)
  ultimately show ?thesis using q by simp
qed

lemma rules_remaining:
  assumes "\<And>q t q'. tbl q = Inr (t, q') \<Longrightarrow> remaining q' \<le> remaining q"
  shows "parse_rules n inet_pton gmp tbl p = Inr (rs, p') \<Longrightarrow> remaining p' \<le> remaining p"
proof (induction n arbitrary: p rs p')
  case (Suc n)
  from Suc.prems obtain r q where q: "parse_rule inet_pton gmp tbl p = Inr (r, q)"
    and rest: "case r of None \<Rightarrow> (rs, p') = ([], q)
      | Some rule \<Rightarrow> (\<exists>us. parse_rules n inet_pton gmp tbl (get_next_token q) = Inr (us, p'))"
    by (auto simp: bind_result_Inr split: option.splits)
  have "remaining q \<le> remaining p" using rule_remaining [OF assms q] by simp
  with rest Suc.IH [of "get_next_token q"] remaining_next_le [of q] show ?case
    by (auto split: option.splits)
qed simp

lemma table_start_remaining: "table_start p = Inr (name, p') \<Longrightarrow> remaining p' < remaining p"
  using remaining_next [of p] remaining_next_le [of "get_next_token p"]
  by (auto simp: table_start_def Let_def split: option.splits if_splits)

lemma table_remaining: "parse_table_n n inet_pton gts gmp inside p = Inr (t, p') \<Longrightarrow> remaining p' \<le> remaining p"
proof (induction n arbitrary: inside p t p')
  case (Suc n)
  from Suc.prems consider (ref) "parse_table_ref gts (get_next_token p) = Inr (t, p')"
    | (body) name q rules q' where "table_start (get_next_token p) = Inr (name, q)"
        "parse_rules n inet_pton gmp (parse_table_n n inet_pton gts gmp True) q = Inr (rules, q')"
        "p' = get_next_token q'"
    by (auto simp: bind_result_Inr Let_def split: if_splits)
  then show ?case
  proof cases
    case ref
    then have "p' = get_next_token (get_next_token p)" by (auto simp: parse_table_ref_def split: option.splits)
    then show ?thesis by (metis order_trans remaining_next_le)
  next
    case body
    have "remaining q' \<le> remaining q" by (rule rules_remaining [OF Suc.IH body(2)])
    with table_start_remaining [OF body(1)] remaining_next_le [of p] remaining_next_le [of q'] body(3)
    show ?thesis by simp
  qed
qed simp

text \<open>Only the recursion itself can run out of its bound.\<close>

lemma no_fuel [simp]:
  "get_parser_type p \<noteq> Inl Out_of_fuel" "table_start p \<noteq> Inl Out_of_fuel" "parse_table_ref gts p \<noteq> Inl Out_of_fuel"
  "get_addr inet_pton gmp p \<noteq> Inl Out_of_fuel" "parse_prefix a p \<noteq> Inl Out_of_fuel"
  by (auto simp: get_parser_type_def table_start_def parse_table_ref_def get_addr_def parse_prefix_def Let_def
      split: option.splits if_splits prod.splits)

lemma no_fuel_bound [simp]: "parse_bound inet_pton gmp p \<noteq> Inl Out_of_fuel"
  by (auto simp: parse_bound_def split: if_splits)

lemma no_fuel_part [simp]: "parse_rule_part inet_pton gmp p \<noteq> Inl Out_of_fuel"
  by (auto simp: parse_rule_part_def bind_result_Inl split: if_splits)

lemma no_fuel_addr_rule [simp]: "parse_addr_rule inet_pton gmp ifn p \<noteq> Inl Out_of_fuel"
  by (auto simp: parse_addr_rule_def bind_result_Inl split: if_splits)

lemma rule_fuel:
  assumes "parse_rule inet_pton gmp tbl p = Inl Out_of_fuel"
  obtains q where "tbl q = Inl Out_of_fuel" "remaining q < remaining p"
proof -
  from assms obtain ifn q where q: "rule_start p = Some (ifn, q)" "current_token q = TT_LEFT_BRACKET"
      "tbl (get_next_token q) = Inl Out_of_fuel"
    by (auto simp: parse_rule_def Let_def bind_result_Inl split: option.splits if_splits)
  have "remaining (get_next_token q) < remaining p"
    using rule_start_remaining [OF q(1)] remaining_next [of q] q(2) by simp
  with q(3) that show ?thesis by blast
qed

lemma rules_fuel:
  assumes "\<And>q t q'. tbl q = Inr (t, q') \<Longrightarrow> remaining q' \<le> remaining q"
    and "\<And>q. remaining q < m \<Longrightarrow> tbl q \<noteq> Inl Out_of_fuel"
  shows "remaining p < n \<Longrightarrow> remaining p \<le> m \<Longrightarrow> parse_rules n inet_pton gmp tbl p \<noteq> Inl Out_of_fuel"
proof (induction n arbitrary: p)
  case (Suc n)
  show ?case
  proof
    assume "parse_rules (Suc n) inet_pton gmp tbl p = Inl Out_of_fuel"
    then consider (rule) "parse_rule inet_pton gmp tbl p = Inl Out_of_fuel"
      | (rest) r q where "parse_rule inet_pton gmp tbl p = Inr (Some r, q)"
          "parse_rules n inet_pton gmp tbl (get_next_token q) = Inl Out_of_fuel"
      by (auto simp: bind_result_Inl split: option.splits)
    then show False
    proof cases
      case rule
      then show False using assms(2) Suc.prems by (auto elim!: rule_fuel)
    next
      case rest
      have "remaining q < remaining p" using rule_remaining [OF assms(1) rest(1)] by simp
      with Suc.prems remaining_next_le [of q] Suc.IH [of "get_next_token q"] rest(2) show False by simp
    qed
  qed
qed simp

lemma parse_table_fuel:
  "remaining p < n \<Longrightarrow> parse_table_n n inet_pton gts gmp inside p \<noteq> Inl Out_of_fuel"
proof (induction n arbitrary: inside p)
  case (Suc n)
  show ?case
  proof
    assume "parse_table_n (Suc n) inet_pton gts gmp inside p = Inl Out_of_fuel"
    then obtain name q where pt: "get_parser_type p = Inr PT_TABLE" and q: "table_start (get_next_token p) = Inr (name, q)"
        and fuel: "parse_rules n inet_pton gmp (parse_table_n n inet_pton gts gmp True) q = Inl Out_of_fuel"
      by (auto simp: bind_result_Inl Let_def split: if_splits)
    have "current_token p \<noteq> TT_NIL" using pt by (auto simp: get_parser_type_def)
    then have "remaining q < n" using table_start_remaining [OF q] remaining_next [of p] Suc.prems by simp
    then show False using rules_fuel [OF table_remaining Suc.IH] fuel by auto
  qed
qed simp

lemma parse_table_ends: "parse_table inet_pton gts gmp p \<noteq> Inl Out_of_fuel"
  by (simp add: parse_table_def parse_table_in_def parse_table_fuel del: parse_table_n.simps)

subsection \<open>References of a parsed table\<close>

lemma addr_rule_refs: "parse_addr_rule inet_pton gmp ifn p = Inr (r, p') \<Longrightarrow> rule_refs r = {}"
  by (auto simp: parse_addr_rule_def bind_result_Inr split: if_splits)

lemma rule_refs_known:
  assumes "\<And>q t q'. tbl q = Inr (t, q') \<Longrightarrow> table_refs t \<subseteq> K"
    and "parse_rule inet_pton gmp tbl p = Inr (Some r, p')"
  shows "rule_refs r \<subseteq> K"
proof -
  from assms(2) consider (tbl) q t where "tbl q = Inr (t, p')" "r = Rule_table t"
    | (addr) ifn q where "parse_addr_rule inet_pton gmp ifn q = Inr (r, p')"
    by (auto simp: parse_rule_def Let_def bind_result_Inr split: option.splits if_splits)
  then show ?thesis by cases (simp_all add: assms(1) addr_rule_refs)
qed

lemma rules_refs_known:
  assumes "\<And>q t q'. tbl q = Inr (t, q') \<Longrightarrow> table_refs t \<subseteq> K"
  shows "parse_rules n inet_pton gmp tbl p = Inr (rs, p') \<Longrightarrow> (\<Union>r \<in> set rs. rule_refs r) \<subseteq> K"
proof (induction n arbitrary: p rs p')
  case (Suc n)
  from Suc.prems consider "rs = []"
    | r us q where "parse_rule inet_pton gmp tbl p = Inr (Some r, q)" "rs = r # us"
        "parse_rules n inet_pton gmp tbl (get_next_token q) = Inr (us, p')"
    by (auto simp: bind_result_Inr split: option.splits)
  then show ?case
  proof cases
    case 2
    with rule_refs_known [OF assms 2(1)] Suc.IH [OF 2(3)] show ?thesis by simp
  qed simp
qed simp

lemma table_refs_known:
  "parse_table_n n inet_pton gts gmp inside p = Inr (t, p') \<Longrightarrow> table_refs t \<subseteq> sm_keys gts"
proof (induction n arbitrary: inside p t p')
  case (Suc n)
  from Suc.prems consider (ref) "parse_table_ref gts (get_next_token p) = Inr (t, p')"
    | (body) name q rules q' where "t = Table name rules"
        "parse_rules n inet_pton gmp (parse_table_n n inet_pton gts gmp True) q = Inr (rules, q')"
    by (auto simp: bind_result_Inr Let_def split: if_splits)
  then show ?case
  proof cases
    case ref
    then show ?thesis by (auto simp: parse_table_ref_def get_table_def sm_keys_dom split: option.splits)
  next
    case body
    then show ?thesis using rules_refs_known [OF Suc.IH body(2)] by simp
  qed
qed simp

lemma parse_table_refs: "parse_table inet_pton gts gmp p = Inr (t, p') \<Longrightarrow> table_refs t \<subseteq> sm_keys gts"
  unfolding parse_table_def parse_table_in_def by (rule table_refs_known)

end
