(* ===== verification/Config_Print.thy ===== *)
theory Config_Print
  imports Parser
begin

section \<open>Printing tables and parsing them back (interface.cpp, def.cpp)\<close>

text \<open>
  The \<^verbatim>\<open>to_string\<close> functions of address patterns, rules and tables, with \<^verbatim>\<open>indention\<close> of def.cpp and
  \<^verbatim>\<open>inet_ntop\<close> as a parameter.  A table of address rules is printed in the syntax of the
  configuration file, and the parser reads it back (\<open>table_print_parse\<close>).  What is printed for a rule that
  holds a table has no brackets around it and is not accepted by the parser.
\<close>

subsection \<open>Printing\<close>

type_synonym ntop = "addr_storage \<Rightarrow> string"

definition addr_to_string :: "ntop \<Rightarrow> addr_storage \<Rightarrow> string" where
  "addr_to_string inet_ntop a = (if get_addr_family a = AF_UNSPEC then [] else inet_ntop a)"

fun match_to_string :: "ntop \<Rightarrow> addr_match \<Rightarrow> string" where
  "match_to_string inet_ntop (Single_addr a) = addr_to_string inet_ntop a"
| "match_to_string inet_ntop (Addr_range from to) =
     addr_to_string inet_ntop from @ '' - '' @ addr_to_string inet_ntop to"

text \<open>A tab behind every line feed but a last one.\<close>

fun indent_lines :: "string \<Rightarrow> string" where
  "indent_lines [] = []"
| "indent_lines (c # s) = (if c = CHR 0x0A \<and> s \<noteq> [] then c # CHR 0x09 # indent_lines s else c # indent_lines s)"

definition indention :: "string \<Rightarrow> string" where
  "indention s = CHR 0x09 # indent_lines s"

fun rule_to_string :: "ntop \<Rightarrow> rule_box \<Rightarrow> string" and table_to_string :: "ntop \<Rightarrow> table \<Rightarrow> string" where
  "rule_to_string inet_ntop (Rule_addr ifn grp src) =
     ifn @ ''('' @ match_to_string inet_ntop grp @ '' | '' @ match_to_string inet_ntop src @ '')''"
| "rule_to_string inet_ntop (Rule_table t) = table_to_string inet_ntop t"
| "rule_to_string inet_ntop (Rule_table_ref n) = ''(table '' @ n @ '')''"
| "table_to_string inet_ntop (Table n rs) =
     ''table '' @ n @ '' {'' @ [CHR 0x0A] @
     concat (map (\<lambda>r. indention (rule_to_string inet_ntop r) @ [CHR 0x0A]) rs) @ ''}''"

subsection \<open>The text of an address\<close>

definition is_hex :: "char \<Rightarrow> bool" where
  "is_hex c \<longleftrightarrow> is_digit c \<or> 97 \<le> code_point c \<and> code_point c \<le> 102 \<or> 65 \<le> code_point c \<and> code_point c \<le> 70"

definition addr_char :: "char \<Rightarrow> bool" where
  "addr_char c \<longleftrightarrow> is_hex c \<or> c = CHR ''.'' \<or> c = CHR '':''"

lemma hex_is_string: "is_hex c \<Longrightarrow> is_string c"
  by (auto simp: is_hex_def char_class_defs)

lemma hex_lower: "is_hex c \<Longrightarrow> is_hex (to_lower c) \<and> \<not> is_upper (to_lower c)"
  by (auto simp: is_hex_def char_class_defs of_char_of)

lemma keyword_not_hex: "(k, t) \<in> set keywords_table \<Longrightarrow> \<exists>c \<in> set k. \<not> is_hex c"
  by (auto simp: keywords_table_def is_hex_def char_class_defs)

lemma hex_no_keyword:
  assumes "\<forall>c \<in> set w. is_hex c"
  shows "no_keyword w"
proof (rule ccontr)
  assume "\<not> no_keyword w"
  then obtain t where "(map to_lower w, t) \<in> set keywords_table"
    by (auto simp: no_keyword_def dest: map_of_SomeD)
  from keyword_not_hex [OF this] assms hex_lower show False by auto
qed

text \<open>The text is scanned into words, dots and colons, and \<open>get_addr\<close> puts it together again.\<close>

definition addr_tokens :: "string \<Rightarrow> token list \<Rightarrow> bool" where
  "addr_tokens s ts \<longleftrightarrow> scans s ts \<and> (\<forall>t \<in> set ts. addr_token t \<noteq> None) \<and>
     concat (map (\<lambda>t. the (addr_token t)) ts) = s"

lemma addr_token_simps [simp]:
  "addr_token (TT_STRING s) = Some s" "addr_token TT_DOT = Some ''.''" "addr_token TT_DOUBLE_DOT = Some '':''"
  by (simp_all add: addr_token_def)

lemma punct_tokens:
  assumes "scans_any [c] [t]" "addr_token t = Some [c]" "addr_tokens s ts"
  shows "addr_tokens (c # s) (t # ts)"
  using assms scans_any_then [of "[c]" "[t]" s ts] by (simp add: addr_tokens_def)

lemma word_tokens:
  assumes "w \<noteq> []" "\<forall>c \<in> set w. is_hex c" "addr_tokens s ts" "s = [] \<or> \<not> is_string (hd s)"
  shows "addr_tokens (w @ s) (TT_STRING w # ts)"
  using assms scans_then [OF scans_word [of w], of s ts]
  by (auto simp: addr_tokens_def hex_is_string hex_no_keyword)

lemma punct_not_string: "addr_char c \<Longrightarrow> \<not> is_hex c \<Longrightarrow> \<not> is_string c"
  by (auto simp: addr_char_def char_class_defs)

lemma addr_tokens_exist:
  "\<forall>c \<in> set s. addr_char c \<Longrightarrow>
     \<exists>ts. addr_tokens s ts \<and> (s \<noteq> [] \<longrightarrow> is_hex (hd s) \<longrightarrow> (\<exists>w us. ts = TT_STRING w # us))"
proof (induction s rule: length_induct)
  case (1 s)
  have IH: "\<exists>ts. addr_tokens r ts" if "length r < length s" "set r \<subseteq> set s" for r
    using 1 that by blast
  show ?case
  proof (cases s)
    case Nil
    then show ?thesis using scans_any_scans [OF scans_any_Nil] by (auto simp: addr_tokens_def)
  next
    case (Cons c r)
    show ?thesis
    proof (cases "is_hex c")
      case True
      define w where "w = takeWhile is_hex s"
      define q where "q = dropWhile is_hex s"
      have s: "s = w @ q" by (simp add: w_def q_def)
      have w: "w \<noteq> []" "\<forall>x \<in> set w. is_hex x" using True Cons by (auto simp: w_def dest: set_takeWhileD)
      have "length q < length s" using w(1) by (simp add: s)
      moreover have "set q \<subseteq> set s" by (simp add: s)
      ultimately obtain ts where ts: "addr_tokens q ts" using IH by blast
      have "q = [] \<or> \<not> is_string (hd q)"
      proof (cases "q = []")
        case False
        then have "\<not> is_hex (hd q)" unfolding q_def by (rule hd_dropWhile)
        moreover have "addr_char (hd q)" using 1(2) False s hd_in_set by auto
        ultimately show ?thesis using punct_not_string by simp
      qed simp
      from word_tokens [OF w ts this] show ?thesis using s by auto
    next
      case False
      then have c: "c = CHR ''.'' \<or> c = CHR '':''" using 1(2) Cons by (auto simp: addr_char_def)
      obtain ts where "addr_tokens r ts" using IH [of r] Cons by auto
      with c scans_any_punctuation have "\<exists>t. addr_tokens (c # r) (t # ts)"
        by (metis punct_tokens addr_token_simps(2) addr_token_simps(3))
      then show ?thesis using False Cons by auto
    qed
  qed
qed

subsection \<open>Parsing a list of tokens\<close>

fun at_tokens :: "token list \<Rightarrow> parser" where
  "at_tokens [] = \<lparr>current_token = TT_NIL, tokens = []\<rparr>"
| "at_tokens (t # ts) = \<lparr>current_token = t, tokens = ts\<rparr>"

lemma next_at [simp]: "get_next_token \<lparr>current_token = t, tokens = ts\<rparr> = at_tokens ts"
  by (cases ts) (simp_all add: get_next_token_def)

lemma new_parser_at: "scans s ts \<Longrightarrow> new_parser s = Inr (at_tokens ts)"
  by (simp add: new_parser_def scans_fill)

lemma read_addr_tokens:
  assumes "\<forall>t \<in> set ts. addr_token t \<noteq> None" "addr_token d = None"
  shows "read_addr_string (at_tokens (ts @ d # rest)) =
    (concat (map (\<lambda>t. the (addr_token t)) ts), at_tokens (d # rest))"
  using assms
proof (induction ts)
  case Nil
  then show ?case by (subst read_addr_string.simps) simp
next
  case (Cons t ts)
  then obtain u where "addr_token t = Some u" by auto
  with Cons show ?case by (subst read_addr_string.simps) simp
qed

definition delimiter :: "token \<Rightarrow> bool" where
  "delimiter t \<longleftrightarrow> t = TT_RIGHT_BRACKET \<or> t = TT_PIPE"

lemma delimiter_no_addr: "delimiter t \<or> t = TT_RANGE \<Longrightarrow> addr_token t = None"
  by (auto simp: delimiter_def addr_token_def)

subsection \<open>Printed addresses, patterns and rules\<close>

text \<open>
  What the round trip asks of an address and the conversions of the C library: the text is made of
  hexadecimal digits, dots and colons, begins with a digit (the parser takes no address that begins with a
  colon), has a colon exactly for IPv6, and \<^verbatim>\<open>inet_pton\<close> reads it back.
\<close>

definition printable_addr :: "pton \<Rightarrow> ntop \<Rightarrow> group_mem_protocol \<Rightarrow> addr_storage \<Rightarrow> bool" where
  "printable_addr inet_pton inet_ntop gmp a \<longleftrightarrow>
     is_valid a \<and> get_addr_family a = get_addr_family_gmp gmp \<and>
     inet_ntop a \<noteq> [] \<and> is_hex (hd (inet_ntop a)) \<and> list_all addr_char (inet_ntop a) \<and>
     (CHR '':'' \<in> set (inet_ntop a) \<longleftrightarrow> get_addr_family a = AF_INET6) \<and>
     inet_pton (get_addr_family a) (inet_ntop a) = Some a"

fun printable_match :: "pton \<Rightarrow> ntop \<Rightarrow> group_mem_protocol \<Rightarrow> addr_match \<Rightarrow> bool" where
  "printable_match inet_pton inet_ntop gmp (Single_addr a) = printable_addr inet_pton inet_ntop gmp a"
| "printable_match inet_pton inet_ntop gmp (Addr_range from to) =
     (printable_addr inet_pton inet_ntop gmp from \<and> printable_addr inet_pton inet_ntop gmp to)"

definition printable_name :: "string \<Rightarrow> bool" where
  "printable_name s \<longleftrightarrow> s = [] \<or> list_all is_string s \<and> no_keyword s"

fun printable_rule :: "pton \<Rightarrow> ntop \<Rightarrow> group_mem_protocol \<Rightarrow> rule_box \<Rightarrow> bool" where
  "printable_rule inet_pton inet_ntop gmp (Rule_addr ifn grp src) =
     (printable_name ifn \<and> printable_match inet_pton inet_ntop gmp grp \<and> printable_match inet_pton inet_ntop gmp src)"
| "printable_rule inet_pton inet_ntop gmp r = False"

lemma printed_addr:
  assumes "printable_addr inet_pton inet_ntop gmp a"
  obtains w ts where "scans (addr_to_string inet_ntop a) (TT_STRING w # ts)"
    and "\<And>d rest. addr_token d = None \<Longrightarrow>
      parse_bound inet_pton gmp (at_tokens (TT_STRING w # ts @ d # rest)) = Inr (a, at_tokens (d # rest))"
proof -
  let ?s = "inet_ntop a"
  have chars: "\<forall>c \<in> set ?s. addr_char c" and hd: "?s \<noteq> []" "is_hex (hd ?s)" and fam: "get_addr_family a \<noteq> AF_UNSPEC"
    using assms by (auto simp: printable_addr_def list_all_iff is_valid_def)
  from addr_tokens_exist [OF chars] hd obtain w us where ts: "addr_tokens ?s (TT_STRING w # us)" by blast
  have str: "addr_of_string inet_pton ?s = a"
    using assms fam by (cases a) (auto simp: printable_addr_def addr_of_string_def)
  have "parse_bound inet_pton gmp (at_tokens (TT_STRING w # us @ d # rest)) = Inr (a, at_tokens (d # rest))"
    if "addr_token d = None" for d rest
    using read_addr_tokens [of "TT_STRING w # us" d rest] ts that str assms
    by (simp add: addr_tokens_def parse_bound_def get_addr_def printable_addr_def)
  moreover have "scans (addr_to_string inet_ntop a) (TT_STRING w # us)"
    using ts fam by (simp add: addr_tokens_def addr_to_string_def)
  ultimately show ?thesis using that by blast
qed

lemma space_delim:
  "scans_any s ts \<Longrightarrow> scans_any (CHR '' '' # s) ts"
  using scans_any_append [OF scans_any_spaces [of "'' ''"], of s ts] by (simp add: is_space_def)

lemma delim_space:
  "scans_any s ts \<Longrightarrow> scans_any (s @ '' '') ts"
  using scans_any_append [OF _ scans_any_spaces [of "'' ''"], of s ts] by (simp add: is_space_def)

lemma printed_match:
  assumes "printable_match inet_pton inet_ntop gmp m"
  obtains ts where "scans (match_to_string inet_ntop m) ts"
    and "\<And>d rest. delimiter d \<Longrightarrow>
      parse_rule_part inet_pton gmp (at_tokens (ts @ d # rest)) = Inr (m, at_tokens (d # rest))"
proof (cases m)
  case (Single_addr a)
  with assms obtain w ts where ts: "scans (addr_to_string inet_ntop a) (TT_STRING w # ts)"
      "\<And>d rest. addr_token d = None \<Longrightarrow>
        parse_bound inet_pton gmp (at_tokens (TT_STRING w # ts @ d # rest)) = Inr (a, at_tokens (d # rest))"
    by (auto elim: printed_addr)
  have "parse_rule_part inet_pton gmp (at_tokens ((TT_STRING w # ts) @ d # rest)) = Inr (m, at_tokens (d # rest))"
    if "delimiter d" for d rest
    using ts(2) [of d rest] delimiter_no_addr [of d] that Single_addr
    by (auto simp: parse_rule_part_def delimiter_def)
  with ts(1) that show ?thesis by (auto simp: Single_addr)
next
  case (Addr_range lo hi)
  with assms obtain w ts where f: "scans (addr_to_string inet_ntop lo) (TT_STRING w # ts)"
      "\<And>d rest. addr_token d = None \<Longrightarrow>
        parse_bound inet_pton gmp (at_tokens (TT_STRING w # ts @ d # rest)) = Inr (lo, at_tokens (d # rest))"
    by (auto elim: printed_addr)
  from Addr_range assms obtain v us where t: "scans (addr_to_string inet_ntop hi) (TT_STRING v # us)"
      "\<And>d rest. addr_token d = None \<Longrightarrow>
        parse_bound inet_pton gmp (at_tokens (TT_STRING v # us @ d # rest)) = Inr (hi, at_tokens (d # rest))"
    by (auto elim: printed_addr)
  have mid: "scans_any '' - '' [TT_RANGE]"
    using delim_space [OF space_delim [OF scans_any_punctuation(7)]] by simp
  have "scans (match_to_string inet_ntop m) ((TT_STRING w # ts) @ TT_RANGE # TT_STRING v # us)"
    using scans_any_then [OF scans_delim [OF f(1) mid] t(1)] by (simp add: Addr_range char_class_defs)
  moreover have "parse_rule_part inet_pton gmp (at_tokens (((TT_STRING w # ts) @ TT_RANGE # TT_STRING v # us) @ d # rest))
      = Inr (m, at_tokens (d # rest))" if "delimiter d" for d rest
    using f(2) [of TT_RANGE "TT_STRING v # us @ d # rest"] t(2) [of d rest] delimiter_no_addr that Addr_range
    by (auto simp: parse_rule_part_def delimiter_def)
  ultimately show ?thesis using that by blast
qed

lemma printed_name:
  assumes "printable_name n"
  shows "scans n (if n = [] then [] else [TT_STRING n])"
  using assms scans_word [of n] scans_any_scans [OF scans_any_Nil]
  by (auto simp: printable_name_def list_all_iff)

definition name_tokens :: "string \<Rightarrow> token list" where
  "name_tokens n = (if n = [] then [] else [TT_STRING n])"

lemma rule_start_name:
  "rule_start (at_tokens (name_tokens n @ TT_LEFT_BRACKET # rest)) = Some (n, at_tokens (TT_LEFT_BRACKET # rest))"
  by (simp add: name_tokens_def rule_start_def)

lemma part_not_table: "parse_rule_part inet_pton gmp p = Inr x \<Longrightarrow> current_token p \<noteq> TT_TABLE"
  by (auto simp: parse_rule_part_def parse_bound_def)

lemma printed_rule:
  assumes "printable_rule inet_pton inet_ntop gmp r"
  obtains ts where "scans_any (rule_to_string inet_ntop r) (ts @ [TT_RIGHT_BRACKET])"
    and "\<And>tbl rest. parse_rule inet_pton gmp tbl (at_tokens (ts @ TT_RIGHT_BRACKET # rest)) =
      Inr (Some r, at_tokens (TT_RIGHT_BRACKET # rest))"
proof -
  from assms obtain ifn grp src where r: "r = Rule_addr ifn grp src" "printable_name ifn"
      "printable_match inet_pton inet_ntop gmp grp" "printable_match inet_pton inet_ntop gmp src"
    by (cases r) auto
  obtain gs where g: "scans (match_to_string inet_ntop grp) gs"
      "\<And>d rest. delimiter d \<Longrightarrow> parse_rule_part inet_pton gmp (at_tokens (gs @ d # rest)) = Inr (grp, at_tokens (d # rest))"
    using printed_match [OF r(3)] by blast
  obtain ss where s: "scans (match_to_string inet_ntop src) ss"
      "\<And>d rest. delimiter d \<Longrightarrow> parse_rule_part inet_pton gmp (at_tokens (ss @ d # rest)) = Inr (src, at_tokens (d # rest))"
    using printed_match [OF r(4)] by blast
  let ?ts = "name_tokens ifn @ TT_LEFT_BRACKET # gs @ TT_PIPE # ss"
  have pipe: "scans_any '' | '' [TT_PIPE]"
    using delim_space [OF space_delim [OF scans_any_punctuation(8)]] by simp
  have open_: "scans_any (ifn @ ''('') (name_tokens ifn @ [TT_LEFT_BRACKET])"
    using scans_delim [OF printed_name [OF r(2)] scans_any_punctuation(5)] by (simp add: name_tokens_def char_class_defs)
  have "scans_any (match_to_string inet_ntop src @ '')'') (ss @ [TT_RIGHT_BRACKET])"
    using scans_delim [OF s(1) scans_any_punctuation(6)] by (simp add: char_class_defs)
  with pipe have "scans_any ('' | '' @ match_to_string inet_ntop src @ '')'') ([TT_PIPE] @ ss @ [TT_RIGHT_BRACKET])"
    by (rule scans_any_append)
  with g(1) have "scans_any (match_to_string inet_ntop grp @ '' | '' @ match_to_string inet_ntop src @ '')'')
      (gs @ [TT_PIPE] @ ss @ [TT_RIGHT_BRACKET])"
    by (rule scans_delim) (simp_all add: char_class_defs)
  from scans_any_append [OF open_ this] have "scans_any (rule_to_string inet_ntop r) (?ts @ [TT_RIGHT_BRACKET])"
    by (simp add: r(1))
  moreover have "parse_rule inet_pton gmp tbl (at_tokens (?ts @ TT_RIGHT_BRACKET # rest)) =
      Inr (Some r, at_tokens (TT_RIGHT_BRACKET # rest))" for tbl rest
  proof -
    have p1: "parse_rule_part inet_pton gmp (at_tokens (gs @ TT_PIPE # ss @ TT_RIGHT_BRACKET # rest)) =
        Inr (grp, at_tokens (TT_PIPE # ss @ TT_RIGHT_BRACKET # rest))"
      by (rule g(2)) (simp add: delimiter_def)
    have p2: "parse_rule_part inet_pton gmp (at_tokens (ss @ TT_RIGHT_BRACKET # rest)) =
        Inr (src, at_tokens (TT_RIGHT_BRACKET # rest))"
      by (rule s(2)) (simp add: delimiter_def)
    show ?thesis
      using p1 p2 part_not_table [OF p1] rule_start_name [of ifn "gs @ TT_PIPE # ss @ TT_RIGHT_BRACKET # rest"]
      by (simp add: parse_rule_def parse_addr_rule_def r(1))
  qed
  ultimately show ?thesis using that by blast
qed

lemma indent_lines_id: "CHR 0x0A \<notin> set s \<Longrightarrow> indent_lines s = s"
  by (induction s rule: indent_lines.induct) auto

lemma addr_no_newline: "printable_addr inet_pton inet_ntop gmp a \<Longrightarrow> CHR 0x0A \<notin> set (addr_to_string inet_ntop a)"
  by (auto simp: printable_addr_def addr_to_string_def list_all_iff addr_char_def is_hex_def char_class_defs)

lemma match_no_newline: "printable_match inet_pton inet_ntop gmp m \<Longrightarrow> CHR 0x0A \<notin> set (match_to_string inet_ntop m)"
  by (cases m) (auto dest: addr_no_newline)

lemma rule_no_newline: "printable_rule inet_pton inet_ntop gmp r \<Longrightarrow> CHR 0x0A \<notin> set (rule_to_string inet_ntop r)"
  by (cases r) (auto dest: match_no_newline simp: printable_name_def list_all_iff char_class_defs)

lemma printed_line:
  assumes "printable_rule inet_pton inet_ntop gmp r" "scans_any (rule_to_string inet_ntop r) ts"
  shows "scans_any (indention (rule_to_string inet_ntop r) @ [CHR 0x0A]) ts"
proof -
  have "indention (rule_to_string inet_ntop r) = [CHR 0x09] @ rule_to_string inet_ntop r"
    using indent_lines_id [OF rule_no_newline [OF assms(1)]] by (simp add: indention_def)
  moreover have tab: "scans_any [CHR 0x09] []" and nl: "scans_any [CHR 0x0A] []"
    by (rule scans_any_spaces; simp add: is_space_def)+
  ultimately show ?thesis
    using scans_any_append [OF scans_any_append [OF tab assms(2)] nl] by simp
qed

lemma printed_rules:
  "\<forall>r \<in> set rs. printable_rule inet_pton inet_ntop gmp r \<Longrightarrow>
   \<exists>ts. scans_any (concat (map (\<lambda>r. indention (rule_to_string inet_ntop r) @ [CHR 0x0A]) rs)) ts \<and> length rs \<le> length ts \<and>
     (\<forall>n tbl rest. length rs < n \<longrightarrow> parse_rules n inet_pton gmp tbl (at_tokens (ts @ TT_RIGHT_BRACE # rest)) =
        Inr (rs, at_tokens (TT_RIGHT_BRACE # rest)))"
proof (induction rs)
  case Nil
  have "parse_rules n inet_pton gmp tbl (at_tokens (TT_RIGHT_BRACE # rest)) = Inr ([], at_tokens (TT_RIGHT_BRACE # rest))"
    if "0 < n" for n tbl rest
    using that by (cases n) (simp_all add: parse_rule_def rule_start_def)
  then show ?case using scans_any_Nil by (intro exI [of _ "[]"]) simp
next
  case (Cons r rs)
  then obtain us where us: "scans_any (concat (map (\<lambda>r. indention (rule_to_string inet_ntop r) @ [CHR 0x0A]) rs)) us"
      "length rs \<le> length us"
      "\<And>n tbl rest. length rs < n \<Longrightarrow> parse_rules n inet_pton gmp tbl (at_tokens (us @ TT_RIGHT_BRACE # rest)) =
        Inr (rs, at_tokens (TT_RIGHT_BRACE # rest))"
    by auto
  have pr: "printable_rule inet_pton inet_ntop gmp r" using Cons.prems by simp
  obtain ts where ts: "scans_any (rule_to_string inet_ntop r) (ts @ [TT_RIGHT_BRACKET])"
      "\<And>tbl rest. parse_rule inet_pton gmp tbl (at_tokens (ts @ TT_RIGHT_BRACKET # rest)) =
        Inr (Some r, at_tokens (TT_RIGHT_BRACKET # rest))"
    using printed_rule [OF pr] by blast
  have "parse_rules n inet_pton gmp tbl (at_tokens ((ts @ [TT_RIGHT_BRACKET] @ us) @ TT_RIGHT_BRACE # rest)) =
      Inr (r # rs, at_tokens (TT_RIGHT_BRACE # rest))" if "length (r # rs) < n" for n tbl rest
    using that us(3) ts(2) by (cases n) auto
  with scans_any_append [OF printed_line [OF pr ts(1)] us(1)] us(2) show ?case
    by (intro exI [of _ "ts @ [TT_RIGHT_BRACKET] @ us"]) simp
qed

lemma printed_table:
  assumes "printable_name n" "\<forall>r \<in> set rs. printable_rule inet_pton inet_ntop gmp r"
  obtains ts where "scans (table_to_string inet_ntop (Table n rs)) (TT_TABLE # name_tokens n @ TT_LEFT_BRACE # ts @ [TT_RIGHT_BRACE])"
    "length rs \<le> length ts"
    "\<And>k tbl. length rs < k \<Longrightarrow> parse_rules k inet_pton gmp tbl (at_tokens (ts @ [TT_RIGHT_BRACE])) =
       Inr (rs, at_tokens [TT_RIGHT_BRACE])"
proof -
  from printed_rules [OF assms(2)] obtain ts where
    ts: "scans_any (concat (map (\<lambda>r. indention (rule_to_string inet_ntop r) @ [CHR 0x0A]) rs)) ts" "length rs \<le> length ts"
      "\<And>k tbl. length rs < k \<Longrightarrow> parse_rules k inet_pton gmp tbl (at_tokens (ts @ [TT_RIGHT_BRACE])) =
         Inr (rs, at_tokens [TT_RIGHT_BRACE])"
    by auto
  have kw: "scans_any ''table '' [TT_TABLE]"
    using scans_delim [OF scans_keyword [of "''table''"] scans_any_spaces [of "'' ''"]]
    by (simp add: word_token_def keywords_table_def char_class_defs)
  have brace: "scans_any ('' {'' @ [CHR 0x0A]) [TT_LEFT_BRACE]"
    using scans_any_append [OF space_delim [OF scans_any_punctuation(3)] scans_any_spaces [of "[CHR 0x0A]"]]
    by (simp add: is_space_def)
  have head: "scans_any (''table '' @ n @ '' {'' @ [CHR 0x0A]) (TT_TABLE # name_tokens n @ [TT_LEFT_BRACE])"
    using scans_any_append [OF kw scans_delim [OF printed_name [OF assms(1)] brace]]
    by (simp add: name_tokens_def char_class_defs)
  from scans_any_append [OF head scans_any_append [OF ts(1) scans_any_punctuation(4)]]
  have "scans_any (table_to_string inet_ntop (Table n rs)) (TT_TABLE # name_tokens n @ TT_LEFT_BRACE # ts @ [TT_RIGHT_BRACE])"
    by simp
  with ts that show ?thesis using scans_any_scans by blast
qed

lemma table_start_name:
  "table_start (at_tokens (name_tokens n @ TT_LEFT_BRACE # rest)) = Inr (n, at_tokens rest)"
  by (simp add: name_tokens_def table_start_def)

definition printable_table :: "pton \<Rightarrow> ntop \<Rightarrow> group_mem_protocol \<Rightarrow> table \<Rightarrow> bool" where
  "printable_table inet_pton inet_ntop gmp t =
     (case t of Table n rs \<Rightarrow> printable_name n \<and> list_all (printable_rule inet_pton inet_ntop gmp) rs)"

lemma printed_table_tokens:
  assumes "printable_table inet_pton inet_ntop gmp t"
  obtains ts where "scans (table_to_string inet_ntop t) ts"
    "\<And>gts. parse_table inet_pton gts gmp (at_tokens ts) = Inr (t, at_tokens [])"
proof -
  obtain n rs where t: "t = Table n rs" by (cases t)
  with assms have a: "printable_name n" "\<forall>r \<in> set rs. printable_rule inet_pton inet_ntop gmp r"
    by (auto simp: printable_table_def list_all_iff)
  obtain ts where ts: "scans (table_to_string inet_ntop t) (TT_TABLE # name_tokens n @ TT_LEFT_BRACE # ts @ [TT_RIGHT_BRACE])"
    "length rs \<le> length ts"
    "\<And>k tbl. length rs < k \<Longrightarrow> parse_rules k inet_pton gmp tbl (at_tokens (ts @ [TT_RIGHT_BRACE])) =
       Inr (rs, at_tokens [TT_RIGHT_BRACE])"
    using printed_table [OF a] unfolding t by blast
  let ?ts = "TT_TABLE # name_tokens n @ TT_LEFT_BRACE # ts @ [TT_RIGHT_BRACE]"
  let ?p = "at_tokens (name_tokens n @ TT_LEFT_BRACE # ts @ [TT_RIGHT_BRACE])"
  have peek: "peek_token ?p 0 \<noteq> TT_NIL"
    using scans_no_nil [OF ts(1)] by (cases ts) (auto simp: name_tokens_def peek_token_def)
  have len: "length rs < remaining (at_tokens ?ts)" using ts(2) by (simp add: remaining_def)
  have "parse_table inet_pton gts gmp (at_tokens ?ts) = Inr (t, at_tokens [])" for gts
    using ts(3) [OF len] peek table_start_name [of n "ts @ [TT_RIGHT_BRACE]"]
    by (simp add: parse_table_def parse_table_in_def get_parser_type_def table_end_def t)
  with ts(1) that show ?thesis by blast
qed


definition ex_ntop :: ntop where
  "ex_ntop a = (if a = Addr4 0xE8010203 then ''232.1.2.3'' else ''0.0.0.0'')"

definition ex_pton :: pton where
  "ex_pton af s = (if s = ''232.1.2.3'' then Some (Addr4 0xE8010203) else if s = ''0.0.0.0'' then Some (Addr4 0) else None)"

lemma ex_printable:
  "printable_addr ex_pton ex_ntop IGMPv3 (Addr4 0xE8010203)" "printable_addr ex_pton ex_ntop IGMPv3 (Addr4 0)"
  by (simp_all add: printable_addr_def ex_pton_def ex_ntop_def is_valid_def get_addr_family_gmp_def is_IPv4_iff
      addr_char_def is_hex_def is_digit_def)


end
