(* ===== verification/Configuration.thy ===== *)
theory Configuration
  imports Config_Print
begin

section \<open>Reading the configuration file (configuration.hpp, configuration.cpp)\<close>

text \<open>
  The file is read line by line, comments are cut, the rest is split at semicolons into commands with
  the line each begins in, and every command is parsed against the tables and instances defined so far.
  The invariant \<open>config_ok\<close> of the configuration says that the tables form a chain of definitions and
  that every filter refers to tables that exist; it holds after every accepted file, so that
  matching any filter of the proxy ends.
\<close>

subsection \<open>Lines, comments and commands\<close>

text \<open>The items \<^verbatim>\<open>std::getline\<close> delivers: what follows the last delimiter is delivered unless it is empty.\<close>

fun getlines :: "char \<Rightarrow> string \<Rightarrow> string list" where
  "getlines d [] = []"
| "getlines d (c # s) =
     (if c = d then [] # getlines d s
      else (case getlines d s of [] \<Rightarrow> [[c]] | l # ls \<Rightarrow> (c # l) # ls))"

definition load_file :: "string \<Rightarrow> string" where
  "load_file content = concat (map (\<lambda>l. l @ [CHR 0x0A]) (getlines (CHR 0x0A) content))"

function delete_comments :: "string \<Rightarrow> string" where
  "delete_comments s =
     (case dropWhile (\<lambda>c. c \<noteq> CHR ''#'') s of
        [] \<Rightarrow> s
      | h # r \<Rightarrow>
          (case dropWhile (\<lambda>c. c \<noteq> CHR 0x0A) r of
             [] \<Rightarrow> takeWhile (\<lambda>c. c \<noteq> CHR ''#'') s
           | n # r' \<Rightarrow> takeWhile (\<lambda>c. c \<noteq> CHR ''#'') s @ delete_comments (n # r')))"
  by pat_completeness auto
termination
proof (relation "measure length", goal_cases)
  case (2 s h r n r')
  from length_dropWhile_le [of "\<lambda>c. c \<noteq> CHR ''#''" s] length_dropWhile_le [of "\<lambda>c. c \<noteq> CHR 0x0A" r] 2
  show ?case by simp
qed simp

declare delete_comments.simps [simp del]

definition ltrim :: "string \<Rightarrow> string" where
  "ltrim s = dropWhile is_space s"

definition rtrim :: "string \<Rightarrow> string" where
  "rtrim s = rev (dropWhile is_space (rev s))"

definition count_chars :: "string \<Rightarrow> char \<Rightarrow> u32" where
  "count_chars s c = of_nat (count_list s c)"

fun separate_items :: "u32 \<Rightarrow> string list \<Rightarrow> (u32 \<times> string) list" where
  "separate_items current_line [] = []"
| "separate_items current_line (item # items) =
     (let line_count_before = count_chars item (CHR 0x0A);
          item' = ltrim item;
          line_count_after = count_chars item' (CHR 0x0A);
          item' = rtrim item';
          rest = separate_items (current_line + line_count_before) items
      in if item' \<noteq> [] then (current_line + (line_count_before - line_count_after), item') # rest else rest)"

definition separate_commands :: "string \<Rightarrow> (u32 \<times> string) list" where
  "separate_commands script = separate_items 1 (getlines (CHR '';'') script)"

subsection \<open>Running the parser\<close>

record config =
  cfg_gmp :: group_mem_protocol
  cfg_tables :: global_table_set
  cfg_instances :: inst_def_set

definition new_config :: config where
  "new_config = \<lparr>cfg_gmp = IGMPv3, cfg_tables = [], cfg_instances = []\<rparr>"

definition run_command_typed :: "pton \<Rightarrow> parser_type \<Rightarrow> parser \<Rightarrow> config \<Rightarrow> config_error + config" where
  "run_command_typed inet_pton pt p cfg =
     (case pt of
        PT_PROTOCOL \<Rightarrow> bind_result (parse_group_mem_proto p) (\<lambda>gmp. Inr (cfg\<lparr>cfg_gmp := gmp\<rparr>))
      | PT_INSTANCE_DEFINITION \<Rightarrow>
          bind_result (parse_instance_definition p (cfg_instances cfg)) (\<lambda>ids. Inr (cfg\<lparr>cfg_instances := ids\<rparr>))
      | PT_TABLE \<Rightarrow>
          bind_result (parse_table inet_pton (cfg_tables cfg) (cfg_gmp cfg) p) (\<lambda>(t, p).
            let (inserted, gts) = insert_table t (cfg_tables cfg)
            in if inserted then Inr (cfg\<lparr>cfg_tables := gts\<rparr>) else Inl Parse_failed)
      | PT_INTERFACE_RULE_BINDING \<Rightarrow>
          bind_result (parse_interface_rule_binding inet_pton (cfg_tables cfg) (cfg_gmp cfg) (cfg_instances cfg) p)
            (\<lambda>ids. Inr (cfg\<lparr>cfg_instances := ids\<rparr>)))"

definition run_command :: "pton \<Rightarrow> string \<Rightarrow> config \<Rightarrow> config_error + config" where
  "run_command inet_pton cmd cfg =
     bind_result (new_parser cmd) (\<lambda>p.
       bind_result (get_parser_type p) (\<lambda>pt. run_command_typed inet_pton pt p cfg))"

fun run_parser :: "pton \<Rightarrow> (u32 \<times> string) list \<Rightarrow> config \<Rightarrow> config_error + config" where
  "run_parser inet_pton [] cfg = Inr cfg"
| "run_parser inet_pton ((line, cmd) # cmds) cfg =
     bind_result (run_command inet_pton cmd cfg) (run_parser inet_pton cmds)"

definition read_config :: "pton \<Rightarrow> string \<Rightarrow> config_error + config" where
  "read_config inet_pton content =
     run_parser inet_pton (separate_commands (delete_comments (load_file content))) new_config"

subsection \<open>Comments and line numbers\<close>

text \<open>The reference: a comment runs from its sign up to the end of the line.\<close>

fun cut_comments :: "bool \<Rightarrow> string \<Rightarrow> string" where
  "cut_comments b [] = []"
| "cut_comments False (c # s) = (if c = CHR ''#'' then cut_comments True s else c # cut_comments False s)"
| "cut_comments True (c # s) = (if c = CHR 0x0A then c # cut_comments False s else cut_comments True s)"

lemma cut_comments_text: "CHR ''#'' \<notin> set s \<Longrightarrow> cut_comments False (s @ r) = s @ cut_comments False r"
  by (induction s) auto

lemma cut_comments_comment: "cut_comments True s = cut_comments False (dropWhile (\<lambda>c. c \<noteq> CHR 0x0A) s)"
  by (induction s) auto

lemma delete_comments_cut: "delete_comments s = cut_comments False s"
proof (induction s rule: delete_comments.induct)
  case (1 s)
  let ?t = "takeWhile (\<lambda>c. c \<noteq> CHR ''#'') s" and ?d = "dropWhile (\<lambda>c. c \<noteq> CHR ''#'') s"
  have t: "CHR ''#'' \<notin> set ?t" by (auto dest: set_takeWhileD)
  have s: "cut_comments False s = ?t @ cut_comments False ?d"
    using cut_comments_text [OF t, of ?d] by simp
  show ?case
  proof (cases ?d)
    case Nil
    then have "delete_comments s = s" by (subst delete_comments.simps) (simp only: list.case)
    with s Nil show ?thesis by (metis append_Nil2 cut_comments.simps(1) takeWhile_dropWhile_id)
  next
    case (Cons h r)
    then have h: "h = CHR ''#''" using hd_dropWhile [of "\<lambda>c. c \<noteq> CHR ''#''" s] by auto
    show ?thesis
    proof (cases "dropWhile (\<lambda>c. c \<noteq> CHR 0x0A) r")
      case Nil
      have "delete_comments s = ?t" by (subst delete_comments.simps) (simp only: Cons Nil list.case)
      moreover have "cut_comments False ?d = []" by (simp add: Cons h cut_comments_comment Nil del: dropWhile_eq_Nil_conv)
      ultimately show ?thesis using s by simp
    next
      case c: (Cons n r')
      with Cons s h 1 [OF Cons c] show ?thesis by (subst delete_comments.simps) (simp add: cut_comments_comment)
    qed
  qed
qed

text \<open>A character stands in the text behind \<open>n\<close> line feeds.\<close>

fun behind_lines :: "string \<Rightarrow> char \<Rightarrow> nat \<Rightarrow> bool" where
  "behind_lines [] c n \<longleftrightarrow> False"
| "behind_lines (d # s) c n \<longleftrightarrow>
     d = c \<and> n = 0 \<or> (if d = CHR 0x0A then (\<exists>m. n = Suc m \<and> behind_lines s c m) else behind_lines s c n)"

lemma behind_lines_append: "behind_lines (pre @ c # post) c (count_list pre (CHR 0x0A))"
  by (induction pre) auto

lemma behind_lines_split:
  "behind_lines s c n \<Longrightarrow> \<exists>pre post. s = pre @ c # post \<and> count_list pre (CHR 0x0A) = n"
proof (induction s arbitrary: n)
  case (Cons d s)
  from Cons.prems consider "d = c" "n = 0" | m where "behind_lines s c m" "n = m + (if d = CHR 0x0A then 1 else 0)"
    by (auto split: if_splits)
  then show ?case
  proof cases
    case 1
    then have "d # s = [] @ c # s \<and> count_list [] (CHR 0x0A) = n" by simp
    then show ?thesis by blast
  next
    case 2
    then obtain pre post where "s = pre @ c # post" "count_list pre (CHR 0x0A) = m" using Cons.IH by blast
    with 2 have "d # s = (d # pre) @ c # post \<and> count_list (d # pre) (CHR 0x0A) = n" by simp
    then show ?thesis by blast
  qed
qed simp

lemma cut_comments_origin: "behind_lines (cut_comments b s) c n \<Longrightarrow> behind_lines s c n"
  by (induction b s arbitrary: n rule: cut_comments.induct) (auto split: if_splits)

text \<open>What \<^verbatim>\<open>getline\<close> puts behind every line but the last it takes away: the text is the items with the
  delimiter between them.\<close>

lemma getlines_Nil_iff: "getlines d s = [] \<longleftrightarrow> s = []"
  by (cases s) (auto split: list.splits)

lemma getlines_no_delim: "l \<in> set (getlines d s) \<Longrightarrow> d \<notin> set l"
  by (induction s arbitrary: l) (auto split: if_splits list.splits)

lemma getlines_items:
  "getlines d s = ls @ l # ls' \<Longrightarrow>
     \<exists>post. s = concat (map (\<lambda>x. x @ [d]) ls) @ l @ post"
proof (induction s arbitrary: ls l)
  case (Cons c s)
  show ?case
  proof (cases "c = d")
    case True
    with Cons show ?thesis by (cases ls) (auto simp: getlines_Nil_iff)
  next
    case c: False
    show ?thesis
    proof (cases "getlines d s")
      case Nil
      with Cons.prems c show ?thesis by (cases ls) (auto simp: getlines_Nil_iff)
    next
      case (Cons k ks)
      with c Cons.prems have "(c # k) # ks = ls @ l # ls'" by simp
      then show ?thesis
      proof (cases ls)
        case Nil
        with \<open>(c # k) # ks = ls @ l # ls'\<close> Cons have "getlines d s = [] @ k # ls'" "l = c # k" by auto
        from Cons.IH [OF this(1)] this(2) Nil show ?thesis by auto
      next
        case l: (Cons m ms)
        with \<open>(c # k) # ks = ls @ l # ls'\<close> Cons have "getlines d s = (k # ms) @ l # ls'" "m = c # k" by auto
        from Cons.IH [OF this(1)] this(2) l show ?thesis by auto
      qed
    qed
  qed
qed simp

lemma rtrim_prefix: "\<exists>w. s = rtrim s @ w"
proof -
  have "s = rtrim s @ rev (takeWhile is_space (rev s))"
    unfolding rtrim_def rev_append [symmetric] by simp
  then show ?thesis ..
qed

lemma rtrim_last: "rtrim s \<noteq> [] \<Longrightarrow> \<not> is_space (last (rtrim s))"
  using hd_dropWhile [of is_space "rev s"] by (auto simp: rtrim_def last_rev)

lemma trim_hd: "rtrim (ltrim s) \<noteq> [] \<Longrightarrow> \<not> is_space (hd (rtrim (ltrim s))) \<and> (\<exists>w. ltrim s = hd (rtrim (ltrim s)) # w)"
proof -
  assume ne: "rtrim (ltrim s) \<noteq> []"
  obtain w where w: "ltrim s = rtrim (ltrim s) @ w" using rtrim_prefix by blast
  then have hd: "hd (ltrim s) = hd (rtrim (ltrim s))" "ltrim s \<noteq> []" using ne by (metis hd_append2, metis append_is_Nil_conv)
  moreover have "\<not> is_space (hd (ltrim s))" using hd(2) hd_dropWhile unfolding ltrim_def by blast
  ultimately show ?thesis by (metis list.collapse)
qed

lemma separate_items_line:
  "(line, cmd) \<in> set (separate_items n items) \<Longrightarrow>
     \<exists>ls l ls'. items = ls @ l # ls' \<and> cmd = rtrim (ltrim l) \<and> cmd \<noteq> [] \<and>
       line = n + of_nat (count_list (concat ls @ takeWhile is_space l) (CHR 0x0A))"
proof (induction items arbitrary: n)
  case (Cons i items)
  have i: "count_chars i (CHR 0x0A) - count_chars (ltrim i) (CHR 0x0A) = of_nat (count_list (takeWhile is_space i) (CHR 0x0A))"
    using count_list_append [of "takeWhile is_space i" "ltrim i" "CHR 0x0A"]
    by (simp add: count_chars_def ltrim_def)
  from Cons.prems consider "line = n + of_nat (count_list (takeWhile is_space i) (CHR 0x0A))" "cmd = rtrim (ltrim i)" "cmd \<noteq> []"
    | "(line, cmd) \<in> set (separate_items (n + count_chars i (CHR 0x0A)) items)"
    by (auto simp: Let_def i split: if_splits)
  then show ?case
  proof cases
    case 1
    then have "i # items = [] @ i # items \<and> cmd = rtrim (ltrim i) \<and> cmd \<noteq> [] \<and>
        line = n + of_nat (count_list (concat [] @ takeWhile is_space i) (CHR 0x0A))" by simp
    then show ?thesis by blast
  next
    case 2
    from Cons.IH [OF this] obtain ls l ls' where "items = ls @ l # ls'" "cmd = rtrim (ltrim l)" "cmd \<noteq> []"
        "line = n + count_chars i (CHR 0x0A) + of_nat (count_list (concat ls @ takeWhile is_space l) (CHR 0x0A))" by blast
    then have "i # items = (i # ls) @ l # ls' \<and> cmd = rtrim (ltrim l) \<and> cmd \<noteq> [] \<and>
        line = n + of_nat (count_list (concat (i # ls) @ takeWhile is_space l) (CHR 0x0A))"
      by (simp add: count_chars_def)
    then show ?thesis by blast
  qed
qed simp

lemma count_items:
  "d \<noteq> c \<Longrightarrow> count_list (concat (map (\<lambda>x. x @ [d]) ls)) c = count_list (concat ls) c"
  by (induction ls) auto

text \<open>Every command the file is split into is a trimmed piece of it without a semicolon, and its
  line number is the number of the line in which its first character stands in the file with the
  comments.\<close>

theorem command_line_numbers:
  assumes "(line, cmd) \<in> set (separate_commands (delete_comments s))"
  shows "cmd \<noteq> [] \<and> CHR '';'' \<notin> set cmd \<and> \<not> is_space (hd cmd) \<and> \<not> is_space (last cmd) \<and>
    (\<exists>pre post. s = pre @ hd cmd # post \<and> line = of_nat (1 + count_list pre (CHR 0x0A)))"
proof -
  obtain ls l ls' where g: "getlines (CHR '';'') (delete_comments s) = ls @ l # ls'" and cmd: "cmd = rtrim (ltrim l)" "cmd \<noteq> []"
    and line: "line = 1 + of_nat (count_list (concat ls @ takeWhile is_space l) (CHR 0x0A))"
    using separate_items_line [OF assms [unfolded separate_commands_def]] by blast
  have "CHR '';'' \<notin> set l" using getlines_no_delim [of l "CHR '';''" "delete_comments s"] g by simp
  moreover have sub: "set (dropWhile P xs) \<subseteq> set xs" for P and xs :: string by (auto dest: set_dropWhileD)
  have "set cmd \<subseteq> set l"
    using sub [of is_space "rev (ltrim l)"] sub [of is_space l] by (simp add: cmd(1) rtrim_def ltrim_def)
  ultimately have semi: "CHR '';'' \<notin> set cmd" by blast
  obtain post where "delete_comments s = concat (map (\<lambda>x. x @ '';'') ls) @ l @ post"
    using getlines_items [OF g] by auto
  moreover obtain w where "l = takeWhile is_space l @ hd cmd # w"
    using trim_hd [of l] cmd by (metis ltrim_def takeWhile_dropWhile_id)
  ultimately have "delete_comments s = (concat (map (\<lambda>x. x @ '';'') ls) @ takeWhile is_space l) @ hd cmd # w @ post"
    by (metis append.assoc append_Cons)
  then have "behind_lines (delete_comments s) (hd cmd) (count_list (concat ls @ takeWhile is_space l) (CHR 0x0A))"
    using behind_lines_append [of "concat (map (\<lambda>x. x @ '';'') ls) @ takeWhile is_space l" "hd cmd" "w @ post"]
    by (simp add: count_items)
  then have "behind_lines s (hd cmd) (count_list (concat ls @ takeWhile is_space l) (CHR 0x0A))"
    using cut_comments_origin by (simp add: delete_comments_cut)
  from behind_lines_split [OF this] line obtain pre post' where "s = pre @ hd cmd # post'" "line = of_nat (1 + count_list pre (CHR 0x0A))"
    by auto
  with semi cmd trim_hd [of l] rtrim_last [of "ltrim l"] show ?thesis by blast
qed

lemma command_line_numbers_witness:
  "\<exists>pre post. ''a;'' @ [CHR 0x0A] @ ''#;'' @ [CHR 0x0A] @ '' b'' = pre @ CHR ''b'' # post \<and>
     (3::u32) = of_nat (1 + count_list pre (CHR 0x0A))"
proof -
  have "(3, ''b'') \<in> set (separate_commands (delete_comments (''a;'' @ [CHR 0x0A] @ ''#;'' @ [CHR 0x0A] @ '' b'')))"
    by (simp add: delete_comments_cut separate_commands_def count_chars_def ltrim_def rtrim_def is_space_def)
  from command_line_numbers [OF this] show ?thesis by simp
qed

subsection \<open>The invariant of the configuration\<close>

definition filter_known :: "global_table_set \<Rightarrow> rule_binding option \<Rightarrow> bool" where
  "filter_known gts f \<longleftrightarrow> (\<forall>rb t. f = Some rb \<longrightarrow> rb_table rb = Some t \<longrightarrow> table_refs t \<subseteq> sm_keys gts)"

definition iface_known :: "global_table_set \<Rightarrow> iface \<Rightarrow> bool" where
  "iface_known gts i \<longleftrightarrow> filter_known gts (input_filter i) \<and> filter_known gts (output_filter i)"

definition instance_known :: "global_table_set \<Rightarrow> instance_definition \<Rightarrow> bool" where
  "instance_known gts d \<longleftrightarrow> downstreams d \<noteq> [] \<and> (\<forall>i \<in> set (upstreams d) \<union> set (downstreams d). iface_known gts i)"

definition instances_known :: "global_table_set \<Rightarrow> inst_def_set \<Rightarrow> bool" where
  "instances_known gts ids \<longleftrightarrow>
     smap_ok ids \<and> (\<forall>n d. map_of ids n = Some d \<longrightarrow> instance_name d = n \<and> instance_known gts d)"

definition config_ok :: "config \<Rightarrow> bool" where
  "config_ok cfg \<longleftrightarrow> tables_built (cfg_tables cfg) \<and> instances_known (cfg_tables cfg) (cfg_instances cfg)"

lemmas known_defs = filter_known_def iface_known_def instance_known_def instances_known_def config_ok_def

lemma new_interface_known [simp]: "iface_known gts (new_interface n)"
  by (simp add: new_interface_def iface_known_def filter_known_def)

lemma if_names_fresh: "i \<in> set (fst (parse_if_names p)) \<Longrightarrow> iface_known gts i"
proof (induction p rule: parse_if_names.induct)
  case (1 p)
  show ?case
  proof (cases "token_string (current_token p)")
    case None
    with 1(2) show ?thesis by (subst (asm) parse_if_names.simps) simp
  next
    case (Some n)
    with 1(2) have "i = new_interface n \<or> i \<in> set (fst (parse_if_names (get_next_token p)))"
      by (subst (asm) parse_if_names.simps) (simp split: prod.splits)
    with 1(1) [OF Some] show ?thesis by auto
  qed
qed

lemma instance_definition_known:
  assumes "parse_instance_definition p ids = Inr ids'" "instances_known gts ids"
  shows "instances_known gts ids'"
proof -
  from assms(1) obtain d where d: "insert_instance d ids = (True, ids')"
      "downstreams d \<noteq> []" "\<forall>i \<in> set (upstreams d) \<union> set (downstreams d). iface_known gts i"
    unfolding parse_instance_definition_def
    by (auto simp: bind_result_Inr Let_def split: if_splits option.splits prod.splits)
       (metis UnE fst_conv if_names_fresh instance_definition.select_convs(4) instance_definition.select_convs(5))
  then show ?thesis
    using assms(2) by (auto simp: insert_instance_def instances_known_def instance_known_def lookup_insert split: if_splits)
qed

lemma change_interface_known:
  assumes "change_interface n f is = Inr is'" "\<forall>i \<in> set is. iface_known gts i"
    and "\<And>i i'. f i = Inr i' \<Longrightarrow> iface_known gts i \<Longrightarrow> iface_known gts i'"
  shows "(\<forall>i \<in> set is'. iface_known gts i) \<and> is' \<noteq> []"
  using assms(1,2)
  by (induction "is" arbitrary: is') (auto simp: bind_result_Inr split: if_splits dest: assms(3))

lemma filter_binding_known:
  "table_refs t \<subseteq> sm_keys gts \<Longrightarrow> filter_known gts (Some (filter_binding inst ity ifn dir ft t))"
  by (simp add: filter_known_def filter_binding_def)

lemma set_filter_known:
  "set_filter dir (filter_binding inst ity ifn dir ft t) i = Inr i' \<Longrightarrow> table_refs t \<subseteq> sm_keys gts \<Longrightarrow>
     iface_known gts i \<Longrightarrow> iface_known gts i'"
  by (cases dir) (auto simp: set_filter_def iface_known_def filter_binding_known split: if_splits)

lemma instances_known_assign:
  "instances_known gts ids \<Longrightarrow> instance_known gts d \<Longrightarrow> instance_name d = n \<Longrightarrow> instances_known gts (sm_assign n d ids)"
  by (auto simp: instances_known_def lookup_assign)

lemma table_binding_known:
  assumes "parse_interface_table_binding inet_pton inst ity ifn dir gts gmp ids p = Inr ids'" "instances_known gts ids"
  shows "instances_known gts ids'"
proof -
  from assms(1) obtain ft t p' d where t: "parse_table inet_pton gts gmp (get_next_token p) = Inr (t, p')"
    and d: "map_of ids inst = Some d"
    and chg: "case ity of
        IT_UPSTREAM \<Rightarrow> \<exists>us. change_interface ifn (set_filter dir (filter_binding inst ity ifn dir ft t)) (upstreams d) = Inr us \<and>
          ids' = sm_assign inst (d\<lparr>upstreams := us\<rparr>) ids
      | IT_DOWNSTREAM \<Rightarrow> \<exists>ds. change_interface ifn (set_filter dir (filter_binding inst ity ifn dir ft t)) (downstreams d) = Inr ds \<and>
          ids' = sm_assign inst (d\<lparr>downstreams := ds\<rparr>) ids"
    unfolding parse_interface_table_binding_def
    by (auto simp: bind_result_Inr Let_def split: if_splits option.splits rb_interface_type.splits)
  have refs: "table_refs t \<subseteq> sm_keys gts" by (rule parse_table_refs [OF t])
  have k: "instance_known gts d" "instance_name d = inst" using assms(2) d by (auto simp: instances_known_def)
  then have known: "\<forall>i \<in> set (upstreams d). iface_known gts i" "\<forall>i \<in> set (downstreams d). iface_known gts i" "downstreams d \<noteq> []"
    by (auto simp: instance_known_def)
  show ?thesis
  proof (cases ity)
    case IT_UPSTREAM
    with chg obtain us where us: "change_interface ifn (set_filter dir (filter_binding inst ity ifn dir ft t)) (upstreams d) = Inr us"
        "ids' = sm_assign inst (d\<lparr>upstreams := us\<rparr>) ids" by auto
    have "\<forall>i \<in> set us. iface_known gts i"
      using change_interface_known [OF us(1) _ set_filter_known [OF _ refs]] known by simp
    with known k(2) have "instance_known gts (d\<lparr>upstreams := us\<rparr>)" by (auto simp: instance_known_def)
    from instances_known_assign [OF assms(2) this] k(2) us(2) show ?thesis by simp
  next
    case IT_DOWNSTREAM
    with chg obtain ds where ds: "change_interface ifn (set_filter dir (filter_binding inst ity ifn dir ft t)) (downstreams d) = Inr ds"
        "ids' = sm_assign inst (d\<lparr>downstreams := ds\<rparr>) ids" by auto
    have "(\<forall>i \<in> set ds. iface_known gts i) \<and> ds \<noteq> []"
      using change_interface_known [OF ds(1) _ set_filter_known [OF _ refs]] known by simp
    with known k(2) have "instance_known gts (d\<lparr>downstreams := ds\<rparr>)" by (auto simp: instance_known_def)
    from instances_known_assign [OF assms(2) this] k(2) ds(2) show ?thesis by simp
  qed
qed

lemma match_binding_known:
  "parse_interface_rule_match_binding inst ity ifn dir ids p = Inr ids' \<Longrightarrow> instances_known gts ids \<Longrightarrow> instances_known gts ids'"
  unfolding parse_interface_rule_match_binding_def
  by (auto simp: bind_result_Inr instances_known_def instance_known_def lookup_assign split: if_splits option.splits)

lemma rule_binding_known:
  "parse_interface_rule_binding inet_pton gts gmp ids p = Inr ids' \<Longrightarrow> instances_known gts ids \<Longrightarrow> instances_known gts ids'"
  unfolding parse_interface_rule_binding_def
  by (auto simp: bind_result_Inr Let_def split: if_splits dest: table_binding_known match_binding_known)

lemma instances_known_mono: "instances_known gts ids \<Longrightarrow> sm_keys gts \<subseteq> sm_keys gts' \<Longrightarrow> instances_known gts' ids"
  unfolding instances_known_def instance_known_def iface_known_def filter_known_def by blast

lemma insert_table_known:
  assumes "parse_table inet_pton gts gmp p = Inr (t, p')" "insert_table t gts = (True, gts')"
    and "tables_built gts" "instances_known gts ids"
  shows "tables_built gts' \<and> instances_known gts' ids"
proof
  show "tables_built gts'" by (rule built_insert [OF assms(3) parse_table_refs [OF assms(1)] assms(2)])
  have "sm_keys gts \<subseteq> sm_keys gts'" using assms(2) by (auto simp: insert_table_def)
  then show "instances_known gts' ids" by (rule instances_known_mono [OF assms(4)])
qed

lemma run_command_ok:
  assumes "run_command inet_pton cmd cfg = Inr cfg'" "config_ok cfg"
  shows "config_ok cfg'"
proof -
  from assms(1) obtain p pt where p: "get_parser_type p = Inr pt"
    and r: "run_command inet_pton cmd cfg = run_command_typed inet_pton pt p cfg"
    by (auto simp: run_command_def bind_result_Inr)
  from r assms(1) have run: "run_command_typed inet_pton pt p cfg = Inr cfg'" by simp
  show ?thesis
  proof (cases pt)
    case PT_PROTOCOL
    with run assms(2) show ?thesis by (auto simp: run_command_typed_def bind_result_Inr config_ok_def)
  next
    case PT_INSTANCE_DEFINITION
    with run obtain ids where "parse_instance_definition p (cfg_instances cfg) = Inr ids" "cfg' = cfg\<lparr>cfg_instances := ids\<rparr>"
      by (auto simp: run_command_typed_def bind_result_Inr)
    with assms(2) show ?thesis by (simp add: config_ok_def instance_definition_known)
  next
    case PT_TABLE
    with run obtain t p' gts where t: "parse_table inet_pton (cfg_tables cfg) (cfg_gmp cfg) p = Inr (t, p')"
        "insert_table t (cfg_tables cfg) = (True, gts)" "cfg' = cfg\<lparr>cfg_tables := gts\<rparr>"
      by (auto simp: run_command_typed_def bind_result_Inr insert_table_def split: if_splits)
    from insert_table_known [OF t(1,2), of "cfg_instances cfg"] assms(2) t(3) show ?thesis by (simp add: config_ok_def)
  next
    case PT_INTERFACE_RULE_BINDING
    with run obtain ids where
      "parse_interface_rule_binding inet_pton (cfg_tables cfg) (cfg_gmp cfg) (cfg_instances cfg) p = Inr ids"
      "cfg' = cfg\<lparr>cfg_instances := ids\<rparr>"
      by (auto simp: run_command_typed_def bind_result_Inr)
    with assms(2) show ?thesis by (simp add: config_ok_def rule_binding_known)
  qed
qed

lemma run_parser_ok: "run_parser inet_pton cmds cfg = Inr cfg' \<Longrightarrow> config_ok cfg \<Longrightarrow> config_ok cfg'"
  by (induction inet_pton cmds cfg rule: run_parser.induct) (auto simp: bind_result_Inr dest: run_command_ok)

lemma new_config_ok: "config_ok new_config"
  by (simp add: new_config_def config_ok_def instances_known_def built_empty)

lemma read_config_ok: "read_config inet_pton content = Inr cfg \<Longrightarrow> config_ok cfg"
  unfolding read_config_def using run_parser_ok new_config_ok by blast

subsection \<open>Properties\<close>

text \<open>C15: Every filter of every interface of an accepted configuration file decides every packet: matching
  never follows references for ever, whatever the interface name, the group and the source.\<close>

theorem config_filters_decide:
  assumes "read_config inet_pton content = Inr cfg" "map_of (cfg_instances cfg) n = Some d"
    and "i \<in> set (upstreams d) \<union> set (downstreams d)"
  shows "\<exists>b b'. match_input_filter (length (cfg_tables cfg)) (cfg_tables cfg) i ifn gaddr saddr = Some b \<and>
    match_output_filter (length (cfg_tables cfg)) (cfg_tables cfg) i ifn gaddr saddr = Some b'"
proof -
  have ok: "tables_built (cfg_tables cfg)" and "instances_known (cfg_tables cfg) (cfg_instances cfg)"
    using read_config_ok [OF assms(1)] by (simp_all add: config_ok_def)
  then have "iface_known (cfg_tables cfg) i" using assms(2,3) by (auto simp: instances_known_def instance_known_def)
  then have known: "filter_known (cfg_tables cfg) (input_filter i)" "filter_known (cfg_tables cfg) (output_filter i)"
    by (simp_all add: iface_known_def)
  have "\<exists>b. match_filter (length (cfg_tables cfg)) (cfg_tables cfg) ifn gaddr saddr f = Some b"
    if "filter_known (cfg_tables cfg) f" for f
    using that filter_result [OF ok, of "length (cfg_tables cfg)" f ifn gaddr saddr] by (simp add: filter_known_def)
  with known show ?thesis by (simp add: match_input_filter_def match_output_filter_def)
qed

definition ex_content :: string where
  "ex_content = ''table A {(232.1.2.3 | *)}; pinstance P: a ==> b; pinstance P upstream a in whitelist table A;''"

definition ex_cfg :: config where
  "ex_cfg =
     \<lparr>cfg_gmp = IGMPv3,
      cfg_tables = [(''A'', Table ''A'' [Rule_addr [] (Single_addr (Addr4 0xE8010203)) (Single_addr (Addr4 0))])],
      cfg_instances = [(''P'', \<lparr>instance_name = ''P'', table_number = 0, user_selected_table_number = False,
        upstreams = [\<lparr>if_name = ''a'', output_filter = None,
          input_filter = Some (filter_binding ''P'' IT_UPSTREAM ''a'' ID_IN FT_WHITELIST (Table [] [Rule_table_ref ''A'']))\<rparr>],
        downstreams = [new_interface ''b''], global_settings = []\<rparr>)]\<rparr>"

lemma ex_read: "read_config ex_pton ex_content = Inr ex_cfg"
  by code_simp

lemma config_filters_decide_witness:
  "\<exists>b b'. match_input_filter 1 (cfg_tables ex_cfg)
      \<lparr>if_name = ''a'', output_filter = None,
       input_filter = Some (filter_binding ''P'' IT_UPSTREAM ''a'' ID_IN FT_WHITELIST (Table [] [Rule_table_ref ''A'']))\<rparr>
      ''a'' (Addr4 0xE8010203) (Addr4 9) = Some b \<and>
    match_output_filter 1 (cfg_tables ex_cfg)
      \<lparr>if_name = ''a'', output_filter = None,
       input_filter = Some (filter_binding ''P'' IT_UPSTREAM ''a'' ID_IN FT_WHITELIST (Table [] [Rule_table_ref ''A'']))\<rparr>
      ''a'' (Addr4 0xE8010203) (Addr4 9) = Some b'"
proof -
  have "map_of (cfg_instances ex_cfg) ''P'' = Some (snd (hd (cfg_instances ex_cfg)))" by (simp add: ex_cfg_def)
  from config_filters_decide [OF ex_read this, of "hd (upstreams (snd (hd (cfg_instances ex_cfg))))"
      "''a''" "Addr4 0xE8010203" "Addr4 9"]
  show ?thesis by (simp add: ex_cfg_def)
qed

lemma fill_token_vec_fuel [simp]: "fill_token_vec s \<noteq> Inl Out_of_fuel"
proof (induction s rule: fill_token_vec.induct)
  case (1 s)
  have "read_next_token s \<noteq> Inl Out_of_fuel"
    by (auto simp: read_next_token_def Let_def split: list.splits if_splits)
  with 1 show ?case
    by (subst fill_token_vec.simps) (auto simp: bind_result_Inl split: sum.splits prod.splits if_splits)
qed

lemma change_interface_fuel: "(\<And>i. f i \<noteq> Inl Out_of_fuel) \<Longrightarrow> change_interface n f is \<noteq> Inl Out_of_fuel"
  by (induction "is") (auto simp: bind_result_Inl split: if_splits)

lemma set_filter_fuel [simp]: "set_filter dir rb i \<noteq> Inl Out_of_fuel"
  by (cases dir) (auto simp: set_filter_def split: if_splits)

lemma table_binding_fuel [simp]: "parse_interface_table_binding inet_pton inst ity ifn dir gts gmp ids p \<noteq> Inl Out_of_fuel"
  unfolding parse_interface_table_binding_def
  by (auto simp: bind_result_Inl Let_def parse_table_ends change_interface_fuel
      split: if_splits option.splits rb_interface_type.splits)

lemma match_binding_fuel [simp]: "parse_interface_rule_match_binding inst ity ifn dir ids p \<noteq> Inl Out_of_fuel"
  unfolding parse_interface_rule_match_binding_def parse_rule_matching_def
  by (auto simp: bind_result_Inl Let_def split: if_splits option.splits)

lemma rule_binding_fuel [simp]: "parse_interface_rule_binding inet_pton gts gmp ids p \<noteq> Inl Out_of_fuel"
  unfolding parse_interface_rule_binding_def
  by (auto simp: bind_result_Inl Let_def split: if_splits option.splits)

lemma instance_definition_fuel [simp]: "parse_instance_definition p ids \<noteq> Inl Out_of_fuel"
  unfolding parse_instance_definition_def parse_table_number_def
  by (auto simp: bind_result_Inl Let_def split: if_splits option.splits prod.splits)

lemma group_mem_proto_fuel [simp]: "parse_group_mem_proto p \<noteq> Inl Out_of_fuel"
  unfolding parse_group_mem_proto_def by (auto simp: bind_result_Inl Let_def split: if_splits)

lemma run_command_fuel [simp]: "run_command inet_pton cmd cfg \<noteq> Inl Out_of_fuel"
  unfolding run_command_def run_command_typed_def new_parser_def
  by (auto simp: bind_result_Inl Let_def parse_table_ends split: if_splits parser_type.splits prod.splits)

lemma run_parser_fuel: "run_parser inet_pton cmds cfg \<noteq> Inl Out_of_fuel"
  by (induction inet_pton cmds cfg rule: run_parser.induct) (auto simp: bind_result_Inl)

text \<open>Reading a file always ends, with a configuration or with one of the errors of the code:
  the recursion of the parser is bounded by the number of tokens.\<close>

theorem read_config_ends:
  "read_config inet_pton content \<noteq> Inl Out_of_fuel"
  unfolding read_config_def by (rule run_parser_fuel)

end
