(* ===== verification/Start_Up.thy ===== *)
theory Start_Up
  imports Instance_Routes Configuration
begin

section \<open>Start-up (configuration.cpp, proxy.cpp)\<close>

text \<open>
  The second half of the constructor of \<^verbatim>\<open>configuration\<close>, which numbers the interfaces of every instance, and
  \<^verbatim>\<open>proxy::start_proxy_instances\<close>, which creates the instances and sends each one its configuration.  The names of
  the interfaces (\<open>net\<close>) and the results of \<^verbatim>\<open>getifaddrs\<close> (\<open>ga\<close>, \<open>ga'\<close>, by the name of the instance they are asked for)
  are parameters.  The messages of an instance wait in its queue; all have the same priority, so its worker
  can take them in any order.  Resetting the reverse path filter is output only and left out.
\<close>

subsection \<open>Command line\<close>

text \<open>The arguments as \<^verbatim>\<open>getopt\<close> returns them: option characters with their argument, and whether arguments are
  left over.\<close>

record command_line =
  m_verbose_lvl :: int
  m_print_proxy_status :: bool
  m_reset_rp_filter :: bool
  m_config_path :: string
  is_logging :: bool
  is_check_kernel :: bool

datatype command_line_error = Help_shown | Unknown_argument | Unknown_option_argument | Kernel_checked

datatype log_level = HC_LOG_ERROR_LVL | HC_LOG_DEBUG_LVL | HC_LOG_TRACE_LVL

definition new_command_line :: command_line where
  "new_command_line = \<lparr>m_verbose_lvl = 0, m_print_proxy_status = False, m_reset_rp_filter = False,
     m_config_path = ''/etc/mcproxy.conf'', is_logging = False, is_check_kernel = False\<rparr>"

fun read_options :: "(char \<times> string) list \<Rightarrow> command_line \<Rightarrow> command_line_error + command_line" where
  "read_options [] cl = Inr cl"
| "read_options ((c, optarg) # opts) cl =
     (if c = CHR ''h'' then Inl Help_shown
      else if c = CHR ''c'' then read_options opts (cl\<lparr>is_check_kernel := True\<rparr>)
      else if c = CHR ''r'' then read_options opts (cl\<lparr>m_reset_rp_filter := True\<rparr>)
      else if c = CHR ''d'' then read_options opts (cl\<lparr>is_logging := True\<rparr>)
      else if c = CHR ''s'' then read_options opts (cl\<lparr>m_print_proxy_status := True\<rparr>)
      else if c = CHR ''v'' then read_options opts (cl\<lparr>m_verbose_lvl := m_verbose_lvl cl + 1\<rparr>)
      else if c = CHR ''f'' then read_options opts (cl\<lparr>m_config_path := optarg\<rparr>)
      else Inl Unknown_argument)"

definition prozess_commandline_args ::
  "(char \<times> string) list \<Rightarrow> bool \<Rightarrow> command_line_error + command_line \<times> log_level" where
  "prozess_commandline_args opts arguments_left =
     (case read_options opts new_command_line of
        Inl e \<Rightarrow> Inl e
      | Inr cl \<Rightarrow>
          (if arguments_left then Inl Unknown_option_argument
           else if is_check_kernel cl then Inl Kernel_checked
           else Inr (cl, if \<not> is_logging cl then HC_LOG_ERROR_LVL
                         else if m_verbose_lvl cl = 0 then HC_LOG_DEBUG_LVL else HC_LOG_TRACE_LVL)))"

subsection \<open>The interfaces of the instances\<close>

datatype start_error =
  Failed_config config_error | Failed_refresh | Unknown_interface | Failed_to_add_interface | Failed_to_add_instance
| Interface_not_found | Failed_instance instance_error

fun add_interfaces :: "net_names \<Rightarrow> iface list \<Rightarrow> interfaces \<Rightarrow> start_error + interfaces" where
  "add_interfaces net [] result = Inr result"
| "add_interfaces net (interf # l) result =
     (let if_index = if_nametoindex net (if_name interf)
      in if if_index = 0 then Inl Unknown_interface
         else (let (rc, result) = add_interface net if_index result
               in if \<not> rc then Inl Failed_to_add_interface else add_interfaces net l result))"

type_synonym interfaces_map = "(string, interfaces) smap"

fun initalize_interfaces ::
  "net_names \<Rightarrow> (string \<Rightarrow> ifaddrs list option) \<Rightarrow> group_mem_protocol \<Rightarrow> inst_def_set \<Rightarrow> interfaces_map
     \<Rightarrow> start_error + interfaces_map" where
  "initalize_interfaces net ga gmp [] m = Inr m"
| "initalize_interfaces net ga gmp ((name, inst) # ids) m =
     (case new_interfaces (get_addr_family_gmp gmp) (ga (instance_name inst)) of
        None \<Rightarrow> Inl Failed_refresh
      | Some result \<Rightarrow>
          (case add_interfaces net (downstreams inst @ upstreams inst) result of
             Inl e \<Rightarrow> Inl e
           | Inr result \<Rightarrow>
               (if sm_mem (instance_name inst) m then Inl Failed_to_add_instance
                else initalize_interfaces net ga gmp ids (sm_insert (instance_name inst) result m))))"

record configuration =
  c_config :: config
  m_interfaces_map :: interfaces_map

definition new_configuration ::
  "pton \<Rightarrow> net_names \<Rightarrow> (string \<Rightarrow> ifaddrs list option) \<Rightarrow> string \<Rightarrow> start_error + configuration" where
  "new_configuration inet_pton net ga content =
     (case read_config inet_pton content of
        Inl e \<Rightarrow> Inl (Failed_config e)
      | Inr c \<Rightarrow>
          (case initalize_interfaces net ga (cfg_gmp c) (cfg_instances c) [] of
             Inl e \<Rightarrow> Inl e
           | Inr m \<Rightarrow> Inr \<lparr>c_config = c, m_interfaces_map = m\<rparr>))"

definition get_interfaces_for_pinstance :: "configuration \<Rightarrow> string \<Rightarrow> interfaces option" where
  "get_interfaces_for_pinstance c name = map_of (m_interfaces_map c) name"

subsection \<open>Starting the instances\<close>

definition get_default_priority_interval :: u32 where
  "get_default_priority_interval = 100"

definition next_table_number :: "nat \<Rightarrow> instance_definition \<Rightarrow> int \<Rightarrow> int" where
  "next_table_number inst_set_size pinstance table =
     (if \<not> user_selected_table_number pinstance then (if inst_set_size \<le> 1 then 0 else table + 1)
      else table_number pinstance)"

fun upstream_msgs :: "net_names \<Rightarrow> u32 \<Rightarrow> iface list \<Rightarrow> start_error + proxy_msg list" where
  "upstream_msgs net upstream_priority [] = Inr []"
| "upstream_msgs net upstream_priority (u # us) =
     (let if_index = if_nametoindex net (if_name u)
      in if if_index = 0 then Inl Interface_not_found
         else case upstream_msgs net (upstream_priority + get_default_priority_interval) us of
                Inl e \<Rightarrow> Inl e
              | Inr msgs \<Rightarrow> Inr (Config_msg (ADD_UPSTREAM if_index upstream_priority u) # msgs))"

fun downstream_msgs :: "net_names \<Rightarrow> iface list \<Rightarrow> start_error + proxy_msg list" where
  "downstream_msgs net [] = Inr []"
| "downstream_msgs net (d # ds) =
     (let if_index = if_nametoindex net (if_name d)
      in if if_index = 0 then Inl Interface_not_found
         else case downstream_msgs net ds of
                Inl e \<Rightarrow> Inl e
              | Inr msgs \<Rightarrow> Inr (Config_msg (ADD_DOWNSTREAM if_index d new_timers_values) # msgs))"

definition instance_msgs :: "net_names \<Rightarrow> instance_definition \<Rightarrow> start_error + proxy_msg list" where
  "instance_msgs net pinstance =
     (case upstream_msgs net 0 (upstreams pinstance) of
        Inl e \<Rightarrow> Inl e
      | Inr us \<Rightarrow>
          (case downstream_msgs net (downstreams pinstance) of
             Inl e \<Rightarrow> Inl e
           | Inr ds \<Rightarrow> Inr (map (\<lambda>r. Config_msg (SET_GLOBAL_RULE_BINDING (Some r))) (global_settings pinstance) @ us @ ds)))"

text \<open>The loop over the instances.  A started instance is kept with its messages under its table number;
  \<^verbatim>\<open>std::map::insert\<close> drops it when the number is taken.  An instance without interfaces would follow a null
  pointer.\<close>

type_synonym proxy_instances = "(int, proxy_instance \<times> proxy_msg list) smap"

fun start_proxy_instances ::
  "net_names \<Rightarrow> (string \<Rightarrow> ifaddrs list option) \<Rightarrow> configuration \<Rightarrow> nat \<Rightarrow> inst_def_set \<Rightarrow> int \<Rightarrow> proxy_instances \<Rightarrow> world
     \<Rightarrow> (start_error + proxy_instances) \<times> world" where
  "start_proxy_instances net ga' c inst_set_size [] table m w = (Inr m, w)"
| "start_proxy_instances net ga' c inst_set_size ((name, pinstance) # ids) table m w =
     (let table = next_table_number inst_set_size pinstance table
      in case get_interfaces_for_pinstance c (instance_name pinstance) of
           None \<Rightarrow> (Inr m, crash w)
         | Some ifs \<Rightarrow>
             (case new_proxy_instance net (cfg_tables (c_config c)) (ga' (instance_name pinstance)) (cfg_gmp (c_config c))
                     (instance_name pinstance) table ifs (length ids) w of
                (Inl e, w) \<Rightarrow> (Inl (Failed_instance e), w)
              | (Inr pr_i, w) \<Rightarrow>
                  (case instance_msgs net pinstance of
                     Inl e \<Rightarrow> (Inl e, w)
                   | Inr msgs \<Rightarrow>
                       start_proxy_instances net ga' c inst_set_size ids table (sm_insert table (pr_i, msgs) m) w)))"

text \<open>The whole start-up; and the worker of an instance, which handles messages until the process ends.\<close>

definition start_up ::
  "pton \<Rightarrow> net_names \<Rightarrow> (string \<Rightarrow> ifaddrs list option) \<Rightarrow> (string \<Rightarrow> ifaddrs list option) \<Rightarrow> string \<Rightarrow> world
     \<Rightarrow> (start_error + proxy_instances) \<times> world" where
  "start_up inet_pton net ga ga' content w =
     (case new_configuration inet_pton net ga content of
        Inl e \<Rightarrow> (Inl e, w)
      | Inr c \<Rightarrow>
          (let inst_set = cfg_instances (c_config c)
           in start_proxy_instances net ga' c (length inst_set) inst_set 0 [] w))"

fun run_msgs :: "mroute_stats \<Rightarrow> bool \<Rightarrow> proxy_msg list \<Rightarrow> proxy_instance \<Rightarrow> world \<Rightarrow> proxy_instance \<times> world" where
  "run_msgs stats shared [] p w = (p, w)"
| "run_msgs stats shared (m # msgs) p w =
     (if crashed w then (p, w)
      else (let (p, w) = handle_msg stats shared m p w in run_msgs stats shared msgs p w))"

text \<open>\<^verbatim>\<open>proxy::start\<close>: the main thread waits, with the status option sends a debug message to every instance in each round,
  and tells all instances to stop once the signal handler has cleared \<^verbatim>\<open>m_running\<close>, here after \<open>n\<close> rounds.\<close>

definition add_msg_all :: "proxy_msg \<Rightarrow> proxy_instances \<Rightarrow> proxy_instances" where
  "add_msg_all msg m = sm_map (\<lambda>t (pr_i, msgs). (pr_i, msgs @ [msg])) m"

fun proxy_start :: "bool \<Rightarrow> nat \<Rightarrow> proxy_instances \<Rightarrow> proxy_instances" where
  "proxy_start print_status 0 m = add_msg_all Exit_cmd m"
| "proxy_start print_status (Suc n) m = proxy_start print_status n (if print_status then add_msg_all Debug_msg m else m)"

lemma map_of_add_msg_all:
  "map_of (add_msg_all msg m) t = map_option (\<lambda>(pr_i, msgs). (pr_i, msgs @ [msg])) (map_of m t)"
  by (induction m) (auto simp: add_msg_all_def sm_map_def)

lemma proxy_start_msgs:
  "map_of (proxy_start st n m) t =
     map_option (\<lambda>(pr_i, msgs). (pr_i, msgs @ replicate (if st then n else 0) Debug_msg @ [Exit_cmd])) (map_of m t)"
  by (induction n arbitrary: m) (auto simp: map_of_add_msg_all option.map_comp o_def case_prod_unfold)

subsection \<open>Numbered interfaces\<close>

definition index_of :: "net_names \<Rightarrow> iface \<Rightarrow> u32" where
  "index_of net interf = if_nametoindex net (if_name interf)"

lemma add_interfaces_ok:
  assumes "add_interfaces net l ifs = Inr ifs'" "ifs_ok ifs"
  shows "ifs_ok ifs' \<and> registered ifs' = registered ifs \<union> index_of net ` set l"
  using assms
proof (induction l arbitrary: ifs)
  case (Cons x l)
  let ?i = "if_nametoindex net (if_name x)"
  obtain rc ifs1 where a: "add_interface net ?i ifs = (rc, ifs1)" by fastforce
  have c: "?i \<noteq> 0" "rc" "add_interfaces net l ifs1 = Inr ifs'"
    using Cons.prems(1) a by (auto simp: Let_def split: if_splits)
  have "ifs_ok ifs1" "registered ifs1 = registered ifs \<union> {?i}"
    using add_interface_law [OF Cons.prems(2) _ a] c(1,2) by auto
  with Cons.IH [OF c(3)] show ?case by (auto simp: index_of_def)
qed simp

lemma new_interfaces_ok: "new_interfaces af getifaddrs = Some ifs \<Longrightarrow> af \<noteq> AF_UNSPEC \<Longrightarrow> ifs_ok ifs \<and> registered ifs = {}"
  by (auto simp: new_interfaces_def ifs_ok_def registered_def Let_def split: prod.splits if_splits)

lemma family_known: "get_addr_family_gmp gmp \<noteq> AF_UNSPEC"
  by (cases gmp) (simp_all add: get_addr_family_gmp_def is_IPv4_iff is_IPv6_iff)

definition numbered :: "net_names \<Rightarrow> interfaces_map \<Rightarrow> instance_definition \<Rightarrow> bool" where
  "numbered net m inst \<longleftrightarrow> (\<exists>ifs. map_of m (instance_name inst) = Some ifs \<and> ifs_ok ifs
     \<and> registered ifs = index_of net ` set (downstreams inst @ upstreams inst))"

lemma initalize_interfaces_ok:
  assumes "initalize_interfaces net ga gmp ids m = Inr m'" "smap_ok m"
  shows "(\<forall>e \<in> set ids. numbered net m' (snd e)) \<and> (\<forall>n ifs. map_of m n = Some ifs \<longrightarrow> map_of m' n = Some ifs)"
  using assms
proof (induction ids arbitrary: m)
  case (Cons e ids)
  obtain name inst where e: "e = (name, inst)" by (cases e)
  obtain r0 r where r: "new_interfaces (get_addr_family_gmp gmp) (ga (instance_name inst)) = Some r0"
    "add_interfaces net (downstreams inst @ upstreams inst) r0 = Inr r" "instance_name inst \<notin> sm_keys m"
    "initalize_interfaces net ga gmp ids (sm_insert (instance_name inst) r m) = Inr m'"
    using Cons.prems(1) by (auto simp: e split: option.splits sum.splits if_splits)
  have ok: "ifs_ok r" "registered r = index_of net ` set (downstreams inst @ upstreams inst)"
    using add_interfaces_ok [OF r(2)] new_interfaces_ok [OF r(1) family_known] by auto
  note ih = Cons.IH [OF r(4) smap_ok_insert [OF Cons.prems(2)]]
  have l: "map_of (sm_insert (instance_name inst) r m) n = (if n = instance_name inst then Some r else map_of m n)" for n
    using r(3) Cons.prems(2) by (simp add: lookup_insert map_of_None_keys)
  have "map_of m' (instance_name inst) = Some r" using ih by (simp add: l)
  then have "numbered net m' inst" using ok by (auto simp: numbered_def)
  moreover have "map_of m' n = Some ifs" if "map_of m n = Some ifs" for n ifs
  proof -
    have "n \<noteq> instance_name inst" using that r(3) by (auto simp: map_of_None_keys [symmetric])
    with that ih show ?thesis by (simp add: l)
  qed
  ultimately show ?case using ih by (simp add: e)
qed simp

subsection \<open>The messages of an instance\<close>

definition upstream_msg :: "net_names \<Rightarrow> u32 \<Rightarrow> iface list \<Rightarrow> nat \<Rightarrow> proxy_msg" where
  "upstream_msg net prio us j = Config_msg (ADD_UPSTREAM (index_of net (us ! j)) (prio + of_nat (100 * j)) (us ! j))"

lemma upstream_msgs_eq:
  "upstream_msgs net prio us = Inr l \<Longrightarrow> l = map (upstream_msg net prio us) [0..<length us]"
proof (induction us arbitrary: prio l)
  case (Cons u us)
  obtain l' where l: "upstream_msgs net (prio + get_default_priority_interval) us = Inr l'"
    "l = Config_msg (ADD_UPSTREAM (index_of net u) prio u) # l'"
    using Cons.prems by (auto simp: Let_def index_of_def split: if_splits sum.splits)
  have "upstream_msg net (prio + 100) us j = upstream_msg net prio (u # us) (Suc j)" for j
    by (simp add: upstream_msg_def algebra_simps)
  then have "map (upstream_msg net (prio + 100) us) [0..<length us] = map (upstream_msg net prio (u # us)) [1..<length (u # us)]"
    by (simp add: map_Suc_upt [symmetric] comp_def del: upt_Suc)
  moreover have "[0..<length (u # us)] = 0 # [1..<length (u # us)]" by (simp add: upt_conv_Cons del: upt_Suc)
  ultimately show ?case using Cons.IH [OF l(1)] l(2)
    by (simp add: get_default_priority_interval_def upstream_msg_def [of net prio "u # us" 0])
qed simp

lemma downstream_msgs_eq:
  "downstream_msgs net ds = Inr l \<Longrightarrow> l = map (\<lambda>d. Config_msg (ADD_DOWNSTREAM (index_of net d) d new_timers_values)) ds"
  by (induction ds arbitrary: l) (auto simp: Let_def index_of_def split: if_splits sum.splits)

lemma instance_msgs_eq:
  "instance_msgs net inst = Inr msgs \<Longrightarrow>
     msgs = map (\<lambda>r. Config_msg (SET_GLOBAL_RULE_BINDING (Some r))) (global_settings inst)
       @ map (upstream_msg net 0 (upstreams inst)) [0..<length (upstreams inst)]
       @ map (\<lambda>d. Config_msg (ADD_DOWNSTREAM (index_of net d) d new_timers_values)) (downstreams inst)"
  by (auto simp: instance_msgs_def split: sum.splits dest: upstream_msgs_eq downstream_msgs_eq)

subsection \<open>Configuring an instance in any order\<close>

fun is_up_msg :: "proxy_msg \<Rightarrow> bool" where
  "is_up_msg (Config_msg (ADD_UPSTREAM i k f)) = True"
| "is_up_msg m = False"

text \<open>The messages of a start-up: interfaces that are numbered, and upstream interfaces that differ in
  their index and in their priority.\<close>

definition start_msg :: "interfaces \<Rightarrow> proxy_msg \<Rightarrow> bool" where
  "start_msg ifs m \<longleftrightarrow>
     (case m of
        Config_msg (ADD_UPSTREAM i k f) \<Rightarrow> i \<in> registered ifs
      | Config_msg (ADD_DOWNSTREAM i f tv) \<Rightarrow> i \<in> registered ifs
      | Config_msg (SET_GLOBAL_RULE_BINDING rb) \<Rightarrow> True
      | _ \<Rightarrow> False)"

definition start_msgs :: "interfaces \<Rightarrow> proxy_msg list \<Rightarrow> bool" where
  "start_msgs ifs l \<longleftrightarrow> (\<forall>m \<in> set l. start_msg ifs m) \<and> distinct (filter is_up_msg l)
     \<and> (\<forall>i k f i' k' f'. Config_msg (ADD_UPSTREAM i k f) \<in> set l \<longrightarrow> Config_msg (ADD_UPSTREAM i' k' f') \<in> set l \<longrightarrow>
          i = i' \<or> k = k' \<longrightarrow> i = i' \<and> k = k' \<and> f = f')"

lemma start_msgs_perm: "start_msgs ifs l \<Longrightarrow> mset l' = mset l \<Longrightarrow> start_msgs ifs l'"
proof -
  assume a: "start_msgs ifs l" "mset l' = mset l"
  then have "mset (filter is_up_msg l') = mset (filter is_up_msg l)" by simp
  then have "distinct (filter is_up_msg l')" using a(1) by (metis mset_eq_imp_distinct_iff start_msgs_def)
  moreover have "set l' = set l" using a(2) by (rule mset_eq_setD)
  ultimately show ?thesis using a(1) unfolding start_msgs_def by presburger
qed

text \<open>What an instance knows after the messages \<open>l\<close>.\<close>

definition configured :: "interfaces \<Rightarrow> proxy_msg list \<Rightarrow> proxy_instance \<Rightarrow> bool" where
  "configured ifs l p \<longleftrightarrow> p_interfaces p = ifs
     \<and> (\<forall>k u. map_of (p_upstreams p) k = Some u \<longleftrightarrow> Config_msg (ADD_UPSTREAM (ui_if_index u) k (ui_interface u)) \<in> set l)
     \<and> (\<forall>i. is_downstream p i \<longleftrightarrow> (\<exists>f tv. Config_msg (ADD_DOWNSTREAM i f tv) \<in> set l))"

lemma configured_upstream:
  assumes "inst_inv p w" "configured ifs l p" "start_msgs ifs (l @ [Config_msg (ADD_UPSTREAM i k f)])"
  shows "\<not> is_upstream p i \<and> \<not> sm_mem k (p_upstreams p)"
proof -
  let ?m = "Config_msg (ADD_UPSTREAM i k f)"
  have new: "?m \<notin> set l" using assms(3) by (auto simp: start_msgs_def)
  have inj: "a = a' \<or> b = b' \<Longrightarrow> a = a' \<and> b = b' \<and> c = c'"
    if "Config_msg (ADD_UPSTREAM a b c) \<in> set (l @ [?m])" "Config_msg (ADD_UPSTREAM a' b' c') \<in> set (l @ [?m])" for a b c a' b' c'
    using assms(3) that unfolding start_msgs_def by blast
  have no: "\<not> (ui_if_index u = i \<or> k' = k)" if "map_of (p_upstreams p) k' = Some u" for k' u
  proof
    have m: "Config_msg (ADD_UPSTREAM (ui_if_index u) k' (ui_interface u)) \<in> set l"
      using that assms(2) by (simp add: configured_def)
    then have m': "Config_msg (ADD_UPSTREAM (ui_if_index u) k' (ui_interface u)) \<in> set (l @ [?m])" by simp
    assume "ui_if_index u = i \<or> k' = k"
    moreover have "?m \<in> set (l @ [?m])" by simp
    ultimately have "ui_if_index u = i \<and> k' = k \<and> ui_interface u = f" using inj [OF m'] by blast
    with m new show False by metis
  qed
  have "\<not> is_upstream p i"
  proof
    assume "is_upstream p i"
    then obtain k' u where "(k', u) \<in> set (p_upstreams p)" "ui_if_index u = i" by (auto simp: is_upstream_iff)
    with no smap_elem_lookup [OF inst_inv_parts(1) [OF assms(1)]] show False by blast
  qed
  moreover have "k \<notin> sm_keys (p_upstreams p)" using no by (auto simp: sm_keys_dom)
  ultimately show ?thesis by simp
qed

lemma configured_step:
  assumes "inst_inv p w" "configured ifs l p" "start_msgs ifs (l @ [m])" "handle_msg stats shared m p w = (p', w')" "\<not> crashed w'"
  shows "msg_ok p m \<and> configured ifs (l @ [m]) p'"
proof -
  have ifs: "p_interfaces p = ifs" and m: "start_msg ifs m" using assms(2,3) by (simp_all add: configured_def start_msgs_def)
  obtain c where c: "m = Config_msg c" using m by (cases m) (simp_all add: start_msg_def)
  have h: "handle_config c p w = (p', w')" using assms(4) by (simp add: c handle_msg_def)
  show ?thesis
  proof (cases c)
    case (ADD_UPSTREAM i k f)
    have n: "\<not> is_upstream p i" "\<not> sm_mem k (p_upstreams p)"
      using configured_upstream [OF assms(1,2)] assms(3) by (simp_all add: c ADD_UPSTREAM)
    obtain p1 w1 where r: "(if \<not> is_downstream p i then register_interface i p w else (p, w)) = (p1, w1)" by fastforce
    from register_if_new [OF r assms(1)] obtain rr rel where p1: "p1 = p\<lparr>p_routing := rr, p_relevant_if_index := rel\<rparr>" by blast
    have p': "p' = p\<lparr>p_routing := rr, p_relevant_if_index := rel,
        p_upstreams := sm_insert k \<lparr>ui_if_index = i, ui_interface = f\<rparr> (p_upstreams p)\<rparr>"
      using h n r p1 by (auto simp: ADD_UPSTREAM Let_def)
    have "map_of (p_upstreams p') k' = (if k' = k then Some \<lparr>ui_if_index = i, ui_interface = f\<rparr> else map_of (p_upstreams p) k')" for k'
      using n(2) inst_inv_parts(1) [OF assms(1)] by (simp add: p' lookup_insert map_of_None_keys)
    moreover have "Config_msg (ADD_UPSTREAM i' k f') \<notin> set l" for i' f'
    proof -
      have "map_of (p_upstreams p) k = Some \<lparr>ui_if_index = i', ui_interface = f'\<rparr> \<longleftrightarrow> Config_msg (ADD_UPSTREAM i' k f') \<in> set l"
        using assms(2) by (simp add: configured_def)
      with n(2) show ?thesis by (simp add: map_of_None_keys [symmetric])
    qed
    ultimately have "configured ifs (l @ [m]) p'"
      using assms(2) by (auto simp: configured_def p' is_downstream_def c ADD_UPSTREAM)
    moreover have "msg_ok p m" using m n(2) ifs by (simp add: msg_ok_def start_msg_def c ADD_UPSTREAM)
    ultimately show ?thesis by simp
  next
    case (ADD_DOWNSTREAM i f tv)
    have "msg_ok p m" using m ifs by (simp add: msg_ok_def start_msg_def c ADD_DOWNSTREAM)
    moreover have "configured ifs (l @ [m]) p'"
    proof (cases "is_downstream p i")
      case True
      with h assms(2) show ?thesis by (auto simp: ADD_DOWNSTREAM configured_def c)
    next
      case False
      obtain p1 w1 where r: "(if \<not> is_upstream p i then register_interface i p w else (p, w)) = (p1, w1)" by fastforce
      from register_if_new [OF r assms(1)] obtain rr rel where p1: "p1 = p\<lparr>p_routing := rr, p_relevant_if_index := rel\<rparr>" by blast
      obtain q where p': "p' = p\<lparr>p_routing := rr, p_relevant_if_index := rel,
          p_downstreams := sm_insert i \<lparr>di_querier = q, di_interface = f\<rparr> (p_downstreams p)\<rparr>"
        using h False r p1 assms(5) by (auto simp: ADD_DOWNSTREAM Let_def crash_def split: sum.splits prod.splits)
      with assms(2) show ?thesis by (auto simp: configured_def p' is_downstream_iff c ADD_DOWNSTREAM)
    qed
    ultimately show ?thesis by simp
  next
    case (SET_GLOBAL_RULE_BINDING rb)
    with h assms(2) show ?thesis
      by (auto simp: c configured_def set_global_rule_binding_def is_downstream_def msg_ok_def split: option.splits if_splits)
  qed (use m in \<open>auto simp: c start_msg_def\<close>)
qed

lemma start_msgs_prefix: "start_msgs ifs (l @ m # l') \<Longrightarrow> start_msgs ifs (l @ [m])"
  unfolding start_msgs_def by (auto split: if_splits)

lemma run_msgs_configured:
  assumes "instance_run p w" "configured ifs l p" "start_msgs ifs (l @ l')" "run_msgs stats shared l' p w = (p', w')" "\<not> crashed w'"
  shows "instance_run p' w' \<and> configured ifs (l @ l') p'"
  using assms
proof (induction l' arbitrary: l p w)
  case (Cons m l')
  have w: "\<not> crashed w" using Cons.prems(4,5) by (auto split: if_splits)
  obtain p1 w1 where h: "handle_msg stats shared m p w = (p1, w1)" by fastforce
  have r: "run_msgs stats shared l' p1 w1 = (p', w')" using Cons.prems(4) w by (simp add: h)
  then have "\<not> crashed w1" using Cons.prems(5) by (cases l') (auto split: if_splits)
  from configured_step [OF _ Cons.prems(2) start_msgs_prefix [OF Cons.prems(3)] h this]
  have s: "msg_ok p m" "configured ifs (l @ [m]) p1" using instance_run_inv [OF Cons.prems(1)] w by auto
  from Cons.IH [OF inst_msg [OF Cons.prems(1) w s(1) h] s(2) _ r Cons.prems(5)] Cons.prems(3) show ?case by simp
qed simp

subsection \<open>The messages of a configured instance\<close>

lemma registered_card:
  assumes "ifs_ok ifs"
  shows "card (registered ifs) \<le> 32"
proof -
  have "card (snd ` set (m_if_vif ifs)) \<le> card {0..<(32::int)}"
    by (rule card_mono) (use vif_numbers_card [OF assms] in auto)
  with vif_numbers_card [OF assms] show ?thesis by simp
qed

lemma priority_inj: "j < 32 \<Longrightarrow> j' < 32 \<Longrightarrow> (of_nat (100 * j) :: u32) = of_nat (100 * j') \<Longrightarrow> j = j'"
proof -
  assume j: "j < 32" "j' < 32" and e: "(of_nat (100 * j) :: u32) = of_nat (100 * j')"
  have "unat (of_nat (100 * k) :: u32) = 100 * k" if "k < 32" for k
    using that by (simp only: unat_of_nat) (simp add: take_bit_nat_eq_self)
  with j e show ?thesis by (metis mult_cancel1 zero_neq_numeral)
qed

lemma upstream_msg_iff:
  "Config_msg (ADD_UPSTREAM i k f) \<in> set (map (upstream_msg net 0 us) [0..<length us]) \<longleftrightarrow>
     (\<exists>j < length us. i = index_of net (us ! j) \<and> k = of_nat (100 * j) \<and> f = us ! j)"
  by (auto simp: upstream_msg_def)

lemma instance_msgs_start:
  assumes "instance_msgs net inst = Inr msgs" "ifs_ok ifs" "registered ifs = index_of net ` set (downstreams inst @ upstreams inst)"
    and "distinct (map (index_of net) (upstreams inst))"
  shows "start_msgs ifs msgs"
    and "Config_msg (ADD_UPSTREAM i k f) \<in> set msgs \<longleftrightarrow>
      (\<exists>j < length (upstreams inst). i = index_of net (upstreams inst ! j) \<and> k = of_nat (100 * j) \<and> f = upstreams inst ! j)"
    and "Config_msg (ADD_DOWNSTREAM i f tv) \<in> set msgs \<longleftrightarrow> f \<in> set (downstreams inst) \<and> i = index_of net f \<and> tv = new_timers_values"
proof -
  let ?us = "upstreams inst"
  let ?up = "map (upstream_msg net 0 ?us) [0..<length ?us]"
  note eq = instance_msgs_eq [OF assms(1)]
  have up: "Config_msg (ADD_UPSTREAM i k f) \<in> set msgs \<longleftrightarrow>
      (\<exists>j < length ?us. i = index_of net (?us ! j) \<and> k = of_nat (100 * j) \<and> f = ?us ! j)" for i k f
    unfolding eq set_append Un_iff upstream_msg_iff by auto
  show "Config_msg (ADD_DOWNSTREAM i f tv) \<in> set msgs \<longleftrightarrow> f \<in> set (downstreams inst) \<and> i = index_of net f \<and> tv = new_timers_values"
    unfolding eq by (auto simp: upstream_msg_def)
  have sub: "set (map (index_of net) ?us) \<subseteq> registered ifs" using assms(3) by auto
  then have "card (set (map (index_of net) ?us)) \<le> card (registered ifs)" by (intro card_mono) (simp_all add: registered_def)
  then have len: "length ?us \<le> 32"
    using registered_card [OF assms(2)] distinct_card [OF assms(4)] by simp
  have inj: "j = j'" if "j < length ?us" "j' < length ?us" "index_of net (?us ! j) = index_of net (?us ! j')" for j j'
    using nth_eq_iff_index_eq [OF assms(4), of j j'] that by simp
  have "inj_on (upstream_msg net 0 ?us) {0..<length ?us}" using inj by (auto simp: inj_on_def upstream_msg_def)
  then have dist: "distinct ?up" by (simp add: distinct_map)
  have fil: "filter is_up_msg msgs = ?up"
    unfolding eq by (auto simp: upstream_msg_def filter_empty_conv intro!: filter_True)
  have all: "start_msg ifs m" if "m \<in> set msgs" for m
    using that assms(3) unfolding eq by (auto simp: start_msg_def upstream_msg_def)
  have uniq: "i = i' \<and> k = k' \<and> f = f'"
    if a: "Config_msg (ADD_UPSTREAM i k f) \<in> set msgs" and b: "Config_msg (ADD_UPSTREAM i' k' f') \<in> set msgs"
      and d: "i = i' \<or> k = k'" for i k f i' k' f'
  proof -
    obtain j where j: "j < length ?us" "i = index_of net (?us ! j)" "k = of_nat (100 * j)" "f = ?us ! j"
      using a unfolding up by blast
    obtain j' where j': "j' < length ?us" "i' = index_of net (?us ! j')" "k' = of_nat (100 * j')" "f' = ?us ! j'"
      using b unfolding up by blast
    have "j = j'" using d inj [of j j'] priority_inj [of j j'] j j' len by (metis order_less_le_trans)
    with j j' show ?thesis by simp
  qed
  show "start_msgs ifs msgs" unfolding start_msgs_def fil
  proof (intro conjI ballI allI impI)
    show "start_msg ifs m" if "m \<in> set msgs" for m using that by (rule all)
    show "distinct ?up" by (rule dist)
  qed (use uniq in blast)+
  show "Config_msg (ADD_UPSTREAM i k f) \<in> set msgs \<longleftrightarrow>
      (\<exists>j < length ?us. i = index_of net (?us ! j) \<and> k = of_nat (100 * j) \<and> f = ?us ! j)" by (rule up)
qed

subsection \<open>Started instances\<close>

lemma extends_setup_all: "extends w (snd (setup_all l w))"
  by (induction l arbitrary: w) (auto simp: case_prod_unfold Let_def intro: extends_trans [OF extends_sock])

lemma extends_now: "extends w (snd (now w))"
  by (simp add: now_def extends_def)

lemma extends_init_mrt_socket: "extends w (snd (init_mrt_socket gmp table w))"
  by (simp add: init_mrt_socket_def Let_def case_prod_unfold extends_trans [OF extends_sock extends_setup_all] del: setup_all.simps)

lemma extends_new_parts: "extends w (snd (new_sender k w))" "extends w (snd (new_receiver gmp w))"
  by (cases k) (simp_all add: new_receiver_def extends_setup_all del: setup_all.simps)

lemma extends_new_instance: "extends w (snd (new_proxy_instance net gts ga gmp name table ifs wk w))"
proof -
  let ?w1 = "snd (init_mrt_socket gmp table (snd (now w)))"
  let ?w2 = "snd (new_sender (sender_of gmp) ?w1)"
  have "extends w ?w1" by (rule extends_trans [OF extends_now extends_init_mrt_socket])
  moreover from this have "extends w ?w2" by (rule extends_trans [OF _ extends_new_parts(1)])
  moreover from this have "extends w (snd (new_receiver gmp ?w2))" by (rule extends_trans [OF _ extends_new_parts(2)])
  ultimately show ?thesis by (simp add: new_proxy_instance_def Let_def case_prod_unfold split: option.split)
qed

lemma new_instance_configured:
  "new_proxy_instance net gts ga gmp name table ifs wk w = (Inr p, w') \<Longrightarrow> configured ifs [] p"
  by (auto simp: new_proxy_instance_def Let_def configured_def is_downstream_def split: prod.splits if_splits option.splits)

definition started_from ::
  "net_names \<Rightarrow> configuration \<Rightarrow> instance_definition \<Rightarrow> proxy_instance \<Rightarrow> proxy_msg list \<Rightarrow> world \<Rightarrow> bool" where
  "started_from net c inst p msgs w \<longleftrightarrow>
     (\<exists>ifs gts ga gmp name table wk w0 w1. get_interfaces_for_pinstance c (instance_name inst) = Some ifs
        \<and> new_proxy_instance net gts ga gmp name table ifs wk w0 = (Inr p, w1) \<and> extends w1 w
        \<and> instance_msgs net inst = Inr msgs)"

lemma start_proxy_instances_extends:
  "extends w (snd (start_proxy_instances net ga' c n ids table m w))"
proof (induction ids arbitrary: table m w)
  case (Cons e ids)
  obtain name inst where e: "e = (name, inst)" by (cases e)
  show ?case
  proof (cases "get_interfaces_for_pinstance c (instance_name inst)")
    case (Some ifs)
    let ?t = "next_table_number n inst table"
    obtain x w1 where x: "new_proxy_instance net (cfg_tables (c_config c)) (ga' (instance_name inst)) (cfg_gmp (c_config c))
      (instance_name inst) ?t ifs (length ids) w = (x, w1)" by fastforce
    have w1: "extends w w1" using extends_new_instance [of w net] x by (metis snd_conv)
    show ?thesis
    proof (cases x)
      case (Inl a)
      with w1 show ?thesis by (simp add: e Some x Let_def)
    next
      case (Inr p)
      with w1 Cons.IH show ?thesis by (auto simp: e Some x Let_def split: sum.split intro: extends_trans)
    qed
  qed (simp add: e Let_def)
qed simp

lemma started:
  assumes "start_proxy_instances net ga' c n ids table m w = (Inr m', w')" "\<not> crashed w'" "(t, p, msgs) \<in> set m'"
  shows "(t, p, msgs) \<in> set m \<or> (\<exists>e \<in> set ids. started_from net c (snd e) p msgs w')"
  using assms
proof (induction ids arbitrary: table m w)
  case (Cons e ids)
  obtain name inst where e: "e = (name, inst)" by (cases e)
  let ?t = "next_table_number n inst table"
  obtain ifs where ifs: "get_interfaces_for_pinstance c (instance_name inst) = Some ifs"
    using Cons.prems(1,2) by (auto simp: e crash_def Let_def split: option.splits)
  let ?new = "new_proxy_instance net (cfg_tables (c_config c)) (ga' (instance_name inst)) (cfg_gmp (c_config c))
      (instance_name inst) ?t ifs (length ids) w"
  obtain pi w1 l where n: "?new = (Inr pi, w1)" "instance_msgs net inst = Inr l"
    "start_proxy_instances net ga' c n ids ?t (sm_insert ?t (pi, l) m) w1 = (Inr m', w')"
    using Cons.prems(1) by (auto simp: e ifs Let_def split: sum.splits prod.splits)
  have ext: "extends w1 w'"
    using start_proxy_instances_extends [of w1 net ga' c n ids ?t "sm_insert ?t (pi, l) m"] by (simp add: n(3))
  from Cons.IH [OF n(3) Cons.prems(2,3)] show ?case
  proof
    assume "(t, p, msgs) \<in> set (sm_insert ?t (pi, l) m)"
    then have "(t, p, msgs) \<in> set m \<or> p = pi \<and> msgs = l" by (auto dest: sm_insert_set)
    then show ?thesis using n(1,2) ext ifs unfolding started_from_def e by auto
  qed auto
qed simp

lemma started_configured:
  assumes "started_from net c inst p msgs w" "numbered net (m_interfaces_map c) inst" "distinct (map (index_of net) (upstreams inst))"
    and "mset msgs' = mset msgs" "extends w w1" "run_msgs stats shared msgs' p w1 = (p', w')" "\<not> crashed w'"
  shows "instance_run p' w' \<and> {i. is_downstream p' i} = index_of net ` set (downstreams inst)
    \<and> {i. is_upstream p' i} = index_of net ` set (upstreams inst)
    \<and> (\<forall>j < length (upstreams inst). map_of (p_upstreams p') (of_nat (100 * j)) =
         Some \<lparr>ui_if_index = index_of net (upstreams inst ! j), ui_interface = upstreams inst ! j\<rparr>)"
proof -
  let ?us = "upstreams inst"
  obtain ifs gts ga gmp name table wk w0 w2 where p: "get_interfaces_for_pinstance c (instance_name inst) = Some ifs"
    "new_proxy_instance net gts ga gmp name table ifs wk w0 = (Inr p, w2)" "extends w2 w" "instance_msgs net inst = Inr msgs"
    using assms(1) unfolding started_from_def by blast
  have ifs: "ifs_ok ifs" "registered ifs = index_of net ` set (downstreams inst @ ?us)"
    using assms(2) p(1) by (auto simp: numbered_def get_interfaces_for_pinstance_def)
  note msgs = instance_msgs_start [OF p(4) ifs assms(3)]
  have set: "set msgs' = set msgs" using assms(4) by (rule mset_eq_setD)
  have "instance_run p w1"
    using inst_other [OF inst_other [OF inst_start [OF ifs(1) p(2)] p(3)] assms(5)] .
  from run_msgs_configured [OF this new_instance_configured [OF p(2)] _ assms(6,7)] start_msgs_perm [OF msgs(1) assms(4)]
  have r: "instance_run p' w'" "configured ifs msgs' p'" by simp_all
  then have inv: "inst_inv p' w'" using instance_run_inv assms(7) by blast
  have up: "map_of (p_upstreams p') k = Some u \<longleftrightarrow>
      (\<exists>j < length ?us. ui_if_index u = index_of net (?us ! j) \<and> k = of_nat (100 * j) \<and> ui_interface u = ?us ! j)" for k u
    using r(2) unfolding configured_def set msgs(2) by blast
  have "is_downstream p' i \<longleftrightarrow> i \<in> index_of net ` set (downstreams inst)" for i
    using r(2) unfolding configured_def set msgs(3) by auto
  moreover have "is_upstream p' i \<longleftrightarrow> i \<in> index_of net ` set ?us" for i
  proof -
    have "is_upstream p' i \<longleftrightarrow> (\<exists>k u. map_of (p_upstreams p') k = Some u \<and> ui_if_index u = i)"
      using smap_elem_lookup [OF inst_inv_parts(1) [OF inv]] by (force simp: is_upstream_iff)
    also have "\<dots> \<longleftrightarrow> (\<exists>j < length ?us. i = index_of net (?us ! j))"
      unfolding up by (metis upstream_infos.select_convs)
    finally show ?thesis by (metis image_iff in_set_conv_nth)
  qed
  moreover have "map_of (p_upstreams p') (of_nat (100 * j)) = Some \<lparr>ui_if_index = index_of net (?us ! j), ui_interface = ?us ! j\<rparr>"
    if "j < length ?us" for j unfolding up using that by auto
  ultimately show ?thesis using r(1) by blast
qed

subsection \<open>Properties\<close>


definition ex_net :: net_names where
  "ex_net = \<lparr>if_nametoindex = (\<lambda>n. if n = ''b'' then 2 else if n = ''a'' then 3 else 0),
     if_indextoname = (\<lambda>i. if i = 2 then Some ''b'' else if i = 3 then Some ''a'' else None)\<rparr>"

definition ex_addrs :: "ifaddrs list" where
  "ex_addrs = [ex_ifaddrs\<lparr>ifa_name := ''b''\<rparr>, ex_ifaddrs\<lparr>ifa_name := ''a''\<rparr>]"

definition ex_conf :: configuration where
  "ex_conf = (case initalize_interfaces ex_net (\<lambda>n. Some ex_addrs) IGMPv3 (cfg_instances ex_cfg) [] of
     Inr m \<Rightarrow> \<lparr>c_config = ex_cfg, m_interfaces_map = m\<rparr> | Inl e \<Rightarrow> undefined)"

definition ex_up :: "(start_error + proxy_instances) \<times> world" where
  "ex_up = start_proxy_instances ex_net (\<lambda>n. Some ex_addrs) ex_conf 1 (cfg_instances ex_cfg) 0 [] example_world"

lemma ex_up_eq: "start_up ex_pton ex_net (\<lambda>n. Some ex_addrs) (\<lambda>n. Some ex_addrs) ex_content example_world = ex_up"
proof -
  have "\<not> isl (initalize_interfaces ex_net (\<lambda>n. Some ex_addrs) IGMPv3 (cfg_instances ex_cfg) [])" by code_simp
  then obtain m where m: "initalize_interfaces ex_net (\<lambda>n. Some ex_addrs) IGMPv3 (cfg_instances ex_cfg) [] = Inr m"
    by (auto simp: isl_def split: sum.splits) (metis sum.exhaust)
  have "cfg_gmp ex_cfg = IGMPv3" "length (cfg_instances ex_cfg) = 1" by (simp_all add: ex_cfg_def)
  with m show ?thesis by (simp add: start_up_def new_configuration_def ex_read ex_up_def ex_conf_def)
qed

definition ex_first :: "int \<times> proxy_instance \<times> proxy_msg list" where
  "ex_first = (case fst ex_up of Inr insts \<Rightarrow> hd insts | Inl e \<Rightarrow> undefined)"

definition ex_done :: "proxy_instance \<times> world" where
  "ex_done = run_msgs (\<lambda>s g. None) False (rev (snd (snd ex_first))) (fst (snd ex_first)) (snd ex_up)"


end
