(* ===== verification/Decimal.thy ===== *)
theory Decimal
  imports Main
begin

section \<open>Decimal numbers\<close>

text \<open>How the streams of the C++ library print integers, shared by the printing of configurations and the shell commands of
  the sockets.\<close>

fun decimal :: "nat \<Rightarrow> string" where
  "decimal n = (if n < 10 then [char_of (48 + n)] else decimal (n div 10) @ [char_of (48 + n mod 10)])"

declare decimal.simps [simp del]

definition decimal_int :: "int \<Rightarrow> string" where
  "decimal_int n = (if n < 0 then ''-'' else []) @ decimal (nat \<bar>n\<bar>)"

lemma decimal_not_empty: "decimal n \<noteq> []"
  by (subst decimal.simps) simp

lemma decimal_digits: "c \<in> set (decimal n) \<Longrightarrow> 48 \<le> (of_char c :: nat) \<and> (of_char c :: nat) \<le> 57"
proof (induction n rule: decimal.induct)
  case (1 n)
  from 1(2) show ?case
    by (subst (asm) decimal.simps) (auto simp: of_char_of split: if_splits dest: 1(1))
qed

lemma decimal_value: "foldl (\<lambda>a c. 10 * a + (int (of_char c) - 48)) 0 (decimal n) = int n"
proof (induction n rule: decimal.induct)
  case (1 n)
  show ?case
  proof (cases "n < 10")
    case True
    then show ?thesis by (subst decimal.simps) (simp add: of_char_of)
  next
    case False
    have "10 * int (n div 10) + int (n mod 10) = int n" by presburger
    with 1 False show ?thesis by (subst decimal.simps) (simp add: of_char_of)
  qed
qed

end
