(* ===== verification/Sockets.thy ===== *)
theory Sockets
  imports Interfaces Decimal "HOL-Library.Signed_Division"
begin

section \<open>Sockets (mc_socket.cpp, mroute_socket.cpp)\<close>

text \<open>
  The classes \<^verbatim>\<open>mc_socket\<close> and \<^verbatim>\<open>mroute_socket\<close> as programs that issue system calls.  The operating system is a
  parameter: \<open>k_result\<close> gives the result of the n-th call, \<open>k_again\<close> whether its error is EAGAIN or EWOULDBLOCK, and
  \<open>k_sources\<close> what \<^verbatim>\<open>getsourcefilter\<close> writes; \<open>k_log\<close> is the sequence of the calls.  Options are named as in the
  source; their values are the structures the code fills in.  The address family -1 of an unused socket is
  \<open>AF_UNSPEC\<close>.  A write outside of an array makes the result \<open>None\<close>.
\<close>

subsection \<open>System calls\<close>

datatype sock_type = SOCK_DGRAM | SOCK_RAW

datatype level = IPPROTO_IP | IPPROTO_IPV6 | IPPROTO_IGMP | IPPROTO_ICMPV6 | SOL_SOCKET | NO_LEVEL

datatype optname =
  IP_MULTICAST_ALL | SO_REUSEADDR | IP_MULTICAST_LOOP | IPV6_MULTICAST_LOOP | SO_RCVTIMEO | IP_MULTICAST_IF
| IPV6_MULTICAST_IF | IP_MULTICAST_TTL | IPV6_MULTICAST_HOPS | MCAST_JOIN_GROUP | MCAST_LEAVE_GROUP | MCAST_BLOCK_SOURCE
| MCAST_UNBLOCK_SOURCE | MCAST_JOIN_SOURCE_GROUP | MCAST_LEAVE_SOURCE_GROUP | IP_HDRINCL | IPV6_HOPOPTS | IP_ROUTER_ALERT
| ICMP6_FILTER | IPV6_RECVPKTINFO | IPV6_RECVHOPOPTS | MRT_TABLE | MRT6_TABLE | MRT_INIT | MRT6_INIT | MRT_DONE | MRT6_DONE
| MRT_ADD_VIF | MRT6_ADD_MIF | MRT_DEL_VIF | MRT6_DEL_MIF | MRT_ADD_MFC | MRT6_ADD_MFC | MRT_DEL_MFC | MRT6_DEL_MFC

text \<open>The structures; \<^verbatim>\<open>vifi_t\<close> and \<^verbatim>\<open>mifi_t\<close> have 16 bits, as has the interface index of \<^verbatim>\<open>mif6ctl\<close>.  The set of
  output interfaces of an IPv6 route is a bit vector.\<close>

record vifctl =
  vifc_vifi :: u16
  vifc_flags :: u8
  vifc_threshold :: u8
  vifc_rate_limit :: u32
  vifc_lcl_ifindex :: u32
  vifc_rmt_addr :: addr_storage

record mif6ctl =
  mif6c_mifi :: u16
  mif6c_flags :: u8
  mif6c_threshold :: u8
  mif6c_rate_limit :: u32
  mif6c_pifi :: u16

record mfcctl =
  mfcc_origin :: addr_storage
  mfcc_mcastgrp :: addr_storage
  mfcc_parent :: u16
  mfcc_ttls :: "u8 list"

record mf6cctl =
  mf6cc_origin :: addr_storage
  mf6cc_mcastgrp :: addr_storage
  mf6cc_parent :: u16
  mf6cc_ifset :: "bool list"

datatype optval =
  Int_val int
| Addr_val addr_storage
| Group_req addr_storage u32
| Group_source_req addr_storage addr_storage u32
| Timeval int int
| Bytes_val "u8 list"
| Filter_val "nat list"
| Vif_val vifctl
| Mif_val mif6ctl
| Mfc_val mfcctl
| Mf6c_val mf6cctl
| Null_val

datatype syscall =
  Sys_socket addr_family sock_type level
| Sys_close int
| Sys_bind int addr_family addr_storage u16
| Sys_setsockopt int level optname optval
| Sys_sendto int "u8 list" addr_storage u16
| Sys_recv int int
| Sys_recvmsg int
| Sys_get_if_addr int string
| Sys_get_vif_stats int u16
| Sys_get_sg_stats int addr_storage addr_storage
| Sys_setsourcefilter int u32 addr_storage u32 "addr_storage list"
| Sys_getsourcefilter int u32 addr_storage u32
| Sys_system string

record kernel =
  k_result :: "nat \<Rightarrow> int"
  k_again :: "nat \<Rightarrow> bool"
  k_sources :: "nat \<Rightarrow> u32 \<times> u32 \<times> (nat \<Rightarrow> addr_storage)"   \<comment> \<open>filter mode, number of sources, sources\<close>
  k_if_addr :: "nat \<Rightarrow> addr_storage"
  k_log :: "syscall list"

definition sys :: "syscall \<Rightarrow> kernel \<Rightarrow> int \<times> kernel" where
  "sys c k = (k_result k (length (k_log k)), k\<lparr>k_log := k_log k @ [c]\<rparr>)"

definition sys_ok :: "syscall \<Rightarrow> kernel \<Rightarrow> bool \<times> kernel" where
  "sys_ok c k = (let (rc, k) = sys c k in (rc \<noteq> - 1, k))"

text \<open>The calls whose result is tested with \<^verbatim>\<open>< 0\<close>.\<close>

definition sys_nonneg :: "syscall \<Rightarrow> kernel \<Rightarrow> bool \<times> kernel" where
  "sys_nonneg c k = (let (rc, k) = sys c k in (\<not> rc < 0, k))"

subsection \<open>mc_socket\<close>

record mc_socket =
  m_sock :: int
  m_addrFamily :: addr_family
  m_own_socket :: bool

definition new_mc_socket :: mc_socket where
  "new_mc_socket = \<lparr>m_sock = 0, m_addrFamily = AF_UNSPEC, m_own_socket = True\<rparr>"

definition is_udp_valid :: "mc_socket \<Rightarrow> bool" where
  "is_udp_valid s \<longleftrightarrow> m_sock s > 0"

definition close_socket :: "mc_socket \<Rightarrow> kernel \<Rightarrow> kernel" where
  "close_socket s k = (if is_udp_valid s \<and> m_own_socket s then snd (sys (Sys_close (m_sock s)) k) else k)"

text \<open>The four functions that create a socket differ in family, type and protocol only.\<close>

definition create_socket :: "addr_family \<Rightarrow> sock_type \<Rightarrow> level \<Rightarrow> mc_socket \<Rightarrow> kernel \<Rightarrow> bool \<times> mc_socket \<times> kernel" where
  "create_socket af ty proto s k =
     (let k = (if is_udp_valid s then close_socket s k else k);
          (fd, k) = sys (Sys_socket af ty proto) k;
          s = s\<lparr>m_sock := fd\<rparr>
      in if fd < 0 then (False, s, k) else (True, s\<lparr>m_addrFamily := af, m_own_socket := True\<rparr>, k))"

definition create_udp_ipv4_socket :: "mc_socket \<Rightarrow> kernel \<Rightarrow> bool \<times> mc_socket \<times> kernel" where
  "create_udp_ipv4_socket = create_socket AF_INET SOCK_DGRAM IPPROTO_IP"

definition create_udp_ipv6_socket :: "mc_socket \<Rightarrow> kernel \<Rightarrow> bool \<times> mc_socket \<times> kernel" where
  "create_udp_ipv6_socket = create_socket AF_INET6 SOCK_DGRAM IPPROTO_IP"

definition create_raw_ipv4_socket :: "mc_socket \<Rightarrow> kernel \<Rightarrow> bool \<times> mc_socket \<times> kernel" where
  "create_raw_ipv4_socket = create_socket AF_INET SOCK_RAW IPPROTO_IGMP"

definition create_raw_ipv6_socket :: "mc_socket \<Rightarrow> kernel \<Rightarrow> bool \<times> mc_socket \<times> kernel" where
  "create_raw_ipv6_socket = create_socket AF_INET6 SOCK_RAW IPPROTO_ICMPV6"

definition set_own_socket :: "int \<Rightarrow> addr_family \<Rightarrow> mc_socket \<Rightarrow> kernel \<Rightarrow> bool \<times> mc_socket \<times> kernel" where
  "set_own_socket sck af s k =
     (let k = (if is_udp_valid s then close_socket s k else k)
      in if sck < 0 then (False, s, k)
         else if af = AF_INET \<or> af = AF_INET6
              then (True, s\<lparr>m_sock := sck, m_addrFamily := af, m_own_socket := False\<rparr>, k)
              else (False, s, k))"

definition family_to_level :: "addr_family \<Rightarrow> level" where
  "family_to_level af = (case af of AF_INET \<Rightarrow> IPPROTO_IP | AF_INET6 \<Rightarrow> IPPROTO_IPV6 | _ \<Rightarrow> NO_LEVEL)"

text \<open>Every operation first looks at the descriptor.\<close>

definition when_valid :: "mc_socket \<Rightarrow> (kernel \<Rightarrow> bool \<times> kernel) \<Rightarrow> kernel \<Rightarrow> bool \<times> kernel" where
  "when_valid s f k = (if \<not> is_udp_valid s then (False, k) else f k)"

text \<open>The branches over the address family.\<close>

definition by_family :: "mc_socket \<Rightarrow> (kernel \<Rightarrow> bool \<times> kernel) \<Rightarrow> (kernel \<Rightarrow> bool \<times> kernel) \<Rightarrow> kernel \<Rightarrow> bool \<times> kernel" where
  "by_family s v4 v6 k = (case m_addrFamily s of AF_INET \<Rightarrow> v4 k | AF_INET6 \<Rightarrow> v6 k | _ \<Rightarrow> (False, k))"

definition bind_udp_socket :: "addr_storage \<Rightarrow> u16 \<Rightarrow> mc_socket \<Rightarrow> kernel \<Rightarrow> bool \<times> kernel" where
  "bind_udp_socket addr port s =
     when_valid s (by_family s (sys_ok (Sys_bind (m_sock s) AF_INET addr port)) (sys_ok (Sys_bind (m_sock s) AF_INET6 addr port)))"

definition setsockopt :: "mc_socket \<Rightarrow> level \<Rightarrow> optname \<Rightarrow> optval \<Rightarrow> kernel \<Rightarrow> bool \<times> kernel" where
  "setsockopt s l opt v = sys_ok (Sys_setsockopt (m_sock s) l opt v)"

definition set_multicast_all :: "bool \<Rightarrow> mc_socket \<Rightarrow> kernel \<Rightarrow> bool \<times> kernel" where
  "set_multicast_all enable s =
     when_valid s (by_family s (setsockopt s IPPROTO_IP IP_MULTICAST_ALL (Int_val (of_bool enable))) (\<lambda>k. (True, k)))"

definition set_reuse_port :: "bool \<Rightarrow> mc_socket \<Rightarrow> kernel \<Rightarrow> bool \<times> kernel" where
  "set_reuse_port enable s = when_valid s (setsockopt s SOL_SOCKET SO_REUSEADDR (Int_val (of_bool enable)))"

definition set_loop_back :: "bool \<Rightarrow> mc_socket \<Rightarrow> kernel \<Rightarrow> bool \<times> kernel" where
  "set_loop_back enable s =
     when_valid s (by_family s (setsockopt s IPPROTO_IP IP_MULTICAST_LOOP (Int_val (of_bool enable)))
                               (setsockopt s IPPROTO_IPV6 IPV6_MULTICAST_LOOP (Int_val (of_bool enable))))"

text \<open>The address of \<^verbatim>\<open>send_packet\<close> carries a port, an argument of its own here.\<close>

definition send_packet :: "addr_storage \<Rightarrow> u16 \<Rightarrow> u8 list \<Rightarrow> mc_socket \<Rightarrow> kernel \<Rightarrow> bool \<times> kernel" where
  "send_packet addr port data s = when_valid s (sys_ok (Sys_sendto (m_sock s) data addr port))"

text \<open>\<^verbatim>\<open>receive_packet\<close> and \<^verbatim>\<open>receive_msg\<close>: the result and the size; a timeout is a success of size 0.\<close>

definition receive :: "syscall \<Rightarrow> kernel \<Rightarrow> (bool \<times> int) \<times> kernel" where
  "receive c k =
     (let again = k_again k (length (k_log k)); (rc, k) = sys c k
      in if rc = - 1 then (if again then ((True, 0), k) else ((False, rc), k)) else ((True, rc), k))"

definition receive_packet :: "int \<Rightarrow> mc_socket \<Rightarrow> int \<Rightarrow> kernel \<Rightarrow> (bool \<times> int) \<times> kernel" where
  "receive_packet sizeOfBuf s sizeOfInfo k =
     (if \<not> is_udp_valid s then ((False, sizeOfInfo), k) else receive (Sys_recv (m_sock s) sizeOfBuf) k)"

definition receive_msg :: "mc_socket \<Rightarrow> int \<Rightarrow> kernel \<Rightarrow> (bool \<times> int) \<times> kernel" where
  "receive_msg s sizeOfInfo k =
     (if \<not> is_udp_valid s then ((False, sizeOfInfo), k) else receive (Sys_recvmsg (m_sock s)) k)"

text \<open>Division and remainder of C++ truncate towards zero.\<close>

definition set_receive_timeout :: "int \<Rightarrow> mc_socket \<Rightarrow> kernel \<Rightarrow> bool \<times> kernel" where
  "set_receive_timeout msec s =
     when_valid s (setsockopt s SOL_SOCKET SO_RCVTIMEO (Timeval (msec sdiv 1000) (1000 * (msec smod 1000))))"

definition choose_if :: "net_names \<Rightarrow> u32 \<Rightarrow> mc_socket \<Rightarrow> kernel \<Rightarrow> bool \<times> kernel" where
  "choose_if net if_index s =
     when_valid s (by_family s
       (\<lambda>k. if if_index > 0 then
              (case if_indextoname net if_index of
                 None \<Rightarrow> (False, k)
               | Some n \<Rightarrow>
                   (let inaddr = k_if_addr k (length (k_log k)); (rc, k) = sys_nonneg (Sys_get_if_addr (m_sock s) n) k
                    in if \<not> rc then (False, k) else setsockopt s IPPROTO_IP IP_MULTICAST_IF (Addr_val inaddr) k))
            else setsockopt s IPPROTO_IP IP_MULTICAST_IF (Addr_val (Addr4 0)) k)
       (setsockopt s IPPROTO_IPV6 IPV6_MULTICAST_IF (Int_val (uint if_index))))"

definition set_ttl :: "int \<Rightarrow> mc_socket \<Rightarrow> kernel \<Rightarrow> bool \<times> kernel" where
  "set_ttl ttl s =
     when_valid s (by_family s (setsockopt s IPPROTO_IP IP_MULTICAST_TTL (Int_val ttl))
                               (setsockopt s IPPROTO_IPV6 IPV6_MULTICAST_HOPS (Int_val ttl)))"

definition generic_group_sockopt :: "optname \<Rightarrow> addr_storage \<Rightarrow> u32 \<Rightarrow> mc_socket \<Rightarrow> kernel \<Rightarrow> bool \<times> kernel" where
  "generic_group_sockopt opt gaddr if_index s =
     when_valid s (setsockopt s (family_to_level (get_addr_family gaddr)) opt (Group_req gaddr if_index))"

definition generic_source_sockopt :: "optname \<Rightarrow> addr_storage \<Rightarrow> addr_storage \<Rightarrow> u32 \<Rightarrow> mc_socket \<Rightarrow> kernel \<Rightarrow> bool \<times> kernel" where
  "generic_source_sockopt opt gaddr saddr if_index s =
     when_valid s (setsockopt s (family_to_level (get_addr_family gaddr)) opt (Group_source_req gaddr saddr if_index))"

definition join_group :: "addr_storage \<Rightarrow> u32 \<Rightarrow> mc_socket \<Rightarrow> kernel \<Rightarrow> bool \<times> kernel" where
  "join_group = generic_group_sockopt MCAST_JOIN_GROUP"

definition leave_group :: "addr_storage \<Rightarrow> u32 \<Rightarrow> mc_socket \<Rightarrow> kernel \<Rightarrow> bool \<times> kernel" where
  "leave_group = generic_group_sockopt MCAST_LEAVE_GROUP"

definition block_source :: "addr_storage \<Rightarrow> addr_storage \<Rightarrow> u32 \<Rightarrow> mc_socket \<Rightarrow> kernel \<Rightarrow> bool \<times> kernel" where
  "block_source = generic_source_sockopt MCAST_BLOCK_SOURCE"

definition unblock_source :: "addr_storage \<Rightarrow> addr_storage \<Rightarrow> u32 \<Rightarrow> mc_socket \<Rightarrow> kernel \<Rightarrow> bool \<times> kernel" where
  "unblock_source = generic_source_sockopt MCAST_UNBLOCK_SOURCE"

definition join_source_group :: "addr_storage \<Rightarrow> addr_storage \<Rightarrow> u32 \<Rightarrow> mc_socket \<Rightarrow> kernel \<Rightarrow> bool \<times> kernel" where
  "join_source_group = generic_source_sockopt MCAST_JOIN_SOURCE_GROUP"

definition leave_source_group :: "addr_storage \<Rightarrow> addr_storage \<Rightarrow> u32 \<Rightarrow> mc_socket \<Rightarrow> kernel \<Rightarrow> bool \<times> kernel" where
  "leave_source_group = generic_source_sockopt MCAST_LEAVE_SOURCE_GROUP"

definition set_source_filter ::
  "u32 \<Rightarrow> addr_storage \<Rightarrow> u32 \<Rightarrow> addr_storage list \<Rightarrow> mc_socket \<Rightarrow> kernel \<Rightarrow> bool \<times> kernel" where
  "set_source_filter if_index gaddr filter_mode src_list s =
     when_valid s (sys_ok (Sys_setsourcefilter (m_sock s) if_index gaddr filter_mode src_list))"

text \<open>\<^verbatim>\<open>get_source_filter\<close> asks for the number of sources, then for the sources; its result holds the filter mode and
  the list with the new sources.\<close>

definition get_source_filter ::
  "u32 \<Rightarrow> addr_storage \<Rightarrow> mc_socket \<Rightarrow> u32 \<Rightarrow> addr_storage list \<Rightarrow> kernel \<Rightarrow> (bool \<times> u32 \<times> addr_storage list) \<times> kernel" where
  "get_source_filter if_index gaddr s filter_mode src_list k =
     (if \<not> is_udp_valid s then ((False, filter_mode, src_list), k)
      else
        (let (mode, old_numsrc, slist) = k_sources k (length (k_log k));
             (rc, k) = sys_ok (Sys_getsourcefilter (m_sock s) if_index gaddr 0) k
         in if \<not> rc then ((False, filter_mode, src_list), k)
            else if old_numsrc = 0 then ((True, mode, src_list), k)
            else
              (let (mode', new_numsrc, slist) = k_sources k (length (k_log k));
                   (rc, k) = sys_ok (Sys_getsourcefilter (m_sock s) if_index gaddr old_numsrc) k
               in if \<not> rc then ((False, mode, src_list), k)
                  else ((True, mode', src_list @ map slist [0..<min (unat old_numsrc) (unat new_numsrc)]), k))))"

subsection \<open>mroute_socket\<close>

definition MROUTE_RATE_LIMIT_ENDLESS :: u32 where
  "MROUTE_RATE_LIMIT_ENDLESS = 0"
definition MROUTE_TTL_THRESHOLD :: u8 where
  "MROUTE_TTL_THRESHOLD = 1"
definition MROUTE_DEFAULT_TTL :: u8 where
  "MROUTE_DEFAULT_TTL = 1"
definition VIFF_USE_IFINDEX :: u8 where
  "VIFF_USE_IFINDEX = 8"

definition setsockopt_nonneg :: "mc_socket \<Rightarrow> level \<Rightarrow> optname \<Rightarrow> optval \<Rightarrow> kernel \<Rightarrow> bool \<times> kernel" where
  "setsockopt_nonneg s l opt v = sys_nonneg (Sys_setsockopt (m_sock s) l opt v)"

definition set_kernel_table :: "int \<Rightarrow> mc_socket \<Rightarrow> kernel \<Rightarrow> bool \<times> kernel" where
  "set_kernel_table table s =
     when_valid s (by_family s (setsockopt_nonneg s IPPROTO_IP MRT_TABLE (Int_val table))
                               (setsockopt_nonneg s IPPROTO_IPV6 MRT6_TABLE (Int_val table)))"

definition set_no_ip_hdr :: "bool \<Rightarrow> mc_socket \<Rightarrow> kernel \<Rightarrow> bool \<times> kernel" where
  "set_no_ip_hdr enable s =
     when_valid s (by_family s (setsockopt_nonneg s IPPROTO_IP IP_HDRINCL (Int_val (of_bool enable)))
                               (setsockopt_nonneg s IPPROTO_IPV6 IP_HDRINCL (Int_val (of_bool enable))))"

text \<open>The operations for IPv6 only.\<close>

definition only_ipv6 :: "mc_socket \<Rightarrow> (kernel \<Rightarrow> bool \<times> kernel) \<Rightarrow> kernel \<Rightarrow> bool \<times> kernel" where
  "only_ipv6 s v6 = when_valid s (by_family s (\<lambda>k. (False, k)) v6)"

definition set_ipv6_auto_icmp6_checksum_calc :: "bool \<Rightarrow> mc_socket \<Rightarrow> kernel \<Rightarrow> bool \<times> kernel" where
  "set_ipv6_auto_icmp6_checksum_calc enable s =
     only_ipv6 s (setsockopt_nonneg s IPPROTO_IPV6 IP_HDRINCL (Int_val (if enable then 2 else - 1)))"

definition add_ipv6_extension_header :: "u8 list \<Rightarrow> mc_socket \<Rightarrow> kernel \<Rightarrow> bool \<times> kernel" where
  "add_ipv6_extension_header buf s = only_ipv6 s (setsockopt s IPPROTO_IPV6 IPV6_HOPOPTS (Bytes_val buf))"

definition set_ipv4_receive_packets_with_router_alert_header :: "bool \<Rightarrow> mc_socket \<Rightarrow> kernel \<Rightarrow> bool \<times> kernel" where
  "set_ipv4_receive_packets_with_router_alert_header enable s =
     when_valid s (by_family s (setsockopt s IPPROTO_IP IP_ROUTER_ALERT (Int_val (of_bool enable))) (\<lambda>k. (False, k)))"

text \<open>The filter lets reports, reductions and version 2 reports pass.\<close>

definition set_ipv6_recv_icmpv6_msg :: "mc_socket \<Rightarrow> kernel \<Rightarrow> bool \<times> kernel" where
  "set_ipv6_recv_icmpv6_msg s = only_ipv6 s (setsockopt_nonneg s IPPROTO_ICMPV6 ICMP6_FILTER (Filter_val [131, 132, 143]))"

definition set_ipv6_recv_pkt_info :: "mc_socket \<Rightarrow> kernel \<Rightarrow> bool \<times> kernel" where
  "set_ipv6_recv_pkt_info s = only_ipv6 s (setsockopt_nonneg s IPPROTO_IPV6 IPV6_RECVPKTINFO (Int_val 1))"

definition set_ipv6_recv_hop_by_hop_msg :: "mc_socket \<Rightarrow> kernel \<Rightarrow> bool \<times> kernel" where
  "set_ipv6_recv_hop_by_hop_msg s = only_ipv6 s (setsockopt_nonneg s IPPROTO_IPV6 IPV6_RECVHOPOPTS (Int_val 1))"

definition set_mrt_flag :: "bool \<Rightarrow> mc_socket \<Rightarrow> kernel \<Rightarrow> bool \<times> kernel" where
  "set_mrt_flag enable s =
     when_valid s
       (if enable then by_family s (setsockopt s IPPROTO_IP MRT_INIT (Int_val 1)) (setsockopt s IPPROTO_IPV6 MRT6_INIT (Int_val 1))
        else by_family s (setsockopt s IPPROTO_IP MRT_DONE Null_val) (setsockopt s IPPROTO_IPV6 MRT6_DONE Null_val))"

definition socket_add_vif :: "int \<Rightarrow> u32 \<Rightarrow> addr_storage \<Rightarrow> mc_socket \<Rightarrow> kernel \<Rightarrow> bool \<times> kernel" where
  "socket_add_vif vifNum if_index ip_tunnel_remote_addr s =
     when_valid s (by_family s
       (setsockopt s IPPROTO_IP MRT_ADD_VIF
          (Vif_val \<lparr>vifc_vifi = word_of_int vifNum, vifc_flags = VIFF_USE_IFINDEX, vifc_threshold = MROUTE_TTL_THRESHOLD,
             vifc_rate_limit = MROUTE_RATE_LIMIT_ENDLESS, vifc_lcl_ifindex = if_index,
             vifc_rmt_addr = (if is_valid ip_tunnel_remote_addr then ip_tunnel_remote_addr else Addr4 0)\<rparr>))
       (setsockopt s IPPROTO_IPV6 MRT6_ADD_MIF
          (Mif_val \<lparr>mif6c_mifi = word_of_int vifNum, mif6c_flags = 0, mif6c_threshold = MROUTE_TTL_THRESHOLD,
             mif6c_rate_limit = MROUTE_RATE_LIMIT_ENDLESS, mif6c_pifi = ucast if_index\<rparr>)))"

definition socket_del_vif :: "int \<Rightarrow> mc_socket \<Rightarrow> kernel \<Rightarrow> bool \<times> kernel" where
  "socket_del_vif vif_index s =
     when_valid s (by_family s
       (setsockopt s IPPROTO_IP MRT_DEL_VIF
          (Vif_val \<lparr>vifc_vifi = word_of_int vif_index, vifc_flags = 0, vifc_threshold = 0, vifc_rate_limit = 0,
             vifc_lcl_ifindex = 0, vifc_rmt_addr = Addr4 0\<rparr>))
       (setsockopt s IPPROTO_IPV6 MRT6_DEL_MIF
          (Mif_val \<lparr>mif6c_mifi = word_of_int vif_index, mif6c_flags = 0, mif6c_threshold = 0, mif6c_rate_limit = 0, mif6c_pifi = 0\<rparr>)))"

text \<open>Binding an interface to a routing table runs two commands of the shell; \<open>junk\<close> is what is in the
  uninitialised name when the interface is unknown, an error that is only logged.\<close>

definition mrule_cmd :: "mc_socket \<Rightarrow> string \<Rightarrow> string \<Rightarrow> string \<Rightarrow> int \<Rightarrow> string" where
  "mrule_cmd s action dir name table =
     (if m_addrFamily s = AF_INET then ''ip mrule'' else ''ip -6 mrule'') @ '' '' @ action @ '' '' @ dir @ '' '' @ name
       @ '' lookup '' @ decimal_int table"

definition run_mrules :: "string \<Rightarrow> net_names \<Rightarrow> string \<Rightarrow> u32 \<Rightarrow> int \<Rightarrow> mc_socket \<Rightarrow> kernel \<Rightarrow> bool \<times> kernel" where
  "run_mrules action net junk if_index table s =
     (let name = (case if_indextoname net if_index of Some n \<Rightarrow> n | None \<Rightarrow> junk);
          run = (\<lambda>k. let (rc, k) = sys (Sys_system (mrule_cmd s action ''iif'' name table)) k
                      in if rc \<noteq> 0 then (False, k)
                         else let (rc, k) = sys (Sys_system (mrule_cmd s action ''oif'' name table)) k in (rc = 0, k))
      in when_valid s (by_family s run run))"

definition bind_vif_to_table :: "net_names \<Rightarrow> string \<Rightarrow> u32 \<Rightarrow> int \<Rightarrow> mc_socket \<Rightarrow> kernel \<Rightarrow> bool \<times> kernel" where
  "bind_vif_to_table = run_mrules ''add''"

definition unbind_vif_form_table :: "net_names \<Rightarrow> string \<Rightarrow> u32 \<Rightarrow> int \<Rightarrow> mc_socket \<Rightarrow> kernel \<Rightarrow> bool \<times> kernel" where
  "unbind_vif_form_table = run_mrules ''del''"

text \<open>The loop that marks the output interfaces; an index out of range is undefined.\<close>

fun mark_outputs :: "'a \<Rightarrow> int list \<Rightarrow> 'a list \<Rightarrow> 'a list option" where
  "mark_outputs x [] a = Some a"
| "mark_outputs x (e # es) a = (if 0 \<le> e \<and> e < int (length a) then mark_outputs x es (a[nat e := x]) else None)"

definition add_mroute ::
  "int \<Rightarrow> addr_storage \<Rightarrow> addr_storage \<Rightarrow> int list \<Rightarrow> mc_socket \<Rightarrow> kernel \<Rightarrow> (bool \<times> kernel) option" where
  "add_mroute vif_index source_addr group_addr output_vif s k =
     (if \<not> is_udp_valid s then Some (False, k)
      else case m_addrFamily s of
        AF_INET \<Rightarrow>
          (if length output_vif > MAXVIFS then Some (False, k)
           else map_option (\<lambda>ttls. setsockopt s IPPROTO_IP MRT_ADD_MFC
                  (Mfc_val \<lparr>mfcc_origin = source_addr, mfcc_mcastgrp = group_addr, mfcc_parent = word_of_int vif_index,
                     mfcc_ttls = ttls\<rparr>) k) (mark_outputs MROUTE_DEFAULT_TTL output_vif (replicate MAXVIFS 0)))
      | AF_INET6 \<Rightarrow>
          (if length output_vif > MAXMIFS then Some (False, k)
           else map_option (\<lambda>ifset. setsockopt s IPPROTO_IPV6 MRT6_ADD_MFC
                  (Mf6c_val \<lparr>mf6cc_origin = source_addr, mf6cc_mcastgrp = group_addr, mf6cc_parent = word_of_int vif_index,
                     mf6cc_ifset = ifset\<rparr>) k) (mark_outputs True output_vif (replicate 256 False)))
      | _ \<Rightarrow> Some (False, k))"

definition del_mroute :: "int \<Rightarrow> addr_storage \<Rightarrow> addr_storage \<Rightarrow> mc_socket \<Rightarrow> kernel \<Rightarrow> bool \<times> kernel" where
  "del_mroute vif_index source_addr group_addr s =
     when_valid s (by_family s
       (setsockopt s IPPROTO_IP MRT_DEL_MFC
          (Mfc_val \<lparr>mfcc_origin = source_addr, mfcc_mcastgrp = group_addr, mfcc_parent = word_of_int vif_index,
             mfcc_ttls = replicate MAXVIFS 0\<rparr>))
       (setsockopt s IPPROTO_IPV6 MRT6_DEL_MFC
          (Mf6c_val \<lparr>mf6cc_origin = source_addr, mf6cc_mcastgrp = group_addr, mf6cc_parent = word_of_int vif_index,
             mf6cc_ifset = replicate 256 False\<rparr>)))"

text \<open>The statistics; the flags tell which of the two pointers is not null.\<close>

definition get_vif_stats :: "int \<Rightarrow> bool \<Rightarrow> bool \<Rightarrow> mc_socket \<Rightarrow> kernel \<Rightarrow> bool \<times> kernel" where
  "get_vif_stats vif_index req_v4 req_v6 s =
     (let ask = sys_ok (Sys_get_vif_stats (m_sock s) (word_of_int vif_index))
      in when_valid s (by_family s (if req_v4 then ask else (\<lambda>k. (False, k))) (if req_v6 then ask else (\<lambda>k. (False, k)))))"

definition get_mroute_stats :: "addr_storage \<Rightarrow> addr_storage \<Rightarrow> bool \<Rightarrow> bool \<Rightarrow> mc_socket \<Rightarrow> kernel \<Rightarrow> bool \<times> kernel" where
  "get_mroute_stats source_addr group_addr sgreq_v4 sgreq_v6 s =
     (let ask = sys_ok (Sys_get_sg_stats (m_sock s) source_addr group_addr)
      in when_valid s (by_family s (if sgreq_v4 then ask else (\<lambda>k. (False, k))) (if sgreq_v6 then ask else (\<lambda>k. (False, k)))))"

subsection \<open>The operations as data\<close>

text \<open>All operations that leave the object as it is and answer with success or failure.\<close>

datatype socket_op =
  Op_bind addr_storage u16 | Op_multicast_all bool | Op_reuse_port bool | Op_loop_back bool | Op_send addr_storage u16 "u8 list"
| Op_receive_timeout int | Op_choose_if u32 | Op_ttl int | Op_join addr_storage u32 | Op_leave addr_storage u32
| Op_block addr_storage addr_storage u32 | Op_unblock addr_storage addr_storage u32
| Op_join_source addr_storage addr_storage u32 | Op_leave_source addr_storage addr_storage u32
| Op_source_filter u32 addr_storage u32 "addr_storage list" | Op_kernel_table int | Op_no_ip_hdr bool | Op_icmp6_checksum bool
| Op_extension_header "u8 list" | Op_router_alert bool | Op_recv_icmpv6 | Op_recv_pkt_info | Op_recv_hop_by_hop | Op_mrt_flag bool
| Op_add_vif int u32 addr_storage | Op_del_vif int | Op_bind_table u32 int | Op_unbind_table u32 int
| Op_add_mroute int addr_storage addr_storage "int list" | Op_del_mroute int addr_storage addr_storage
| Op_vif_stats int bool bool | Op_mroute_stats addr_storage addr_storage bool bool

fun exec :: "net_names \<Rightarrow> string \<Rightarrow> socket_op \<Rightarrow> mc_socket \<Rightarrow> kernel \<Rightarrow> (bool \<times> kernel) option" where
  "exec net junk (Op_bind a p) s k = Some (bind_udp_socket a p s k)"
| "exec net junk (Op_multicast_all b) s k = Some (set_multicast_all b s k)"
| "exec net junk (Op_reuse_port b) s k = Some (set_reuse_port b s k)"
| "exec net junk (Op_loop_back b) s k = Some (set_loop_back b s k)"
| "exec net junk (Op_send a p d) s k = Some (send_packet a p d s k)"
| "exec net junk (Op_receive_timeout t) s k = Some (set_receive_timeout t s k)"
| "exec net junk (Op_choose_if i) s k = Some (choose_if net i s k)"
| "exec net junk (Op_ttl t) s k = Some (set_ttl t s k)"
| "exec net junk (Op_join g i) s k = Some (join_group g i s k)"
| "exec net junk (Op_leave g i) s k = Some (leave_group g i s k)"
| "exec net junk (Op_block g a i) s k = Some (block_source g a i s k)"
| "exec net junk (Op_unblock g a i) s k = Some (unblock_source g a i s k)"
| "exec net junk (Op_join_source g a i) s k = Some (join_source_group g a i s k)"
| "exec net junk (Op_leave_source g a i) s k = Some (leave_source_group g a i s k)"
| "exec net junk (Op_source_filter i g m l) s k = Some (set_source_filter i g m l s k)"
| "exec net junk (Op_kernel_table t) s k = Some (set_kernel_table t s k)"
| "exec net junk (Op_no_ip_hdr b) s k = Some (set_no_ip_hdr b s k)"
| "exec net junk (Op_icmp6_checksum b) s k = Some (set_ipv6_auto_icmp6_checksum_calc b s k)"
| "exec net junk (Op_extension_header h) s k = Some (add_ipv6_extension_header h s k)"
| "exec net junk (Op_router_alert b) s k = Some (set_ipv4_receive_packets_with_router_alert_header b s k)"
| "exec net junk Op_recv_icmpv6 s k = Some (set_ipv6_recv_icmpv6_msg s k)"
| "exec net junk Op_recv_pkt_info s k = Some (set_ipv6_recv_pkt_info s k)"
| "exec net junk Op_recv_hop_by_hop s k = Some (set_ipv6_recv_hop_by_hop_msg s k)"
| "exec net junk (Op_mrt_flag b) s k = Some (set_mrt_flag b s k)"
| "exec net junk (Op_add_vif v i a) s k = Some (socket_add_vif v i a s k)"
| "exec net junk (Op_del_vif v) s k = Some (socket_del_vif v s k)"
| "exec net junk (Op_bind_table i t) s k = Some (bind_vif_to_table net junk i t s k)"
| "exec net junk (Op_unbind_table i t) s k = Some (unbind_vif_form_table net junk i t s k)"
| "exec net junk (Op_add_mroute v a g l) s k = add_mroute v a g l s k"
| "exec net junk (Op_del_mroute v a g) s k = Some (del_mroute v a g s k)"
| "exec net junk (Op_vif_stats v b4 b6) s k = Some (get_vif_stats v b4 b6 s k)"
| "exec net junk (Op_mroute_stats a g b4 b6) s k = Some (get_mroute_stats a g b4 b6 s k)"

subsection \<open>What an operation does\<close>

fun call_fd :: "syscall \<Rightarrow> int option" where
  "call_fd (Sys_close fd) = Some fd"
| "call_fd (Sys_bind fd f a p) = Some fd"
| "call_fd (Sys_setsockopt fd l opt v) = Some fd"
| "call_fd (Sys_sendto fd d a p) = Some fd"
| "call_fd (Sys_recv fd n) = Some fd"
| "call_fd (Sys_recvmsg fd) = Some fd"
| "call_fd (Sys_get_if_addr fd n) = Some fd"
| "call_fd (Sys_get_vif_stats fd v) = Some fd"
| "call_fd (Sys_get_sg_stats fd a g) = Some fd"
| "call_fd (Sys_setsourcefilter fd i g m l) = Some fd"
| "call_fd (Sys_getsourcefilter fd i g n) = Some fd"
| "call_fd _ = None"

fun is_lifetime_call :: "syscall \<Rightarrow> bool" where
  "is_lifetime_call (Sys_socket af ty p) = True"
| "is_lifetime_call (Sys_close fd) = True"
| "is_lifetime_call _ = False"

fun call_ok :: "syscall \<Rightarrow> int \<Rightarrow> bool" where
  "call_ok (Sys_system c) r \<longleftrightarrow> r = 0"
| "call_ok c r \<longleftrightarrow> r \<noteq> - 1"

text \<open>The calls with their results.\<close>

definition results :: "kernel \<Rightarrow> (syscall \<times> int) list" where
  "results k = map (\<lambda>n. (k_log k ! n, k_result k n)) [0..<length (k_log k)]"

lemma results_sys: "results (snd (sys c k)) = results k @ [(c, fst (sys c k))]"
  by (simp add: results_def sys_def nth_append)

text \<open>A well-behaved step on a socket: it adds calls on the own descriptor (or of the shell) that neither create nor close
  descriptors, and is successful only when all of them are.\<close>

definition socket_step :: "mc_socket \<Rightarrow> kernel \<Rightarrow> bool \<times> kernel \<Rightarrow> bool" where
  "socket_step s k r \<longleftrightarrow>
     (\<exists>cs. results (snd r) = results k @ cs
        \<and> (\<forall>(c, rc) \<in> set cs. call_fd c \<in> {None, Some (m_sock s)} \<and> \<not> is_lifetime_call c \<and> (fst r \<longrightarrow> call_ok c rc)))"

lemma socket_step_none [simp]: "socket_step s k (b, k)"
  by (simp add: socket_step_def)

lemma socket_step_call:
  "call_fd c \<in> {None, Some (m_sock s)} \<Longrightarrow> \<not> is_lifetime_call c \<Longrightarrow> (b \<Longrightarrow> call_ok c (fst (sys c k))) \<Longrightarrow>
     socket_step s k (b, snd (sys c k))"
  by (auto simp: socket_step_def results_sys)

lemma socket_step_seq:
  assumes "socket_step s k (True, k1)" "socket_step s k1 r"
  shows "socket_step s k r"
proof -
  obtain cs where "results k1 = results k @ cs" "\<forall>(c, rc) \<in> set cs. call_fd c \<in> {None, Some (m_sock s)} \<and> \<not> is_lifetime_call c \<and> call_ok c rc"
    using assms(1) by (auto simp: socket_step_def)
  moreover obtain ds where "results (snd r) = results k1 @ ds"
    "\<forall>(c, rc) \<in> set ds. call_fd c \<in> {None, Some (m_sock s)} \<and> \<not> is_lifetime_call c \<and> (fst r \<longrightarrow> call_ok c rc)"
    using assms(2) by (auto simp: socket_step_def)
  ultimately show ?thesis unfolding socket_step_def by (intro exI [of _ "cs @ ds"]) (simp add: ball_Un, fast)
qed

lemma step_sys_ok: "call_fd c = Some (m_sock s) \<Longrightarrow> \<not> is_lifetime_call c \<Longrightarrow> socket_step s k (sys_ok c k)"
  unfolding sys_ok_def Let_def case_prod_unfold by (rule socket_step_call) (simp_all, cases c, simp_all)

lemma step_sys_nonneg: "call_fd c = Some (m_sock s) \<Longrightarrow> \<not> is_lifetime_call c \<Longrightarrow> socket_step s k (sys_nonneg c k)"
  unfolding sys_nonneg_def Let_def case_prod_unfold by (rule socket_step_call) (simp_all, cases c, auto)

lemma step_opt: "socket_step s k (setsockopt s l opt v k)" "socket_step s k (setsockopt_nonneg s l opt v k)"
  by (simp_all add: setsockopt_def setsockopt_nonneg_def step_sys_ok step_sys_nonneg)

lemma step_when_valid: "(\<And>k. socket_step s k (f k)) \<Longrightarrow> socket_step s k (when_valid s f k)"
  by (simp add: when_valid_def)

lemma step_by_family: "(\<And>k. socket_step s k (f k)) \<Longrightarrow> (\<And>k. socket_step s k (g k)) \<Longrightarrow> socket_step s k (by_family s f g k)"
  by (cases "m_addrFamily s") (simp_all add: by_family_def)

lemma step_choose_if: "socket_step s k (choose_if net i s k)"
proof -
  let ?c = "\<lambda>n. Sys_get_if_addr (m_sock s) n"
  have "socket_step s k (if \<not> fst (sys_nonneg (?c n) k) then (False, snd (sys_nonneg (?c n) k))
      else setsockopt s IPPROTO_IP IP_MULTICAST_IF v (snd (sys_nonneg (?c n) k)))" for n v k
    using step_sys_nonneg [of "?c n" s k] socket_step_seq [OF _ step_opt(1)]
    by (cases "sys_nonneg (?c n) k") auto
  then show ?thesis unfolding choose_if_def
    by (intro step_when_valid step_by_family) (auto simp: step_opt Let_def case_prod_unfold split: option.split)
qed

lemma step_run_mrules: "socket_step s k (run_mrules action net junk i t s k)"
proof -
  have "socket_step s k (if fst (sys (Sys_system c) k) \<noteq> 0 then (False, snd (sys (Sys_system c) k))
      else (fst (sys (Sys_system d) (snd (sys (Sys_system c) k))) = 0, snd (sys (Sys_system d) (snd (sys (Sys_system c) k)))))" for c d k
    using socket_step_call [of "Sys_system c" s _ k] socket_step_call [of "Sys_system d" s]
    by (auto intro: socket_step_seq)
  then show ?thesis unfolding run_mrules_def Let_def case_prod_unfold
    by (intro step_when_valid step_by_family) simp_all
qed

lemma step_add_mroute: "add_mroute v a g l s k = Some r \<Longrightarrow> socket_step s k r"
  by (auto simp: add_mroute_def step_opt split: if_splits addr_family.splits)

lemmas socket_op_defs = bind_udp_socket_def set_multicast_all_def set_reuse_port_def set_loop_back_def send_packet_def
  set_receive_timeout_def set_ttl_def join_group_def leave_group_def block_source_def unblock_source_def join_source_group_def
  leave_source_group_def generic_group_sockopt_def generic_source_sockopt_def set_source_filter_def set_kernel_table_def
  set_no_ip_hdr_def set_ipv6_auto_icmp6_checksum_calc_def add_ipv6_extension_header_def
  set_ipv4_receive_packets_with_router_alert_header_def set_ipv6_recv_icmpv6_msg_def set_ipv6_recv_pkt_info_def
  set_ipv6_recv_hop_by_hop_msg_def set_mrt_flag_def socket_add_vif_def socket_del_vif_def del_mroute_def get_vif_stats_def
  get_mroute_stats_def only_ipv6_def Let_def

lemma exec_step:
  assumes "exec net junk op s k = Some r"
  shows "socket_step s k r"
proof (cases op)
  case (Op_choose_if i)
  with assms step_choose_if show ?thesis by auto
next
  case (Op_bind_table i t)
  with assms step_run_mrules show ?thesis by (auto simp: bind_vif_to_table_def)
next
  case (Op_unbind_table i t)
  with assms step_run_mrules show ?thesis by (auto simp: unbind_vif_form_table_def)
next
  case (Op_add_mroute v a g l)
  with assms step_add_mroute show ?thesis by simp
qed (use assms in \<open>auto simp: socket_op_defs intro!: step_when_valid step_by_family step_opt step_sys_ok\<close>)

lemma exec_invalid:
  assumes "exec net junk op s k = Some r" "\<not> is_udp_valid s"
  shows "r = (False, k)"
  using assms by (cases op) (auto simp: socket_op_defs choose_if_def bind_vif_to_table_def unbind_vif_form_table_def run_mrules_def
      add_mroute_def when_valid_def)

lemma mark_outputs_result:
  "mark_outputs x es a = (if \<forall>e \<in> set es. 0 \<le> e \<and> e < int (length a)
     then Some (map (\<lambda>n. if int n \<in> set es then x else a ! n) [0..<length a]) else None)"
proof (induction es arbitrary: a)
  case Nil
  show ?case by (simp add: map_nth)
next
  case (Cons e es)
  show ?case
  proof (cases "0 \<le> e \<and> e < int (length a)")
    case True
    have "map (\<lambda>n. if int n \<in> set es then x else a[nat e := x] ! n) [0..<length a] =
        map (\<lambda>n. if int n \<in> set (e # es) then x else a ! n) [0..<length a]"
      using True by (auto simp: nth_list_update)
    with True Cons show ?thesis by simp
  qed auto
qed

subsection \<open>Life of a descriptor\<close>

text \<open>The life of an object: it is constructed, creates sockets and runs operations.  (The member functions
  \<open>set_own_socket\<close> and a direct \<open>close_socket\<close> have no caller in the proxy.)\<close>

inductive socket_life :: "mc_socket \<Rightarrow> kernel \<Rightarrow> bool" where
  life_new: "k_log k = [] \<Longrightarrow> socket_life new_mc_socket k"
| life_create: "socket_life s k \<Longrightarrow> create_socket af ty proto s k = (b, s', k') \<Longrightarrow> socket_life s' k'"
| life_exec: "socket_life s k \<Longrightarrow> exec net junk op s k = Some (b, k') \<Longrightarrow> socket_life s k'"
| life_receive_packet: "socket_life s k \<Longrightarrow> receive_packet n s m k = (r, k') \<Longrightarrow> socket_life s k'"
| life_receive_msg: "socket_life s k \<Longrightarrow> receive_msg s m k = (r, k') \<Longrightarrow> socket_life s k'"
| life_get_filter: "socket_life s k \<Longrightarrow> get_source_filter i g s m l k = (r, k') \<Longrightarrow> socket_life s k'"

fun opened_by :: "syscall \<times> int \<Rightarrow> int list" where
  "opened_by (Sys_socket af ty p, fd) = (if fd > 0 then [fd] else [])"
| "opened_by (c, r) = []"

fun closed_by :: "syscall \<times> int \<Rightarrow> int list" where
  "closed_by (Sys_close fd, r) = [fd]"
| "closed_by (c, r) = []"

definition opened :: "kernel \<Rightarrow> int list" where
  "opened k = concat (map opened_by (results k))"

definition closed :: "kernel \<Rightarrow> int list" where
  "closed k = concat (map closed_by (results k))"

lemma opened_sys: "opened (snd (sys c k)) = opened k @ opened_by (c, fst (sys c k))"
  "closed (snd (sys c k)) = closed k @ closed_by (c, fst (sys c k))"
  by (simp_all add: opened_def closed_def results_sys)

lemma no_lifetime: "\<not> is_lifetime_call c \<Longrightarrow> opened_by (c, r) = [] \<and> closed_by (c, r) = []"
  by (cases c) simp_all

lemma step_lifetime: "socket_step s k r \<Longrightarrow> opened (snd r) = opened k \<and> closed (snd r) = closed k"
  using no_lifetime by (fastforce simp: socket_step_def opened_def closed_def concat_eq_Nil_conv)

lemma receive_lifetime: "\<not> is_lifetime_call c \<Longrightarrow> opened (snd (receive c k)) = opened k \<and> closed (snd (receive c k)) = closed k"
  by (simp add: receive_def Let_def case_prod_unfold opened_sys no_lifetime)

lemma sys_ok_lifetime: "\<not> is_lifetime_call c \<Longrightarrow> opened (snd (sys_ok c k)) = opened k \<and> closed (snd (sys_ok c k)) = closed k"
  by (simp add: sys_ok_def Let_def case_prod_unfold opened_sys no_lifetime)

lemma get_source_filter_lifetime:
  "opened (snd (get_source_filter i g s m l k)) = opened k \<and> closed (snd (get_source_filter i g s m l k)) = closed k"
  by (simp add: get_source_filter_def Let_def case_prod_unfold sys_ok_lifetime)

definition life_inv :: "mc_socket \<Rightarrow> kernel \<Rightarrow> bool" where
  "life_inv s k \<longleftrightarrow> m_own_socket s \<and> opened k = closed k @ (if is_udp_valid s then [m_sock s] else [])"

lemma socket_life_inv: "socket_life s k \<Longrightarrow> life_inv s k"
proof (induction rule: socket_life.induct)
  case (life_new k)
  then show ?case by (simp add: life_inv_def new_mc_socket_def is_udp_valid_def opened_def closed_def results_def)
next
  case (life_create s k af ty proto b s' k')
  then show ?case
    by (auto simp: life_inv_def create_socket_def close_socket_def is_udp_valid_def Let_def case_prod_unfold opened_sys split: if_splits)
next
  case (life_exec s k net junk op b k')
  from step_lifetime [OF exec_step [OF life_exec(2)]] life_exec(3) show ?case by (simp add: life_inv_def)
next
  case (life_receive_packet s k n m r k')
  then show ?case
    using receive_lifetime [of "Sys_recv (m_sock s) n" k] by (auto simp: life_inv_def receive_packet_def split: if_splits)
next
  case (life_receive_msg s k m r k')
  then show ?case
    using receive_lifetime [of "Sys_recvmsg (m_sock s)" k] by (auto simp: life_inv_def receive_msg_def split: if_splits)
next
  case (life_get_filter s k i g m l r k')
  from get_source_filter_lifetime [of i g s m l k] life_get_filter(2,3) show ?case by (simp add: life_inv_def)
qed

text \<open>The failing \<open>set_own_socket\<close> leaves a closed descriptor in the object, which is closed once more.\<close>

lemma own_socket_failure:
  assumes "is_udp_valid s" "m_own_socket s" "sck < 0" "set_own_socket sck af s k = (b, s', k')"
  shows "\<not> b \<and> s' = s \<and> k_log (close_socket s' k') = k_log k @ [Sys_close (m_sock s), Sys_close (m_sock s)]"
  using assms by (auto simp: set_own_socket_def close_socket_def sys_def)

subsection \<open>Properties\<close>





end
