(* ===== verification/Packets.thy ===== *)
theory Packets
  imports Receivers Interfaces
begin

section \<open>Checksums and packets (mroute_socket.cpp, igmp_sender.cpp, mld_sender.cpp)\<close>

text \<open>
  \<^verbatim>\<open>mroute_socket::calc_checksum\<close> and the bytes of the queries, which the senders fill in field by field.  The
  function \<open>host16\<close> is the byte order of the machine: the number that two bytes in memory stand for.
\<close>

subsection \<open>The checksum\<close>

text \<open>The C code sums in an \<^verbatim>\<open>int\<close>; \<open>sum_words_bound\<close> below shows that the sum of a packet of at most 65535 bytes fits.\<close>

datatype endian = Little_endian | Big_endian

fun host16 :: "endian \<Rightarrow> u8 \<Rightarrow> u8 \<Rightarrow> nat" where
  "host16 Little_endian a b = unat a + 256 * unat b"
| "host16 Big_endian a b = 256 * unat a + unat b"

fun store16 :: "endian \<Rightarrow> u16 \<Rightarrow> u8 list" where
  "store16 Little_endian c = [ucast c, ucast (drop_bit 8 c)]"
| "store16 Big_endian c = [ucast (drop_bit 8 c), ucast c]"

fun sum_words :: "endian \<Rightarrow> u8 list \<Rightarrow> nat" where
  "sum_words bo (a # b # buf) = host16 bo a b + sum_words bo buf"
| "sum_words bo [a] = unat a"
| "sum_words bo [] = 0"

definition calc_checksum :: "endian \<Rightarrow> u8 list \<Rightarrow> u16" where
  "calc_checksum bo buf =
     (let sum = int (sum_words bo buf);
          csum = and sum 0xFFFF;
          sum = drop_bit 16 sum;
          sum = sum + csum;
          sum = sum + drop_bit 16 sum
      in word_of_int (not sum))"

text \<open>RFC 1071: the one's complement of the one's complement sum of the 16 bit words, an odd last byte padded
  with a zero byte.\<close>

definition oc_add :: "nat \<Rightarrow> nat \<Rightarrow> nat" where
  "oc_add a b = (if a + b < 65536 then a + b else a + b - 65535)"

fun oc_sum :: "endian \<Rightarrow> u8 list \<Rightarrow> nat" where
  "oc_sum bo (a # b # buf) = oc_add (host16 bo a b) (oc_sum bo buf)"
| "oc_sum bo [a] = host16 bo a 0"
| "oc_sum bo [] = 0"

lemma unat_u8: "unat (a::u8) \<le> 255"
  using unsigned_less [where ?'a = nat, of a] by simp

lemma host16_bound: "host16 bo a b \<le> 65535"
  using unat_u8 [of a] unat_u8 [of b] by (cases bo) auto

lemma store16_parts:
  "unat (ucast (c::u16) :: u8) = unat c mod 256" "unat (ucast (drop_bit 8 c) :: u8) = unat c div 256"
proof -
  have "unat c < 65536" using unsigned_less [where ?'a = nat, of c] by simp
  then show "unat (ucast c :: u8) = unat c mod 256" "unat (ucast (drop_bit 8 c) :: u8) = unat c div 256"
    by (simp_all add: unsigned_ucast_eq take_bit_eq_mod unat_drop_bit_eq drop_bit_eq_div [of 8 "unat c"]
        div_less_iff_less_mult del: drop_bit_eq_div)
qed

lemma host16_store16: "\<exists>a b. store16 bo c = [a, b] \<and> host16 bo a b = unat c"
proof (cases bo)
  case Little_endian
  have "host16 bo (ucast c) (ucast (drop_bit 8 c)) = unat c"
    unfolding Little_endian host16.simps store16_parts(2) unfolding store16_parts(1) by simp
  then show ?thesis using Little_endian by auto
next
  case Big_endian
  have "host16 bo (ucast (drop_bit 8 c)) (ucast c) = unat c"
    unfolding Big_endian host16.simps store16_parts(2) unfolding store16_parts(1) by simp
  then show ?thesis using Big_endian by auto
qed

lemma length_store16 [simp]: "length (store16 bo c) = 2"
  by (cases bo) simp_all

text \<open>The sum folded into 16 bits.\<close>

definition fold16 :: "nat \<Rightarrow> nat" where
  "fold16 s = (if s = 0 then 0 else (s - 1) mod 65535 + 1)"

lemma fold16_zero [simp]: "fold16 0 = 0"
  by (simp add: fold16_def)

lemma fold16_pos: "s > 0 \<Longrightarrow> \<exists>r < 65535. (s - 1) mod 65535 = r \<and> fold16 s = r + 1"
  by (simp add: fold16_def)

lemma fold16_bound: "fold16 s \<le> 65535"
  using fold16_pos [of s] by (cases "s = 0") auto

lemma fold16_small: "s \<le> 65535 \<Longrightarrow> fold16 s = s"
  by (simp add: fold16_def)

lemma fold16_step: "s > 65535 \<Longrightarrow> fold16 s = fold16 (s - 65535)"
  by (simp add: fold16_def le_mod_geq)

lemma fold16_add:
  assumes a: "a \<le> 65535"
  shows "fold16 (a + s) = oc_add a (fold16 s)"
proof (cases "s = 0")
  case True
  with a show ?thesis by (simp add: fold16_small oc_add_def)
next
  case False
  then obtain r where r: "r < 65535" "(s - 1) mod 65535 = r" "fold16 s = r + 1" using fold16_pos by blast
  have "(a + s - 1) mod 65535 = (a + r) mod 65535" using False unfolding r(2) [symmetric] by (simp add: mod_add_right_eq)
  then have f: "fold16 (a + s) = (a + r) mod 65535 + 1" using False by (simp add: fold16_def)
  show ?thesis
  proof (cases "a + r < 65535")
    case True
    then show ?thesis using f r(3) by (simp add: oc_add_def)
  next
    case False
    then have "(a + r) mod 65535 = a + r - 65535" using a r(1) by (simp add: le_mod_geq)
    then show ?thesis using f False r(3) by (simp add: oc_add_def)
  qed
qed

lemma oc_sum_fold16: "bo = Little_endian \<or> even (length buf) \<Longrightarrow> oc_sum bo buf = fold16 (sum_words bo buf)"
proof (induction bo buf rule: oc_sum.induct)
  case (1 bo a b buf)
  then show ?case using fold16_add [OF host16_bound [of bo a b]] by simp
next
  case (2 bo a)
  then show ?case using unat_u8 [of a] by (simp add: fold16_small)
next
  case (3 bo)
  then show ?case by (simp add: fold16_def)
qed

lemma sum_words_bound: "sum_words bo buf \<le> length buf * 32768"
proof (induction bo buf rule: sum_words.induct)
  case (1 bo a b buf)
  then show ?case using host16_bound [of bo a b] by simp
next
  case (2 bo a)
  then show ?case using unat_u8 [of a] by simp
qed simp

lemma sum_words_append: "even (length xs) \<Longrightarrow> sum_words bo (xs @ ys) = sum_words bo xs + sum_words bo ys"
  by (induction bo xs rule: sum_words.induct) auto

text \<open>The two foldings of the code are the end-around carry.\<close>

lemma fold_twice:
  fixes s :: nat
  assumes "s < 2 ^ 32"
  defines "t \<equiv> s div 65536 + s mod 65536"
  shows "(t + t div 65536) mod 65536 = fold16 s"
proof -
  have q: "s div 65536 \<le> 65535" "s mod 65536 \<le> 65535" using assms(1) by (auto simp: less_Suc_eq_le [symmetric] div_less_iff_less_mult)
  have s: "s = t + 65535 * (s div 65536)" unfolding t_def using div_mult_mod_eq [of s 65536] by linarith
  have f: "fold16 s = fold16 t"
  proof (cases "t = 0")
    case False
    then have "s - 1 = t - 1 + 65535 * (s div 65536)" using s by linarith
    then have "(s - 1) mod 65535 = (t - 1) mod 65535" by simp
    then show ?thesis using False s by (auto simp: fold16_def)
  qed (use s t_def in auto)
  show ?thesis
  proof (cases "t \<le> 65535")
    case True
    then show ?thesis using f by (simp add: fold16_small)
  next
    case False
    then have t: "t div 65536 = 1" "t \<le> 131070" using q unfolding t_def by linarith+
    then have "(t + 1) mod 65536 = t - 65535" using False by (simp add: le_mod_geq)
    moreover have "fold16 t = t - 65535" using False t(2) by (simp add: fold16_step fold16_small)
    ultimately show ?thesis using f t by simp
  qed
qed

lemma mask_16: "and (int s) 65535 = int s mod 65536"
  using take_bit_eq_mask [of 16 "int s"] by (simp add: take_bit_eq_mod mask_eq_exp_minus_1)

lemma complement_mod: "(- int u - 1) mod 65536 = 65535 - int (u mod 65536)"
proof -
  define q r where "q = u div 65536" and "r = u mod 65536"
  then have u: "u = q * 65536 + r" "r < 65536" by simp_all
  have "- int u - 1 = (65535 - int r) + 65536 * (- int q - 1)" unfolding u(1) by simp
  then have "(- int u - 1) mod 65536 = (65535 - int r) mod 65536" by (metis mod_mult_self2)
  also have "\<dots> = 65535 - int r" by (rule mod_pos_pos_trivial) (use u(2) in linarith)+
  finally show ?thesis using u by simp
qed

lemma calc_checksum_fold:
  assumes "length buf \<le> 65535"
  shows "unat (calc_checksum bo buf) = 65535 - fold16 (sum_words bo buf)"
proof -
  let ?s = "sum_words bo buf"
  let ?t = "?s div 65536 + ?s mod 65536"
  let ?u = "?t + ?t div 65536"
  have s: "?s < 2 ^ 32" using sum_words_bound [of bo buf] assms by simp
  have "calc_checksum bo buf = word_of_int (- int ?u - 1)"
    unfolding calc_checksum_def Let_def
    using mask_16 [of ?s] by (simp add: drop_bit_eq_div not_int_def zdiv_int zmod_int)
  then have "uint (calc_checksum bo buf) = (- int ?u - 1) mod 65536"
    by (simp only: unsigned_of_int take_bit_eq_mod of_int_eq_id id_apply) simp
  also have "\<dots> = 65535 - int (?u mod 65536)" by (rule complement_mod)
  also have "\<dots> = int (65535 - fold16 ?s)"
    using fold_twice [OF s] fold16_bound [of ?s] by (simp add: of_nat_diff)
  finally show ?thesis by (simp add: nat_eq_iff2 unat_eq_nat_uint flip: nat_eq_iff)
qed


lemma calc_checksum_verifies:
  assumes "even (length xs)" "length xs + 2 + length ys \<le> 65535"
  shows "calc_checksum bo (xs @ store16 bo (calc_checksum bo (xs @ [0, 0] @ ys)) @ ys) = 0"
proof -
  let ?z = "xs @ [0, 0] @ ys"
  let ?c = "calc_checksum bo ?z"
  let ?p = "xs @ store16 bo ?c @ ys"
  obtain a b where ab: "store16 bo ?c = [a, b]" "host16 bo a b = unat ?c" using host16_store16 by blast
  have z: "host16 bo 0 0 = 0" by (cases bo) simp_all
  have p: "sum_words bo ?p = unat ?c + sum_words bo ?z"
    using assms(1) ab z by (simp add: sum_words_append)
  have c: "unat ?c = 65535 - fold16 (sum_words bo ?z)" by (rule calc_checksum_fold) (use assms(2) in simp)
  then have "fold16 (sum_words bo ?p) = oc_add (unat ?c) (fold16 (sum_words bo ?z))"
    unfolding p by (intro fold16_add) simp
  also have "\<dots> = 65535" using c fold16_bound [of "sum_words bo ?z"] by (simp add: oc_add_def)
  finally have "unat (calc_checksum bo ?p) = 0" using calc_checksum_fold [of ?p bo] assms(2) by simp
  then show ?thesis by (simp add: unat_eq_0)
qed

subsection \<open>The bytes of the queries\<close>

text \<open>
  \<^verbatim>\<open>get_in_addr\<close> and \<^verbatim>\<open>get_in6_addr\<close> read the field of the socket address whatever its family; an address of
  another family has zero bytes there.
\<close>

fun in_addr_bytes :: "addr_storage \<Rightarrow> u8 list" where
  "in_addr_bytes (Addr4 w) = word_bytes w"
| "in_addr_bytes a = [0, 0, 0, 0]"

fun in6_addr_bytes :: "addr_storage \<Rightarrow> u8 list" where
  "in6_addr_bytes (Addr6 w0 w1 w2 w3) = s6_addr w0 w1 w2 w3"
| "in6_addr_bytes a = replicate 16 0"

text \<open>The bit fields \<^verbatim>\<open>resv2\<close>, \<^verbatim>\<open>suppress\<close> and \<^verbatim>\<open>qrv\<close> share a byte.\<close>

definition query_flags :: "query_packet \<Rightarrow> u8" where
  "query_flags q = (if qp_suppress q then push_bit 3 1 else 0) OR of_nat (qp_qrv q)"

definition router_alert_option :: "u8 list" where
  "router_alert_option = [0x94, 4, 0, 0]"

text \<open>The IP header up to the checksum and from it on, and the IGMPv3 query up to the checksum and from it on.\<close>

definition ip_head :: "query_packet \<Rightarrow> u8 list" where
  "ip_head q = [0x46, 0] @ htons (qp_size q) @ [0, 0] @ htons 0x4000 @ [1, 2]"

definition ip_tail :: "addr_storage \<Rightarrow> query_packet \<Rightarrow> u8 list" where
  "ip_tail src q = in_addr_bytes src @ in_addr_bytes (qp_dst q) @ router_alert_option"

definition igmp_head :: "query_packet \<Rightarrow> u8 list" where
  "igmp_head q = [0x11, of_nat (qp_code q)]"

definition igmp_tail :: "query_packet \<Rightarrow> u8 list" where
  "igmp_tail q = in_addr_bytes (qp_group q) @ [query_flags q, qp_qqic q] @ htons (unat (qp_num_of_srcs q))
     @ concat (map in_addr_bytes (qp_srcs q))"

definition igmpv3_bytes :: "endian \<Rightarrow> addr_storage \<Rightarrow> query_packet \<Rightarrow> u8 list" where
  "igmpv3_bytes bo src q =
     (let ip_sum = calc_checksum bo (ip_head q @ [0, 0] @ ip_tail src q);
          igmp_cksum = calc_checksum bo (igmp_head q @ [0, 0] @ igmp_tail q)
      in (ip_head q @ store16 bo ip_sum @ ip_tail src q) @ (igmp_head q @ store16 bo igmp_cksum @ igmp_tail q))"

definition mldv2_bytes :: "query_packet \<Rightarrow> u8 list" where
  "mldv2_bytes q = [130, 0, 0, 0] @ htons (qp_code q) @ [0, 0] @ in6_addr_bytes (qp_group q)
     @ [query_flags q, qp_qqic q] @ htons (unat (qp_num_of_srcs q)) @ concat (map in6_addr_bytes (qp_srcs q))"

text \<open>\<^verbatim>\<open>mld_sender::add_hbh_opt_header\<close>: the hop-by-hop header, the router alert option and two bytes of padding.\<close>

definition hbh_opt_header :: "endian \<Rightarrow> u8 list" where
  "hbh_opt_header bo = [58, 0] @ [5, 2, 0, 0] @ store16 bo 1"

text \<open>The packet that \<^verbatim>\<open>send_igmpv3_query\<close> builds; \<open>None\<close> where \<^verbatim>\<open>get_saddr\<close> follows a null pointer.\<close>

definition igmpv3_query_packet ::
  "endian \<Rightarrow> net_names \<Rightarrow> interfaces \<Rightarrow> u32 \<Rightarrow> timers_values \<Rightarrow> addr_storage \<Rightarrow> bool \<Rightarrow> source_list \<Rightarrow> u8 list option" where
  "igmpv3_query_packet bo net ifs if_index tv gaddr s_flag slist =
     map_option (\<lambda>src. igmpv3_bytes bo src (igmpv3_query tv gaddr s_flag slist)) (get_saddr ifs (get_if_name net if_index))"

definition mldv2_query_packet :: "timers_values \<Rightarrow> addr_storage \<Rightarrow> bool \<Rightarrow> source_list \<Rightarrow> u8 list" where
  "mldv2_query_packet tv gaddr s_flag slist = mldv2_bytes (mldv2_query tv gaddr s_flag slist)"

subsection \<open>A reader of queries\<close>

text \<open>
  RFC 3376, 4.1 and RFC 3810, 5.1: what a host that receives the query reads from it: the maximum response code,
  the group, the S flag, the robustness variable, the querier's interval code and the sources.
\<close>

record wire_query =
  wq_code :: nat
  wq_group :: addr_storage
  wq_suppress :: bool
  wq_qrv :: nat
  wq_qqic :: u8
  wq_srcs :: "addr_storage list"

fun group_pos :: "receiver_kind \<Rightarrow> nat" where
  "group_pos IGMP_RECEIVER = 4"
| "group_pos MLD_RECEIVER = 8"

fun read_code :: "receiver_kind \<Rightarrow> u8 list \<Rightarrow> nat" where
  "read_code IGMP_RECEIVER buf = unat (buf ! 1)"
| "read_code MLD_RECEIVER buf = ntohs (buf ! 4) (buf ! 5)"

fun query_type :: "receiver_kind \<Rightarrow> u8" where
  "query_type IGMP_RECEIVER = 0x11"
| "query_type MLD_RECEIVER = 130"

definition read_query :: "receiver_kind \<Rightarrow> u8 list \<Rightarrow> wire_query option" where
  "read_query k buf =
     (let f = group_pos k + addr_len k; n = ntohs (buf ! (f + 2)) (buf ! (f + 3))
      in if length buf < f + 4 \<or> buf ! 0 \<noteq> query_type k \<or> length buf \<noteq> f + 4 + n * addr_len k then None
         else Some \<lparr>wq_code = read_code k buf, wq_group = read_addr k buf (group_pos k),
                wq_suppress = bit (buf ! f) 3, wq_qrv = unat (buf ! f AND 7), wq_qqic = buf ! (f + 1),
                wq_srcs = map (\<lambda>i. read_addr k buf (f + 4 + i * addr_len k)) [0..<n]\<rparr>)"

lemma in_addr_bytes_addr: "get_addr_family a = AF_INET \<Longrightarrow> in_addr_bytes a = addr_bytes a"
  "get_addr_family a = AF_INET6 \<Longrightarrow> in6_addr_bytes a = addr_bytes a"
  by (cases a; simp)+

lemma length_in_addr_bytes [simp]: "length (in_addr_bytes a) = 4" "length (in6_addr_bytes a) = 16"
  by (cases a; simp add: s6_addr_def)+

lemma length_htons [simp]: "length (htons n) = 2"
  by (simp add: htons_def)

lemma length_heads [simp]:
  "length (ip_head q) = 10" "length (ip_tail src q) = 12" "length (igmp_head q) = 2"
  by (simp_all add: ip_head_def ip_tail_def igmp_head_def router_alert_option_def)

lemma length_concat_in_addr [simp]: "length (concat (map in_addr_bytes l)) = 4 * length l"
  "length (concat (map in6_addr_bytes l)) = 16 * length l"
  by (induction l) simp_all

lemma length_igmp_tail [simp]: "length (igmp_tail q) = 8 + 4 * length (qp_srcs q)"
  by (simp add: igmp_tail_def)

lemma query_flags_read:
  assumes "qp_qrv q \<le> 7"
  shows "bit (query_flags q) 3 = qp_suppress q" "unat (query_flags q AND 7) = qp_qrv q"
proof -
  have "qp_qrv q \<in> {0, 1, 2, 3, 4, 5, 6, 7}" using assms by auto
  then show "bit (query_flags q) 3 = qp_suppress q" "unat (query_flags q AND 7) = qp_qrv q"
    by (cases "qp_suppress q"; auto simp: query_flags_def)+
qed

lemma read_addrs_bytes:
  assumes "\<forall>a \<in> set as. get_addr_family a = kind_family k" "bytes_at buf pos (concat (map addr_bytes as))"
  shows "map (\<lambda>i. read_addr k buf (pos + i * addr_len k)) [0..<length as] = as"
  using assms
proof (induction as arbitrary: pos)
  case (Cons a as)
  from Cons.prems have a: "read_addr k buf pos = a" "bytes_at buf (pos + addr_len k) (concat (map addr_bytes as))"
    by (auto simp: bytes_at_append read_addr_bytes addr_bytes_length)
  have "map (\<lambda>i. read_addr k buf (pos + i * addr_len k)) (map Suc [0..<length as]) = as"
    using Cons.IH [OF _ a(2)] Cons.prems by (simp add: o_def add.assoc)
  then show ?case using a(1) by (simp add: upt_conv_Cons map_Suc_upt del: upt_Suc)
qed simp

lemma read_query_bytes:
  assumes "get_addr_family g = kind_family k" "\<forall>a \<in> set as. get_addr_family a = kind_family k" "length as < 65536"
    and "buf ! 0 = query_type k" "length buf = group_pos k + addr_len k + 4 + length as * addr_len k"
    and at: "bytes_at buf (group_pos k) (addr_bytes g @ [fl, qqic] @ htons (length as) @ concat (map addr_bytes as))"
  shows "read_query k buf = Some \<lparr>wq_code = read_code k buf, wq_group = g, wq_suppress = bit fl 3,
    wq_qrv = unat (fl AND 7), wq_qqic = qqic, wq_srcs = as\<rparr>"
proof -
  let ?f = "group_pos k + addr_len k"
  note at = at [unfolded bytes_at_append addr_bytes_length [OF assms(1)] length_htons bytes_at_Cons]
  have b: "buf ! ?f = fl" "buf ! (?f + 1) = qqic" "bytes_at buf (?f + 2) (htons (length as))"
    "bytes_at buf (?f + 4) (concat (map addr_bytes as))"
    using at by (simp_all add: numeral_eq_Suc)
  have n: "ntohs (buf ! (?f + 2)) (buf ! (?f + 3)) = length as"
    using ntohs_htons [OF assms(3) b(3)] by (simp add: numeral_3_eq_3)
  have g: "read_addr k buf (group_pos k) = g" using read_addr_bytes [OF assms(1)] at by blast
  show ?thesis
    unfolding read_query_def Let_def n g b(1,2) read_addrs_bytes [OF assms(2) b(4)] using assms(4,5) by simp
qed

definition wire_of :: "query_packet \<Rightarrow> wire_query" where
  "wire_of q = \<lparr>wq_code = qp_code q, wq_group = qp_group q, wq_suppress = qp_suppress q, wq_qrv = qp_qrv q,
     wq_qqic = qp_qqic q, wq_srcs = qp_srcs q\<rparr>"

lemma query_qrv_bound: "query_qrv tv \<le> 7"
  by (simp add: query_qrv_def word_le_nat_alt)

lemma unat_num_of_srcs: "length l < 65536 \<Longrightarrow> unat (of_nat (length l) :: u16) = length l"
  by (simp add: unat_of_nat)

lemma map_addr_bytes:
  "\<forall>a \<in> set l. get_addr_family a = AF_INET \<Longrightarrow> map in_addr_bytes l = map addr_bytes l"
  "\<forall>a \<in> set l. get_addr_family a = AF_INET6 \<Longrightarrow> map in6_addr_bytes l = map addr_bytes l"
  by (simp_all add: in_addr_bytes_addr)

definition of_family :: "addr_family \<Rightarrow> addr_storage \<Rightarrow> source_list \<Rightarrow> bool" where
  "of_family f gaddr slist \<longleftrightarrow> get_addr_family gaddr = f \<and> (\<forall>a \<in> set (map fst slist). get_addr_family a = f)"

lemma igmp_part_read:
  fixes tv s_flag
  assumes "of_family AF_INET gaddr slist" "length slist < 65536"
  defines "q \<equiv> igmpv3_query tv gaddr s_flag slist"
  shows "read_query IGMP_RECEIVER (igmp_head q @ store16 bo c @ igmp_tail q) = Some (wire_of q)"
proof -
  let ?b = "igmp_head q @ store16 bo c @ igmp_tail q"
  have f: "get_addr_family (qp_group q) = AF_INET" "\<forall>a \<in> set (qp_srcs q). get_addr_family a = AF_INET"
    and n: "unat (qp_num_of_srcs q) = length (qp_srcs q)" "length (qp_srcs q) = length slist"
    and qrv: "qp_qrv q \<le> 7" and code: "qp_code q < 256"
    using assms unat_num_of_srcs unsigned_less [where ?'a = nat and ?'b = 8] query_qrv_bound
    by (simp_all add: of_family_def igmpv3_query_def)
  have t: "igmp_tail q = addr_bytes (qp_group q) @ [query_flags q, qp_qqic q] @ htons (length (qp_srcs q))
      @ concat (map addr_bytes (qp_srcs q))"
    unfolding igmp_tail_def n(1) map_addr_bytes(1) [OF f(2)] in_addr_bytes_addr(1) [OF f(1)] ..
  have at: "bytes_at ?b 4 (addr_bytes (qp_group q) @ [query_flags q, qp_qqic q] @ htons (length (qp_srcs q))
      @ concat (map addr_bytes (qp_srcs q)))" unfolding t [symmetric] by (simp add: bytes_at_def)
  have b: "?b ! 0 = query_type IGMP_RECEIVER"
    "length ?b = group_pos IGMP_RECEIVER + addr_len IGMP_RECEIVER + 4 + length (qp_srcs q) * addr_len IGMP_RECEIVER"
    by (simp_all add: igmp_head_def)
  have "read_query IGMP_RECEIVER ?b = Some \<lparr>wq_code = read_code IGMP_RECEIVER ?b, wq_group = qp_group q,
      wq_suppress = bit (query_flags q) 3, wq_qrv = unat (query_flags q AND 7), wq_qqic = qp_qqic q, wq_srcs = qp_srcs q\<rparr>"
    by (rule read_query_bytes) (use f b at in \<open>simp_all only: group_pos.simps kind_family.simps n(2) assms(2)\<close>)
  moreover have "read_code IGMP_RECEIVER ?b = qp_code q" using code by (simp add: igmp_head_def unat_of_nat)
  ultimately show ?thesis by (simp add: wire_of_def query_flags_read [OF qrv])
qed

lemma mld_packet_read:
  fixes tv s_flag
  assumes "of_family AF_INET6 gaddr slist" "length slist < 65536"
  defines "q \<equiv> mldv2_query tv gaddr s_flag slist"
  shows "read_query MLD_RECEIVER (mldv2_bytes q) = Some (wire_of q)"
proof -
  let ?b = "mldv2_bytes q"
  have f: "get_addr_family (qp_group q) = AF_INET6" "\<forall>a \<in> set (qp_srcs q). get_addr_family a = AF_INET6"
    and n: "unat (qp_num_of_srcs q) = length (qp_srcs q)" "length (qp_srcs q) = length slist"
    and qrv: "qp_qrv q \<le> 7" and code: "qp_code q < 65536"
    using assms unat_num_of_srcs unsigned_less [where ?'a = nat and ?'b = 16] query_qrv_bound
    by (simp_all add: of_family_def mldv2_query_def)
  let ?t = "addr_bytes (qp_group q) @ [query_flags q, qp_qqic q] @ htons (length (qp_srcs q))
      @ concat (map addr_bytes (qp_srcs q))"
  have t: "?b = [130, 0, 0, 0] @ htons (qp_code q) @ [0, 0] @ ?t"
    unfolding mldv2_bytes_def n(1) map_addr_bytes(2) [OF f(2)] in_addr_bytes_addr(2) [OF f(1)] ..
  have at: "bytes_at ?b 8 ?t" "bytes_at ?b 4 (htons (qp_code q))" unfolding t by (simp_all add: bytes_at_def)
  have len: "length ?b = 28 + length (qp_srcs q) * 16" by (simp add: mldv2_bytes_def)
  have "read_query MLD_RECEIVER ?b = Some \<lparr>wq_code = read_code MLD_RECEIVER ?b, wq_group = qp_group q,
      wq_suppress = bit (query_flags q) 3, wq_qrv = unat (query_flags q AND 7), wq_qqic = qp_qqic q, wq_srcs = qp_srcs q\<rparr>"
    by (rule read_query_bytes) (use f n(2) assms(2) at len in \<open>simp_all add: mldv2_bytes_def\<close>)
  moreover have "read_code MLD_RECEIVER ?b = qp_code q"
    using ntohs_htons [OF code at(2)] by simp
  ultimately show ?thesis by (simp add: wire_of_def query_flags_read [OF qrv])
qed

subsection \<open>Properties\<close>

text \<open>C33: \<^verbatim>\<open>calc_checksum\<close> is the internet checksum of RFC 1071 for every buffer a packet can fill: its two foldings give
  the complement of the one's complement sum of the 16 bit words.  For an odd number of bytes this holds on a little
  endian machine only, since the last byte is always added as the low one.
\<close>

theorem checksum_rfc1071:
  assumes "length buf \<le> 65535" "bo = Little_endian \<or> even (length buf)"
  shows "unat (calc_checksum bo buf) = 65535 - oc_sum bo buf"
  using calc_checksum_fold [OF assms(1), of bo] oc_sum_fold16 [OF assms(2)] by simp

definition ex_rfc1071 :: "u8 list" where
  "ex_rfc1071 = [0x00, 0x01, 0xf2, 0x03, 0xf4, 0xf5, 0xf6, 0xf7]"  \<comment> \<open>the example of RFC 1071, section 3\<close>

theorem checksum_rfc1071_witness:
  "length ex_rfc1071 \<le> 65535 \<and> unat (calc_checksum Big_endian ex_rfc1071) = 65535 - 0xddf2"
  using checksum_rfc1071 [of ex_rfc1071 Big_endian] by (simp add: ex_rfc1071_def oc_add_def)

text \<open>The odd last byte on a big endian machine.\<close>

lemma checksum_odd_big_endian: "unat (calc_checksum Big_endian [1]) \<noteq> 65535 - oc_sum Big_endian [1]"
  using calc_checksum_fold [of "[1]" Big_endian] by (simp add: fold16_def)

text \<open>C14: The packet of every IGMPv3 query that fits an IP packet is well formed: it has the length its IP header says,
  the checksum over the IP header with the router alert option and the checksum over the IGMP part both verify,
  and a host reads back from the IGMP part what the querier asked: code, group, S flag, robustness, interval
  and sources.
\<close>

theorem igmpv3_packet_wellformed:
  assumes "igmpv3_query_packet bo net ifs if_index tv gaddr s_flag slist = Some p"
    and "of_family AF_INET gaddr slist" "length slist \<le> 16374"
  shows "length p = 36 + 4 * length slist \<and> ntohs (p ! 2) (p ! 3) = length p
    \<and> calc_checksum bo (take 24 p) = 0 \<and> calc_checksum bo (drop 24 p) = 0
    \<and> read_query IGMP_RECEIVER (drop 24 p) = Some (wire_of (igmpv3_query tv gaddr s_flag slist))"
proof -
  let ?q = "igmpv3_query tv gaddr s_flag slist"
  obtain src where p: "p = igmpv3_bytes bo src ?q" using assms(1) by (auto simp: igmpv3_query_packet_def)
  let ?s = "store16 bo (calc_checksum bo (ip_head ?q @ [0, 0] @ ip_tail src ?q))"
  let ?c = "store16 bo (calc_checksum bo (igmp_head ?q @ [0, 0] @ igmp_tail ?q))"
  have l: "length (qp_srcs ?q) = length slist" "qp_size ?q = 36 + 4 * length slist" by (simp_all add: igmpv3_query_def)
  have parts: "p = (ip_head ?q @ ?s @ ip_tail src ?q) @ (igmp_head ?q @ ?c @ igmp_tail ?q)"
    unfolding p igmpv3_bytes_def Let_def ..
  have len: "length p = 36 + 4 * length slist" unfolding parts by (simp add: l)
  have td: "take 24 p = ip_head ?q @ ?s @ ip_tail src ?q" "drop 24 p = igmp_head ?q @ ?c @ igmp_tail ?q"
    unfolding parts by simp_all
  have "bytes_at p 2 (htons (qp_size ?q))" unfolding parts ip_head_def by (simp add: bytes_at_def)
  then have "ntohs (p ! 2) (p ! 3) = length p"
    using ntohs_htons [of "qp_size ?q" p 2] assms(3) by (simp add: len l numeral_3_eq_3 numeral_2_eq_2)
  moreover have "calc_checksum bo (take 24 p) = 0" unfolding td by (rule calc_checksum_verifies) simp_all
  moreover have "calc_checksum bo (drop 24 p) = 0"
    unfolding td by (rule calc_checksum_verifies) (use assms(3) in \<open>simp_all add: l\<close>)
  moreover have "read_query IGMP_RECEIVER (drop 24 p) = Some (wire_of ?q)"
    unfolding td by (rule igmp_part_read) (use assms in simp_all)
  ultimately show ?thesis using len by blast
qed

definition ex_packet :: "u8 list option" where
  "ex_packet = igmpv3_query_packet Little_endian ex_names ex_interfaces 2 new_timers_values (Addr4 0xE8000001) True
     [(Addr4 0x0A000005, new_source)]"

theorem igmpv3_packet_wellformed_witness:
  "\<exists>p. ex_packet = Some p \<and> length p = 40 \<and> calc_checksum Little_endian (take 24 p) = 0"
proof -
  obtain p where p: "ex_packet = Some p"
    by (simp add: ex_packet_def igmpv3_query_packet_def get_saddr_def ex_interfaces_def get_if_name_def ex_names_def
        get_ip4_if_def ex_ifaddrs_def)
  have "of_family AF_INET (Addr4 0xE8000001) [(Addr4 0x0A000005, new_source)]" by (simp add: of_family_def)
  from igmpv3_packet_wellformed [OF p [unfolded ex_packet_def] this] p show ?thesis by auto
qed

text \<open>C34: An MLDv2 query is read back by a host as the querier asked it, for every group and every list of
  fewer than 65536 IPv6 sources; the packet has the size that is handed to the socket, and the checksum field
  is left zero for the kernel.
\<close>

theorem mldv2_packet_roundtrip:
  assumes "of_family AF_INET6 gaddr slist" "length slist < 65536"
  shows "read_query MLD_RECEIVER (mldv2_query_packet tv gaddr s_flag slist) = Some (wire_of (mldv2_query tv gaddr s_flag slist))
    \<and> length (mldv2_query_packet tv gaddr s_flag slist) = qp_size (mldv2_query tv gaddr s_flag slist)
    \<and> bytes_at (mldv2_query_packet tv gaddr s_flag slist) 2 [0, 0]"
proof -
  have "length (mldv2_query_packet tv gaddr s_flag slist) = qp_size (mldv2_query tv gaddr s_flag slist)"
    unfolding mldv2_query_packet_def mldv2_bytes_def by (simp del: map_map) (simp add: mldv2_query_def)
  moreover have "bytes_at (mldv2_query_packet tv gaddr s_flag slist) 2 [0, 0]"
    by (simp add: mldv2_query_packet_def mldv2_bytes_def bytes_at_def)
  ultimately show ?thesis
    using mld_packet_read [OF assms] unfolding mldv2_query_packet_def by blast
qed

theorem mldv2_packet_roundtrip_witness:
  "of_family AF_INET6 (Addr6 0xFF0E0000 0 0 1) [(Addr6 0x20010DB8 0 0 5, new_source)]
    \<and> length (mldv2_query_packet new_timers_values (Addr6 0xFF0E0000 0 0 1) True [(Addr6 0x20010DB8 0 0 5, new_source)]) = 44"
proof -
  have f: "of_family AF_INET6 (Addr6 0xFF0E0000 0 0 1) [(Addr6 0x20010DB8 0 0 5, new_source)]"
    by (simp add: of_family_def)
  with mldv2_packet_roundtrip [OF f, of new_timers_values True] show ?thesis by (simp add: mldv2_query_def)
qed

text \<open>
  The padding of the hop-by-hop header is a PadN option without data on a little endian machine; on a big endian
  machine the same assignment gives a Pad1 option and the type of an option that is cut off.
\<close>

lemma hbh_padding: "drop 6 (hbh_opt_header Little_endian) = [1, 0]" "drop 6 (hbh_opt_header Big_endian) = [0, 1]"
  by (simp_all add: hbh_opt_header_def)

end
