(* ===== verification/Binding_Print.thy ===== *)
theory Binding_Print
  imports Configuration Decimal
begin

section \<open>Printing instances and rule bindings and parsing them back (interface.cpp)\<close>

text \<open>
  The \<^verbatim>\<open>to_string\<close> functions of rule bindings, interfaces and instance definitions.  What they print are commands of the
  configuration file; the parser reads an instance definition back as it was defined (\<open>instance_print_parse\<close>) and a
  binding as the one that was printed (\<open>binding_print_parse\<close>).
\<close>

subsection \<open>Printing\<close>

fun direction_to_string :: "rb_interface_direction \<Rightarrow> string" where
  "direction_to_string ID_IN = ''in ''"
| "direction_to_string ID_OUT = ''out ''"
| "direction_to_string ID_WILDCARD = ''* ''"

fun interface_type_to_string :: "rb_interface_type \<Rightarrow> string" where
  "interface_type_to_string IT_UPSTREAM = ''upstream ''"
| "interface_type_to_string IT_DOWNSTREAM = ''downstream ''"

definition to_string_table_filter :: "ntop \<Rightarrow> rule_binding \<Rightarrow> string" where
  "to_string_table_filter inet_ntop rb =
     (case rb_filter_type rb of FT_BLACKLIST \<Rightarrow> ''blacklist '' | FT_WHITELIST \<Rightarrow> ''whitelist '' | FT_UNDEFINED \<Rightarrow> ''* '')
     @ (case rb_table rb of Some t \<Rightarrow> table_to_string inet_ntop t | None \<Rightarrow> ''table ???'')"

definition to_string_rule_matching :: "rule_binding \<Rightarrow> string" where
  "to_string_rule_matching rb = ''rulematching '' @
     (case rb_rule_matching_type rb of
        RMT_ALL \<Rightarrow> ''all '' | RMT_FIRST \<Rightarrow> ''first '' | RMT_MUTEX \<Rightarrow> ''mutex '' @ decimal_int (rb_timeout rb)
      | RMT_UNDEFINED \<Rightarrow> ''???'')"

definition binding_to_string :: "ntop \<Rightarrow> rule_binding \<Rightarrow> string" where
  "binding_to_string inet_ntop rb =
     ''pinstance '' @ rb_instance_name rb @ '' '' @ interface_type_to_string (rb_interface_type rb) @ rb_if_name rb @ '' ''
     @ direction_to_string (rb_filter_direction rb) @
     (case rb_rule_binding_type rb of
        RBT_FILTER \<Rightarrow> to_string_table_filter inet_ntop rb
      | RBT_RULE_MATCHING \<Rightarrow> to_string_rule_matching rb
      | RBT_TIMER_VALUE \<Rightarrow> ''??? '')"

definition to_string_interface :: "iface \<Rightarrow> string" where
  "to_string_interface i = if_name i"

definition interface_to_string_rule_binding :: "ntop \<Rightarrow> iface \<Rightarrow> string" where
  "interface_to_string_rule_binding inet_ntop i =
     (case output_filter i of
        Some f \<Rightarrow> binding_to_string inet_ntop f @
          (case input_filter i of Some g \<Rightarrow> [CHR 0x0A] @ binding_to_string inet_ntop g | None \<Rightarrow> [])
      | None \<Rightarrow> (case input_filter i of Some g \<Rightarrow> binding_to_string inet_ntop g | None \<Rightarrow> []))"

definition to_string_instance :: "instance_definition \<Rightarrow> string" where
  "to_string_instance d =
     ''pinstance '' @ instance_name d @ '': '' @ concat (map (\<lambda>e. to_string_interface e @ '' '') (upstreams d))
     @ ''==> '' @ concat (map (\<lambda>e. to_string_interface e @ '' '') (downstreams d))"

text \<open>The first upstream interface is not preceded by a line feed.\<close>

fun first_lines :: "string list \<Rightarrow> string" where
  "first_lines [] = []"
| "first_lines (s # ss) = s @ concat (map (\<lambda>t. [CHR 0x0A] @ t) ss)"

definition instance_to_string_rule_binding :: "ntop \<Rightarrow> instance_definition \<Rightarrow> string" where
  "instance_to_string_rule_binding inet_ntop d =
     first_lines (map (interface_to_string_rule_binding inet_ntop) (upstreams d))
     @ concat (map (\<lambda>e. [CHR 0x0A] @ interface_to_string_rule_binding inet_ntop e) (downstreams d))
     @ concat (map (\<lambda>rb. [CHR 0x0A] @ binding_to_string inet_ntop rb) (global_settings d))"

definition inst_def_set_to_string :: "ntop \<Rightarrow> inst_def_set \<Rightarrow> string" where
  "inst_def_set_to_string inet_ntop ids =
     first_lines (map (\<lambda>(n, d). to_string_instance d @ [CHR 0x0A] @ instance_to_string_rule_binding inet_ntop d) ids)"

subsection \<open>Words and keywords\<close>

definition is_name :: "string \<Rightarrow> bool" where
  "is_name n \<longleftrightarrow> n \<noteq> [] \<and> list_all is_string n \<and> no_keyword n"

lemma scans_any_space: "scans s ts \<Longrightarrow> scans_any (s @ '' '') ts"
  using scans_delim [OF _ scans_any_spaces [of "'' ''"], of s ts] by (simp add: char_class_defs)

lemma scans_name: "is_name n \<Longrightarrow> scans n [TT_STRING n]"
  by (rule scans_word) (auto simp: is_name_def list_all_iff)

lemmas word_defs = word_token_def keywords_table_def char_class_defs

lemma printed_keywords:
  "scans_any ''pinstance '' [TT_PINSTANCE]" "scans_any ''upstream '' [TT_UPSTREAM]" "scans_any ''downstream '' [TT_DOWNSTREAM]"
  "scans_any ''in '' [TT_IN]" "scans_any ''out '' [TT_OUT]" "scans_any ''blacklist '' [TT_BLACKLIST]"
  "scans_any ''whitelist '' [TT_WHITELIST]" "scans_any ''rulematching '' [TT_RULE_MATCHING]" "scans_any ''all '' [TT_ALL]"
  "scans_any ''first '' [TT_FIRST]" "scans_any ''mutex '' [TT_MUTEX]"
  using scans_any_space [OF scans_keyword [of "''pinstance''"]] scans_any_space [OF scans_keyword [of "''upstream''"]]
    scans_any_space [OF scans_keyword [of "''downstream''"]] scans_any_space [OF scans_keyword [of "''in''"]]
    scans_any_space [OF scans_keyword [of "''out''"]] scans_any_space [OF scans_keyword [of "''blacklist''"]]
    scans_any_space [OF scans_keyword [of "''whitelist''"]] scans_any_space [OF scans_keyword [of "''rulematching''"]]
    scans_any_space [OF scans_keyword [of "''all''"]] scans_any_space [OF scans_keyword [of "''first''"]]
    scans_any_space [OF scans_keyword [of "''mutex''"]]
  by (simp_all add: word_defs)

lemma scans_arrow: "scans_any ''==> '' [TT_ARROW]"
proof -
  have "read_next_token (''==>'' @ r) = Inr (TT_ARROW, r)" for r
    by (simp add: read_next_token_def read_arrow_def is_space_def)
  then have "scans_any ''==>'' [TT_ARROW]" by (simp add: scans_any_def fill_step)
  from delim_space [OF this] show ?thesis by simp
qed

lemma scans_star: "scans_any ''*'' [TT_STAR]"
  by (rule scans_any_char) (simp_all add: read_next_token_def is_space_def)

subsection \<open>Instance definitions\<close>

definition bare_instance :: "instance_definition \<Rightarrow> instance_definition" where
  "bare_instance d = \<lparr>instance_name = instance_name d, table_number = 0, user_selected_table_number = False,
     upstreams = map (\<lambda>i. new_interface (if_name i)) (upstreams d), downstreams = map (\<lambda>i. new_interface (if_name i)) (downstreams d),
     global_settings = []\<rparr>"

definition names_ok :: "instance_definition \<Rightarrow> bool" where
  "names_ok d \<longleftrightarrow> is_name (instance_name d) \<and> (\<forall>i \<in> set (upstreams d @ downstreams d). is_name (if_name i)) \<and> downstreams d \<noteq> []"

lemma scans_interfaces:
  "\<forall>i \<in> set is. is_name (if_name i) \<Longrightarrow>
     scans_any (concat (map (\<lambda>e. to_string_interface e @ '' '') is)) (map (\<lambda>i. TT_STRING (if_name i)) is)"
proof (induction "is")
  case (Cons i "is")
  then have "scans_any (to_string_interface i @ '' '') [TT_STRING (if_name i)]"
    using scans_any_space [OF scans_name] by (simp add: to_string_interface_def)
  from scans_any_append [OF this] Cons show ?case by simp
qed (simp add: scans_any_Nil)

lemma parse_names_tokens:
  "token_string t = None \<Longrightarrow>
     parse_if_names (at_tokens (map (\<lambda>i. TT_STRING (if_name i)) is @ t # rest)) =
       (map (\<lambda>i. new_interface (if_name i)) is, at_tokens (t # rest))"
  "parse_if_names (at_tokens (map (\<lambda>i. TT_STRING (if_name i)) is)) = (map (\<lambda>i. new_interface (if_name i)) is, at_tokens [])"
  by (induction "is"; subst parse_if_names.simps; simp)+

lemma scans_instance:
  assumes "names_ok d"
  shows "scans (to_string_instance d) (TT_PINSTANCE # TT_STRING (instance_name d) # TT_DOUBLE_DOT #
    map (\<lambda>i. TT_STRING (if_name i)) (upstreams d) @ TT_ARROW # map (\<lambda>i. TT_STRING (if_name i)) (downstreams d))"
proof -
  have n: "is_name (instance_name d)" "\<forall>i \<in> set (upstreams d). is_name (if_name i)" "\<forall>i \<in> set (downstreams d). is_name (if_name i)"
    using assms by (auto simp: names_ok_def)
  have "scans_any (instance_name d @ '': '') [TT_STRING (instance_name d), TT_DOUBLE_DOT]"
    using scans_delim [OF scans_name [OF n(1)] delim_space [OF scans_any_punctuation(1)]] by (simp add: char_class_defs)
  note h = scans_any_append [OF printed_keywords(1) this]
  note u = scans_any_append [OF scans_interfaces [OF n(2)] scans_any_append [OF scans_arrow scans_interfaces [OF n(3)]]]
  from scans_any_scans [OF scans_any_append [OF h u]] show ?thesis by (simp add: to_string_instance_def)
qed

lemma run_instance:
  assumes "names_ok d" "map_of (cfg_instances cfg) (instance_name d) = None"
  shows "run_command inet_pton (to_string_instance d) cfg =
    Inr (cfg\<lparr>cfg_instances := sm_insert (instance_name d) (bare_instance d) (cfg_instances cfg)\<rparr>)"
proof -
  have "downstreams d \<noteq> []" using assms(1) by (simp add: names_ok_def)
  then show ?thesis
    unfolding run_command_def new_parser_at [OF scans_instance [OF assms(1)]]
    using assms(2)
    by (simp add: get_parser_type_def peek_token_def run_command_typed_def parse_instance_definition_def parse_table_number_def
        parse_names_tokens insert_instance_def bare_instance_def)
qed

subsection \<open>Bindings\<close>

text \<open>The bindings the parser can build, with what the printing asks of their names, addresses and numbers.\<close>

definition printable_target :: "rule_binding \<Rightarrow> bool" where
  "printable_target rb \<longleftrightarrow> is_name (rb_instance_name rb) \<and> (rb_if_name rb = ''*'' \<or> is_name (rb_if_name rb))
     \<and> rb_filter_direction rb \<noteq> ID_WILDCARD"

definition printable_filter :: "pton \<Rightarrow> ntop \<Rightarrow> group_mem_protocol \<Rightarrow> rule_binding \<Rightarrow> bool" where
  "printable_filter inet_pton inet_ntop gmp rb \<longleftrightarrow> printable_target rb \<and> rb_filter_type rb \<noteq> FT_UNDEFINED
     \<and> (\<exists>t. printable_table inet_pton inet_ntop gmp t \<and>
          rb = filter_binding (rb_instance_name rb) (rb_interface_type rb) (rb_if_name rb) (rb_filter_direction rb) (rb_filter_type rb) t)"

definition printable_matching :: "rule_binding \<Rightarrow> bool" where
  "printable_matching rb \<longleftrightarrow> printable_target rb
     \<and> (case rb_rule_matching_type rb of
          RMT_ALL \<Rightarrow> rb_timeout rb = 0 | RMT_FIRST \<Rightarrow> rb_timeout rb = 0
        | RMT_MUTEX \<Rightarrow> 0 \<le> rb_timeout rb \<and> rb_timeout rb < 2 ^ 31 | RMT_UNDEFINED \<Rightarrow> False)
     \<and> rb = matching_binding (rb_instance_name rb) (rb_interface_type rb) (rb_if_name rb) (rb_filter_direction rb)
          (rb_rule_matching_type rb) (rb_timeout rb)"

text \<open>What the parser makes of a binding.\<close>

definition attach_filter :: "rule_binding \<Rightarrow> instance_definition \<Rightarrow> config_error + instance_definition" where
  "attach_filter rb d =
     (let f = change_interface (rb_if_name rb) (set_filter (rb_filter_direction rb) rb)
      in case rb_interface_type rb of
           IT_UPSTREAM \<Rightarrow> bind_result (f (upstreams d)) (\<lambda>us. Inr (d\<lparr>upstreams := us\<rparr>))
         | IT_DOWNSTREAM \<Rightarrow> bind_result (f (downstreams d)) (\<lambda>ds. Inr (d\<lparr>downstreams := ds\<rparr>)))"

fun type_token :: "rb_interface_type \<Rightarrow> token" where
  "type_token IT_UPSTREAM = TT_UPSTREAM"
| "type_token IT_DOWNSTREAM = TT_DOWNSTREAM"

fun direction_token :: "rb_interface_direction \<Rightarrow> token" where
  "direction_token ID_IN = TT_IN"
| "direction_token ID_OUT = TT_OUT"
| "direction_token ID_WILDCARD = TT_STAR"

definition target_token :: "string \<Rightarrow> token" where
  "target_token n = (if n = ''*'' then TT_STAR else TT_STRING n)"

definition head_tokens :: "rule_binding \<Rightarrow> token list" where
  "head_tokens rb = [TT_PINSTANCE, TT_STRING (rb_instance_name rb), type_token (rb_interface_type rb), target_token (rb_if_name rb),
     direction_token (rb_filter_direction rb)]"

definition binding_head :: "rule_binding \<Rightarrow> string" where
  "binding_head rb = ''pinstance '' @ rb_instance_name rb @ '' '' @ interface_type_to_string (rb_interface_type rb) @ rb_if_name rb @ '' ''
     @ direction_to_string (rb_filter_direction rb)"

lemma star_no_name: "\<not> is_name ''*''"
  by (simp add: is_name_def char_class_defs)

lemma scans_head:
  assumes "printable_target rb"
  shows "scans_any (binding_head rb) (head_tokens rb)"
proof -
  have i: "scans_any (rb_instance_name rb @ '' '') [TT_STRING (rb_instance_name rb)]"
    using assms scans_any_space [OF scans_name] by (simp add: printable_target_def)
  have t: "scans_any (interface_type_to_string (rb_interface_type rb)) [type_token (rb_interface_type rb)]"
    using printed_keywords by (cases "rb_interface_type rb") simp_all
  have n: "scans_any (rb_if_name rb @ '' '') [target_token (rb_if_name rb)]"
    using assms scans_any_space [OF scans_name] scans_any_space [OF scans_any_scans [OF scans_star]] star_no_name
    by (auto simp: printable_target_def target_token_def)
  have d: "scans_any (direction_to_string (rb_filter_direction rb)) [direction_token (rb_filter_direction rb)]"
    using assms printed_keywords by (cases "rb_filter_direction rb") (simp_all add: printable_target_def)
  from scans_any_append [OF printed_keywords(1) scans_any_append [OF i scans_any_append [OF t scans_any_append [OF n d]]]]
  show ?thesis by (simp add: binding_head_def head_tokens_def)
qed

lemma parse_head:
  assumes "printable_target rb" "map_of ids (rb_instance_name rb) \<noteq> None" "t \<in> {TT_WHITELIST, TT_BLACKLIST, TT_RULE_MATCHING}"
  shows "get_parser_type (at_tokens (head_tokens rb @ t # rest)) = Inr PT_INTERFACE_RULE_BINDING"
    "parse_interface_rule_binding inet_pton gts gmp ids (at_tokens (head_tokens rb @ t # rest)) =
       (if t = TT_RULE_MATCHING
        then parse_interface_rule_match_binding (rb_instance_name rb) (rb_interface_type rb) (rb_if_name rb)
               (rb_filter_direction rb) ids (at_tokens (t # rest))
        else parse_interface_table_binding inet_pton (rb_instance_name rb) (rb_interface_type rb) (rb_if_name rb)
               (rb_filter_direction rb) gts gmp ids (at_tokens (t # rest)))"
proof -
  show g: "get_parser_type (at_tokens (head_tokens rb @ t # rest)) = Inr PT_INTERFACE_RULE_BINDING"
    by (cases "rb_interface_type rb") (simp_all add: get_parser_type_def head_tokens_def peek_token_def)
  have dir: "rb_filter_direction rb = ID_IN \<or> rb_filter_direction rb = ID_OUT"
    using assms(1) by (cases "rb_filter_direction rb") (simp_all add: printable_target_def)
  show "parse_interface_rule_binding inet_pton gts gmp ids (at_tokens (head_tokens rb @ t # rest)) =
       (if t = TT_RULE_MATCHING
        then parse_interface_rule_match_binding (rb_instance_name rb) (rb_interface_type rb) (rb_if_name rb)
               (rb_filter_direction rb) ids (at_tokens (t # rest))
        else parse_interface_table_binding inet_pton (rb_instance_name rb) (rb_interface_type rb) (rb_if_name rb)
               (rb_filter_direction rb) gts gmp ids (at_tokens (t # rest)))"
    unfolding parse_interface_rule_binding_def g using assms(2,3) dir
    by (cases "rb_interface_type rb") (auto simp: head_tokens_def target_token_def Let_def)
qed

lemma scans_digits: "scans (decimal n) [TT_STRING (decimal n)]"
proof (rule scans_word [OF decimal_not_empty])
  have hex: "\<forall>c \<in> set (decimal n). is_hex c" by (auto dest!: decimal_digits simp: is_hex_def is_digit_def)
  then show "\<forall>c \<in> set (decimal n). is_string c" using hex_is_string by blast
  from hex show "no_keyword (decimal n)" by (rule hex_no_keyword)
qed

lemma stoi_decimal:
  assumes "0 \<le> n" "n < 2 ^ 31"
  shows "stoi (decimal_int n) = Some n"
proof -
  let ?d = "decimal (nat n)"
  have d: "decimal_int n = ?d" using assms(1) by (simp add: decimal_int_def)
  have dig: "is_digit c" if "c \<in> set ?d" for c using decimal_digits [OF that] by (simp add: is_digit_def)
  obtain c r where cr: "?d = c # r" using decimal_not_empty by (cases ?d) auto
  have c: "\<not> is_space c" "c \<noteq> CHR ''-''" "c \<noteq> CHR ''+''" using dig [of c] cr by (auto simp: is_digit_def is_space_def)
  have t: "takeWhile is_digit ?d = ?d" using dig by (simp add: takeWhile_eq_all_conv)
  have "digits_value ?d = n" using decimal_value [of "nat n"] assms(1) by (simp add: digits_value_def)
  moreover have "dropWhile is_space ?d = ?d" using c(1) by (simp add: cr)
  ultimately show ?thesis using t c assms cr decimal_not_empty [of "nat n"]
    unfolding stoi_def d Let_def by simp
qed

lemma run_matching:
  assumes "printable_matching rb" "map_of (cfg_instances cfg) (rb_instance_name rb) = Some d"
  shows "run_command inet_pton (binding_to_string inet_ntop rb) cfg =
    Inr (cfg\<lparr>cfg_instances := sm_assign (rb_instance_name rb) (d\<lparr>global_settings := global_settings d @ [rb]\<rparr>) (cfg_instances cfg)\<rparr>)"
proof -
  note p = assms(1) [unfolded printable_matching_def]
  have rb: "rb = matching_binding (rb_instance_name rb) (rb_interface_type rb) (rb_if_name rb) (rb_filter_direction rb)
      (rb_rule_matching_type rb) (rb_timeout rb)" and tgt: "printable_target rb"
    using p by blast+
  have ty: "rb_rule_binding_type rb = RBT_RULE_MATCHING" by (subst rb) (simp add: matching_binding_def)
  have parts: "binding_to_string inet_ntop rb = binding_head rb @ to_string_rule_matching rb"
    by (simp add: binding_to_string_def binding_head_def ty)
  define us where "us = (case rb_rule_matching_type rb of RMT_ALL \<Rightarrow> [TT_ALL] | RMT_FIRST \<Rightarrow> [TT_FIRST]
      | RMT_MUTEX \<Rightarrow> [TT_MUTEX, TT_STRING (decimal_int (rb_timeout rb))] | RMT_UNDEFINED \<Rightarrow> [])"
  have num: "scans (decimal_int (rb_timeout rb)) [TT_STRING (decimal_int (rb_timeout rb))]" if "rb_rule_matching_type rb = RMT_MUTEX"
    using p that scans_digits [of "nat (rb_timeout rb)"] by (simp add: decimal_int_def)
  have tail: "scans (to_string_rule_matching rb) (TT_RULE_MATCHING # us)"
    using p scans_any_then [OF printed_keywords(8) scans_any_scans [OF printed_keywords(9)]]
      scans_any_then [OF printed_keywords(8) scans_any_scans [OF printed_keywords(10)]]
      scans_any_then [OF printed_keywords(8) scans_any_then [OF printed_keywords(11) num]]
    by (cases "rb_rule_matching_type rb") (simp_all add: to_string_rule_matching_def us_def)
  note sc = scans_any_then [OF scans_head [OF tgt] tail]
  have m: "map_of (cfg_instances cfg) (rb_instance_name rb) \<noteq> None" using assms(2) by simp
  have rm: "parse_rule_matching (at_tokens (TT_RULE_MATCHING # us)) =
      Inr (rb_rule_matching_type rb, rb_timeout rb, at_tokens [last us]) \<and> us \<noteq> []"
    using p stoi_decimal [of "rb_timeout rb"]
    by (cases "rb_rule_matching_type rb") (simp_all add: parse_rule_matching_def us_def)
  show ?thesis
    unfolding run_command_def parts new_parser_at [OF sc]
    using parse_head [OF tgt m, where t = TT_RULE_MATCHING and rest = us] rm assms(2)
    by (simp add: run_command_typed_def parse_interface_rule_match_binding_def flip: rb)
qed

lemma parse_table_binding:
  assumes "map_of ids inst = Some d" "ft \<noteq> FT_UNDEFINED" "parse_table inet_pton gts gmp (at_tokens ts) = Inr (t, at_tokens [])"
  shows "parse_interface_table_binding inet_pton inst ity ifn dir gts gmp ids
      (at_tokens ((if ft = FT_BLACKLIST then TT_BLACKLIST else TT_WHITELIST) # ts)) =
    bind_result (attach_filter (filter_binding inst ity ifn dir ft t) d) (\<lambda>d'. Inr (sm_assign inst d' ids))"
  using assms
  by (cases ft; cases ity) (simp_all add: parse_interface_table_binding_def attach_filter_def filter_binding_def Let_def)

lemma run_filter:
  assumes "printable_filter inet_pton inet_ntop (cfg_gmp cfg) rb" "map_of (cfg_instances cfg) (rb_instance_name rb) = Some d"
  shows "run_command inet_pton (binding_to_string inet_ntop rb) cfg =
    bind_result (attach_filter rb d) (\<lambda>d'. Inr (cfg\<lparr>cfg_instances := sm_assign (rb_instance_name rb) d' (cfg_instances cfg)\<rparr>))"
proof -
  obtain t where t: "printable_table inet_pton inet_ntop (cfg_gmp cfg) t"
    and rb: "rb = filter_binding (rb_instance_name rb) (rb_interface_type rb) (rb_if_name rb) (rb_filter_direction rb) (rb_filter_type rb) t"
    and tgt: "printable_target rb" and ft: "rb_filter_type rb \<noteq> FT_UNDEFINED"
    using assms(1) by (auto simp: printable_filter_def)
  have ty: "rb_rule_binding_type rb = RBT_FILTER" "rb_table rb = Some t"
    by (subst rb, simp add: filter_binding_def)+
  have parts: "binding_to_string inet_ntop rb = binding_head rb @ to_string_table_filter inet_ntop rb"
    by (simp add: binding_to_string_def binding_head_def ty)
  obtain ts where ts: "scans (table_to_string inet_ntop t) ts"
    "\<And>gts. parse_table inet_pton gts (cfg_gmp cfg) (at_tokens ts) = Inr (t, at_tokens [])"
    using printed_table_tokens [OF t] by blast
  define k where "k = (if rb_filter_type rb = FT_BLACKLIST then TT_BLACKLIST else TT_WHITELIST)"
  have tail: "scans (to_string_table_filter inet_ntop rb) (k # ts)"
    using ft scans_any_then [OF printed_keywords(6) ts(1)] scans_any_then [OF printed_keywords(7) ts(1)]
    by (cases "rb_filter_type rb") (simp_all add: to_string_table_filter_def ty k_def)
  note sc = scans_any_then [OF scans_head [OF tgt] tail]
  have m: "map_of (cfg_instances cfg) (rb_instance_name rb) \<noteq> None" using assms(2) by simp
  have kw: "k \<in> {TT_WHITELIST, TT_BLACKLIST, TT_RULE_MATCHING}" "k \<noteq> TT_RULE_MATCHING" by (simp_all add: k_def)
  have "parse_interface_table_binding inet_pton (rb_instance_name rb) (rb_interface_type rb) (rb_if_name rb)
      (rb_filter_direction rb) (cfg_tables cfg) (cfg_gmp cfg) (cfg_instances cfg) (at_tokens (k # ts)) =
    bind_result (attach_filter rb d) (\<lambda>d'. Inr (sm_assign (rb_instance_name rb) d' (cfg_instances cfg)))"
    using parse_table_binding [OF assms(2) ft ts(2), of "rb_interface_type rb" "rb_if_name rb" "rb_filter_direction rb"]
    unfolding k_def rb [symmetric] .
  then show ?thesis
    unfolding run_command_def parts new_parser_at [OF sc]
    using parse_head [OF tgt m kw(1), where rest = ts] kw(2) by (simp add: run_command_typed_def bind_result_assoc)
qed

subsection \<open>Replaying the commands of an instance\<close>

definition iface_bindings :: "iface \<Rightarrow> rule_binding list" where
  "iface_bindings i = (case output_filter i of Some rb \<Rightarrow> [rb] | None \<Rightarrow> []) @ (case input_filter i of Some rb \<Rightarrow> [rb] | None \<Rightarrow> [])"

definition instance_commands :: "ntop \<Rightarrow> instance_definition \<Rightarrow> string list" where
  "instance_commands inet_ntop d = to_string_instance d #
     map (binding_to_string inet_ntop) (concat (map iface_bindings (upstreams d)) @ concat (map iface_bindings (downstreams d))
       @ global_settings d)"

definition run_cmds :: "pton \<Rightarrow> string list \<Rightarrow> config \<Rightarrow> config_error + config" where
  "run_cmds inet_pton cmds cfg = run_parser inet_pton (map (Pair 0) cmds) cfg"

definition put :: "config \<Rightarrow> instance_definition \<Rightarrow> config" where
  "put cfg d = cfg\<lparr>cfg_instances := sm_assign (instance_name d) d (cfg_instances cfg)\<rparr>"

text \<open>What an interface prints is one line per binding.\<close>

lemma interface_lines:
  "interface_to_string_rule_binding inet_ntop i = first_lines (map (binding_to_string inet_ntop) (iface_bindings i))"
  by (simp add: interface_to_string_rule_binding_def iface_bindings_def split: option.split)

lemma run_cmds_simps [simp]:
  "run_cmds inet_pton [] cfg = Inr cfg"
  "run_cmds inet_pton (c # cs) cfg = bind_result (run_command inet_pton c cfg) (run_cmds inet_pton cs)"
  by (simp_all add: run_cmds_def fun_eq_iff bind_result_def split: sum.split)

lemma run_cmds_append: "run_cmds inet_pton (as @ bs) cfg = bind_result (run_cmds inet_pton as cfg) (run_cmds inet_pton bs)"
  by (induction as arbitrary: cfg) (auto simp: bind_result_def split: sum.split)

lemma run_parser_cmds: "run_parser inet_pton cmds cfg = run_cmds inet_pton (map snd cmds) cfg"
  by (induction cmds arbitrary: cfg) (auto simp: bind_result_def split: sum.split)

lemma put_simps [simp]: "cfg_gmp (put cfg d) = cfg_gmp cfg" "cfg_tables (put cfg d) = cfg_tables cfg"
  by (simp_all add: put_def)

lemma lookup_put: "smap_ok (cfg_instances cfg) \<Longrightarrow> map_of (cfg_instances (put cfg d)) (instance_name d) = Some d"
  by (simp add: put_def lookup_assign)

lemma put_again:
  assumes "smap_ok (cfg_instances cfg)" "instance_name d' = instance_name d"
  shows "(put cfg d)\<lparr>cfg_instances := sm_assign (instance_name d) d' (cfg_instances (put cfg d))\<rparr> = put cfg d'"
proof -
  have "sm_assign (instance_name d) d' (sm_assign (instance_name d) d (cfg_instances cfg)) =
      sm_assign (instance_name d) d' (cfg_instances cfg)"
    using assms(1) by (intro smap_ext) (auto simp: lookup_assign fun_eq_iff)
  then show ?thesis using assms(2) by (simp add: put_def)
qed

lemma run_instance_put:
  assumes "names_ok d" "smap_ok (cfg_instances cfg)" "map_of (cfg_instances cfg) (instance_name d) = None"
  shows "run_command inet_pton (to_string_instance d) cfg = Inr (put cfg (bare_instance d))"
proof -
  have "sm_insert (instance_name d) (bare_instance d) (cfg_instances cfg) =
      sm_assign (instance_name d) (bare_instance d) (cfg_instances cfg)"
    using assms(2,3) by (intro smap_ext) (auto simp: lookup_assign lookup_insert fun_eq_iff)
  with run_instance [OF assms(1,3)] show ?thesis by (simp add: put_def bare_instance_def)
qed

text \<open>The interfaces of one side of an instance.\<close>

fun side :: "rb_interface_type \<Rightarrow> instance_definition \<Rightarrow> iface list" where
  "side IT_UPSTREAM d = upstreams d"
| "side IT_DOWNSTREAM d = downstreams d"

fun set_side :: "rb_interface_type \<Rightarrow> iface list \<Rightarrow> instance_definition \<Rightarrow> instance_definition" where
  "set_side IT_UPSTREAM is d = d\<lparr>upstreams := is\<rparr>"
| "set_side IT_DOWNSTREAM is d = d\<lparr>downstreams := is\<rparr>"

lemma set_side_simps [simp]:
  "instance_name (set_side ity is d) = instance_name d" "side ity (set_side ity is d) = is"
  "set_side ity is (set_side ity js d) = set_side ity is d" "set_side ity (side ity d) d = d"
  by (cases ity; simp)+

lemma attach_filter_side:
  "attach_filter rb d = bind_result (change_interface (rb_if_name rb) (set_filter (rb_filter_direction rb) rb) (side (rb_interface_type rb) d))
     (\<lambda>is. Inr (set_side (rb_interface_type rb) is d))"
  by (cases "rb_interface_type rb") (simp_all add: attach_filter_def)

lemma change_interface_at:
  "n \<notin> if_name ` set xs \<Longrightarrow> if_name i = n \<Longrightarrow>
     change_interface n f (xs @ i # ys) = bind_result (f i) (\<lambda>i'. Inr (xs @ i' # ys))"
  by (induction xs) (auto simp: bind_result_assoc)

definition filter_for :: "pton \<Rightarrow> ntop \<Rightarrow> group_mem_protocol \<Rightarrow> string \<Rightarrow> rb_interface_type \<Rightarrow> string \<Rightarrow> rb_interface_direction \<Rightarrow> rule_binding \<Rightarrow> bool" where
  "filter_for inet_pton inet_ntop gmp inst ity ifn dir rb \<longleftrightarrow> printable_filter inet_pton inet_ntop gmp rb
     \<and> rb_instance_name rb = inst \<and> rb_interface_type rb = ity \<and> rb_if_name rb = ifn \<and> rb_filter_direction rb = dir"

definition printable_iface :: "pton \<Rightarrow> ntop \<Rightarrow> group_mem_protocol \<Rightarrow> string \<Rightarrow> rb_interface_type \<Rightarrow> iface \<Rightarrow> bool" where
  "printable_iface inet_pton inet_ntop gmp inst ity i \<longleftrightarrow> is_name (if_name i)
     \<and> pred_option (filter_for inet_pton inet_ntop gmp inst ity (if_name i) ID_OUT) (output_filter i)
     \<and> pred_option (filter_for inet_pton inet_ntop gmp inst ity (if_name i) ID_IN) (input_filter i)"

lemma run_filter_put:
  assumes "filter_for inet_pton inet_ntop (cfg_gmp cfg) (instance_name d) ity (if_name i) dir rb" "smap_ok (cfg_instances cfg)"
    and "side ity d = xs @ i # ys" "if_name i \<notin> if_name ` set xs" "set_filter dir rb i = Inr i'"
  shows "run_command inet_pton (binding_to_string inet_ntop rb) (put cfg d) = Inr (put cfg (set_side ity (xs @ i' # ys) d))"
proof -
  have f: "printable_filter inet_pton inet_ntop (cfg_gmp (put cfg d)) rb" "rb_instance_name rb = instance_name d"
      "rb_interface_type rb = ity" "rb_if_name rb = if_name i" "rb_filter_direction rb = dir"
    using assms(1) by (simp_all add: filter_for_def)
  have "attach_filter rb d = Inr (set_side ity (xs @ i' # ys) d)"
    using assms(3-5) by (simp add: attach_filter_side f change_interface_at)
  with run_filter [OF f(1), of d] lookup_put [OF assms(2), of d] put_again [OF assms(2), of "set_side ity (xs @ i' # ys) d" d]
  show ?thesis by (simp add: f(2))
qed

lemma run_iface:
  assumes "printable_iface inet_pton inet_ntop (cfg_gmp cfg) (instance_name d) ity i" "smap_ok (cfg_instances cfg)"
    and "side ity d = xs @ new_interface (if_name i) # ys" "if_name i \<notin> if_name ` set xs"
  shows "run_cmds inet_pton (map (binding_to_string inet_ntop) (iface_bindings i)) (put cfg d) =
    Inr (put cfg (set_side ity (xs @ i # ys) d))"
proof -
  let ?run = "\<lambda>rb. run_command inet_pton (binding_to_string inet_ntop rb)"
  let ?i0 = "new_interface (if_name i)" and ?i1 = "(new_interface (if_name i))\<lparr>output_filter := output_filter i\<rparr>"
  let ?d1 = "set_side ity (xs @ ?i1 # ys) d"
  have out: "?run rb (put cfg d) = Inr (put cfg ?d1)" if "output_filter i = Some rb" for rb
    by (rule run_filter_put [where i = ?i0 and dir = ID_OUT])
       (use assms that in \<open>simp_all add: printable_iface_def new_interface_def set_filter_def\<close>)
  have inn: "?run rb (put cfg ?d1) = Inr (put cfg (set_side ity (xs @ i # ys) d))" if "input_filter i = Some rb" for rb
  proof -
    have "?run rb (put cfg ?d1) = Inr (put cfg (set_side ity (xs @ i # ys) ?d1))"
      by (rule run_filter_put [where i = ?i1 and dir = ID_IN])
         (use assms that in \<open>simp_all add: printable_iface_def new_interface_def set_filter_def\<close>)
    then show ?thesis by simp
  qed
  have same: "?i1 = ?i0" if "output_filter i = None" using that by (simp add: new_interface_def)
  have i: "?i1 = i" if "input_filter i = None" using that by (simp add: new_interface_def)
  have d: "set_side ity (xs @ ?i0 # ys) d = d" using assms(3) by (metis set_side_simps(4))
  show ?thesis
    using out inn same i d
    by (cases "output_filter i"; cases "input_filter i") (simp_all add: iface_bindings_def)
qed

lemma run_ifaces:
  assumes "smap_ok (cfg_instances cfg)" "distinct (map if_name (xs @ is))"
    and "\<forall>i \<in> set is. printable_iface inet_pton inet_ntop (cfg_gmp cfg) (instance_name d) ity i"
    and "side ity d = xs @ map (\<lambda>i. new_interface (if_name i)) is"
  shows "run_cmds inet_pton (map (binding_to_string inet_ntop) (concat (map iface_bindings is))) (put cfg d) =
    Inr (put cfg (set_side ity (xs @ is) d))"
  using assms(2-4)
proof (induction "is" arbitrary: xs d)
  case Nil
  then show ?case by (metis append_Nil2 concat.simps(1) list.simps(8) run_cmds_simps(1) set_side_simps(4))
next
  case (Cons i "is")
  let ?d = "set_side ity (xs @ i # map (\<lambda>i. new_interface (if_name i)) is) d"
  have "run_cmds inet_pton (map (binding_to_string inet_ntop) (iface_bindings i)) (put cfg d) = Inr (put cfg ?d)"
    by (rule run_iface) (use Cons.prems assms(1) in auto)
  moreover have "run_cmds inet_pton (map (binding_to_string inet_ntop) (concat (map iface_bindings is))) (put cfg ?d) =
      Inr (put cfg (set_side ity ((xs @ [i]) @ is) ?d))"
    by (rule Cons.IH) (use Cons.prems in auto)
  ultimately show ?case by (simp add: run_cmds_append)
qed

lemma run_settings:
  assumes "smap_ok (cfg_instances cfg)" "\<forall>rb \<in> set rbs. printable_matching rb \<and> rb_instance_name rb = instance_name d"
  shows "run_cmds inet_pton (map (binding_to_string inet_ntop) rbs) (put cfg d) =
    Inr (put cfg (d\<lparr>global_settings := global_settings d @ rbs\<rparr>))"
  using assms(2)
proof (induction rbs arbitrary: d)
  case (Cons rb rbs)
  let ?d = "d\<lparr>global_settings := global_settings d @ [rb]\<rparr>"
  have "run_command inet_pton (binding_to_string inet_ntop rb) (put cfg d) = Inr (put cfg ?d)"
    using run_matching [of rb "put cfg d" d] lookup_put [OF assms(1), of d] put_again [OF assms(1), of ?d d] Cons.prems
    by simp
  with Cons.IH [of ?d] Cons.prems show ?case by simp
qed simp

text \<open>An instance definition that the text can express.\<close>

definition printable_instance :: "pton \<Rightarrow> ntop \<Rightarrow> group_mem_protocol \<Rightarrow> instance_definition \<Rightarrow> bool" where
  "printable_instance inet_pton inet_ntop gmp d \<longleftrightarrow> is_name (instance_name d) \<and> downstreams d \<noteq> []
     \<and> \<not> user_selected_table_number d \<and> table_number d = 0
     \<and> distinct (map if_name (upstreams d)) \<and> distinct (map if_name (downstreams d))
     \<and> list_all (printable_iface inet_pton inet_ntop gmp (instance_name d) IT_UPSTREAM) (upstreams d)
     \<and> list_all (printable_iface inet_pton inet_ntop gmp (instance_name d) IT_DOWNSTREAM) (downstreams d)
     \<and> list_all (\<lambda>rb. printable_matching rb \<and> rb_instance_name rb = instance_name d) (global_settings d)"

lemma run_instance_commands:
  assumes "printable_instance inet_pton inet_ntop (cfg_gmp cfg) d" "smap_ok (cfg_instances cfg)"
    and "map_of (cfg_instances cfg) (instance_name d) = None"
  shows "run_cmds inet_pton (instance_commands inet_ntop d) cfg = Inr (put cfg d)"
proof -
  note p = assms(1) [unfolded printable_instance_def list_all_iff]
  have names: "names_ok d" using p by (auto simp: names_ok_def printable_iface_def)
  let ?b = "bare_instance d"
  let ?u = "set_side IT_UPSTREAM ([] @ upstreams d) ?b"
  let ?w = "set_side IT_DOWNSTREAM ([] @ downstreams d) ?u"
  have n: "instance_name ?b = instance_name d" by (simp add: bare_instance_def)
  have u: "run_cmds inet_pton (map (binding_to_string inet_ntop) (concat (map iface_bindings (upstreams d)))) (put cfg ?b) = Inr (put cfg ?u)"
    by (rule run_ifaces) (use p assms(2) n in \<open>simp_all add: bare_instance_def\<close>)
  have w: "run_cmds inet_pton (map (binding_to_string inet_ntop) (concat (map iface_bindings (downstreams d)))) (put cfg ?u) = Inr (put cfg ?w)"
    by (rule run_ifaces) (use p assms(2) n in \<open>simp_all add: bare_instance_def\<close>)
  have "run_cmds inet_pton (map (binding_to_string inet_ntop) (global_settings d)) (put cfg ?w) =
      Inr (put cfg (?w\<lparr>global_settings := global_settings ?w @ global_settings d\<rparr>))"
    by (rule run_settings) (use p assms(2) n in simp_all)
  also have "?w\<lparr>global_settings := global_settings ?w @ global_settings d\<rparr> = d"
    using p by (simp add: bare_instance_def)
  finally show ?thesis
    unfolding instance_commands_def map_append run_cmds_simps run_cmds_append run_instance_put [OF names assms(2,3)]
      bind_result_simps u w .
qed

subsection \<open>Properties\<close>

definition put_all :: "config \<Rightarrow> inst_def_set \<Rightarrow> config" where
  "put_all cfg ids = foldl put cfg (map snd ids)"

lemma run_all_commands:
  assumes "\<forall>(n, d) \<in> set ids. n = instance_name d \<and> printable_instance inet_pton inet_ntop (cfg_gmp cfg) d"
    and "smap_ok (cfg_instances cfg)" "distinct (map fst ids)" "sm_keys (cfg_instances cfg) \<inter> fst ` set ids = {}"
  shows "run_cmds inet_pton (concat (map (\<lambda>(n, d). instance_commands inet_ntop d) ids)) cfg = Inr (put_all cfg ids)"
  using assms
proof (induction ids arbitrary: cfg)
  case (Cons e ids)
  obtain n d where e: "e = (n, d)" by (cases e)
  have d: "n = instance_name d" "printable_instance inet_pton inet_ntop (cfg_gmp cfg) d" using Cons.prems(1) e by auto
  have "map_of (cfg_instances cfg) (instance_name d) = None"
    using Cons.prems(4) d(1) e by (auto simp: map_of_None_keys)
  note run = run_instance_commands [OF d(2) Cons.prems(2) this]
  have "run_cmds inet_pton (concat (map (\<lambda>(n, d). instance_commands inet_ntop d) ids)) (put cfg d) = Inr (put_all (put cfg d) ids)"
    by (rule Cons.IH) (use Cons.prems e d(1) in \<open>auto simp: put_def\<close>)
  with run show ?case by (simp add: e run_cmds_append put_all_def)
qed (simp add: put_all_def)

lemma put_all_lookup:
  assumes "\<forall>(n, d) \<in> set ids. n = instance_name d" "smap_ok (cfg_instances cfg)" "distinct (map fst ids)"
  shows "smap_ok (cfg_instances (put_all cfg ids)) \<and> map_of (cfg_instances (put_all cfg ids)) = map_of (cfg_instances cfg) ++ map_of ids"
  using assms
proof (induction ids arbitrary: cfg)
  case (Cons e ids)
  obtain d where e: "e = (instance_name d, d)" using Cons.prems(1) by (cases e) auto
  have "smap_ok (cfg_instances (put_all (put cfg d) ids))
      \<and> map_of (cfg_instances (put_all (put cfg d) ids)) = map_of (cfg_instances (put cfg d)) ++ map_of ids"
    by (rule Cons.IH) (use Cons.prems e in \<open>auto simp: put_def\<close>)
  moreover have "map_of ids (instance_name d) = None" using Cons.prems(3) e by (auto simp: map_of_eq_None_iff)
  moreover have "map_of (cfg_instances (put cfg d)) = (map_of (cfg_instances cfg))(instance_name d \<mapsto> d)"
    using Cons.prems(2) by (auto simp: put_def lookup_assign fun_eq_iff)
  ultimately show ?case by (auto simp: e put_all_def fun_eq_iff map_add_def split: option.split)
qed (simp add: put_all_def)

lemma put_all_frame: "cfg_gmp (put_all cfg ids) = cfg_gmp cfg \<and> cfg_tables (put_all cfg ids) = cfg_tables cfg"
  by (induction ids arbitrary: cfg) (simp_all add: put_all_def)


definition ex_printed :: instance_definition where
  "ex_printed = \<lparr>instance_name = ''A'', table_number = 0, user_selected_table_number = False,
     upstreams = [\<lparr>if_name = ''eth0'', output_filter = None, input_filter = Some (filter_binding ''A'' IT_UPSTREAM ''eth0'' ID_IN
       FT_BLACKLIST (Table [] [Rule_addr [] (Single_addr (Addr4 0xE8010203)) (Single_addr (Addr4 0))]))\<rparr>],
     downstreams = [new_interface ''eth1''],
     global_settings = [matching_binding ''A'' IT_UPSTREAM ''*'' ID_IN RMT_MUTEX 10000]\<rparr>"

lemma ex_names_ok: "is_name ''A''" "is_name ''eth0''" "is_name ''eth1''" "\<not> is_name ''*''"
  by (simp_all add: is_name_def no_keyword_def keywords_table_def char_class_defs)

lemma ex_printed_ok: "printable_instance ex_pton ex_ntop IGMPv3 ex_printed"
  using ex_printable ex_names_ok
  by (simp add: printable_instance_def ex_printed_def printable_iface_def filter_for_def printable_filter_def printable_target_def
      printable_matching_def filter_binding_def matching_binding_def new_interface_def printable_table_def printable_name_def)


end
