(* ===== verification/Rp_Filter.thy ===== *)
theory Rp_Filter
  imports Interfaces
begin

section \<open>The reverse path filter (reverse_path_filter.cpp)\<close>

text \<open>
  The switch that turns the reverse path filter of the used interfaces off and on again.  The state is the set of
  interfaces to restore and the flag for the pseudo interface \<^verbatim>\<open>all\<close>; the files of the proc file system are a map from paths to
  contents, of which some can be opened for writing.
\<close>

record rp_files =
  rp_content :: "string \<rightharpoonup> string"
  rp_writable :: "string \<Rightarrow> bool"

record reverse_path_filter =
  m_used_earlier :: bool
  m_restore_if_state :: "(string, unit) smap"

definition new_reverse_path_filter :: reverse_path_filter where
  "new_reverse_path_filter = \<lparr>m_used_earlier = False, m_restore_if_state = []\<rparr>"

definition rp_path :: "string \<Rightarrow> string" where
  "rp_path if_name = ''/proc/sys/net/ipv4/conf/'' @ if_name @ ''/rp_filter''"

text \<open>\<^verbatim>\<open>get_rp_filter\<close> converts the character it reads to \<^verbatim>\<open>bool\<close>: every character but a zero byte is true, also \<open>0\<close>,
  and so is the end of the file.\<close>

definition get_rp_filter :: "rp_files \<Rightarrow> string \<Rightarrow> bool" where
  "get_rp_filter fs if_name =
     (case rp_content fs (rp_path if_name) of
        None \<Rightarrow> False
      | Some [] \<Rightarrow> True
      | Some (c # s) \<Rightarrow> c \<noteq> CHR 0x00)"

definition set_rp_filter :: "string \<Rightarrow> bool \<Rightarrow> rp_files \<Rightarrow> bool \<times> rp_files" where
  "set_rp_filter if_name set_to fs =
     (if rp_writable fs (rp_path if_name)
      then (True, fs\<lparr>rp_content := (rp_content fs)(rp_path if_name \<mapsto> (if set_to then ''1'' else ''0''))\<rparr>)
      else (False, fs))"

text \<open>\<^verbatim>\<open>reset_rp_filter\<close> calls itself once, for the pseudo interface.\<close>

definition reset_one :: "string \<Rightarrow> reverse_path_filter \<Rightarrow> rp_files \<Rightarrow> bool \<times> reverse_path_filter \<times> rp_files" where
  "reset_one if_name r fs =
     (if get_rp_filter fs if_name then
        (let (rc, fs) = set_rp_filter if_name False fs
         in if rc then (True, r\<lparr>m_restore_if_state := sm_insert if_name () (m_restore_if_state r)\<rparr>, fs) else (False, r, fs))
      else (False, r, fs))"

definition reset_rp_filter :: "string \<Rightarrow> reverse_path_filter \<Rightarrow> rp_files \<Rightarrow> reverse_path_filter \<times> rp_files" where
  "reset_rp_filter if_name r fs =
     (let (rc, r, fs) = reset_one if_name r fs
      in if rc \<and> \<not> m_used_earlier r then snd (reset_one ''all'' (r\<lparr>m_used_earlier := True\<rparr>) fs) else (r, fs))"

definition restore_rp_filter :: "string \<Rightarrow> reverse_path_filter \<Rightarrow> rp_files \<Rightarrow> reverse_path_filter \<times> rp_files" where
  "restore_rp_filter if_name r fs =
     (if sm_mem if_name (m_restore_if_state r)
      then (r\<lparr>m_restore_if_state := sm_erase if_name (m_restore_if_state r)\<rparr>, snd (set_rp_filter if_name True fs))
      else (r, fs))"

text \<open>The destructor restores all interfaces of the set.\<close>

definition restore_all :: "reverse_path_filter \<Rightarrow> rp_files \<Rightarrow> rp_files" where
  "restore_all r fs = fold (\<lambda>e fs. snd (set_rp_filter (fst e) True fs)) (m_restore_if_state r) fs"

text \<open>Runs of an object from its construction on, with the files as they were then.\<close>

inductive rp_run :: "rp_files \<Rightarrow> reverse_path_filter \<Rightarrow> rp_files \<Rightarrow> bool" for fs0 where
  rp_new: "rp_run fs0 new_reverse_path_filter fs0"
| rp_reset: "rp_run fs0 r fs \<Longrightarrow> reset_rp_filter n r fs = (r', fs') \<Longrightarrow> rp_run fs0 r' fs'"
| rp_restore: "rp_run fs0 r fs \<Longrightarrow> restore_rp_filter n r fs = (r', fs') \<Longrightarrow> rp_run fs0 r' fs'"

lemma rp_path_inj: "rp_path n = rp_path m \<longleftrightarrow> n = m"
  by (simp add: rp_path_def)

text \<open>The filters that are off and were not off before are those of the set, whose files can be written.\<close>

definition rp_inv :: "rp_files \<Rightarrow> reverse_path_filter \<Rightarrow> rp_files \<Rightarrow> bool" where
  "rp_inv fs0 r fs \<longleftrightarrow> rp_writable fs = rp_writable fs0
     \<and> (\<forall>n \<in> sm_keys (m_restore_if_state r). rp_writable fs0 (rp_path n))
     \<and> (\<forall>p. p \<notin> rp_path ` sm_keys (m_restore_if_state r) \<longrightarrow> rp_content fs p = rp_content fs0 p \<or> rp_content fs p = Some ''1'')"

lemma rp_inv_reset_one: "rp_inv fs0 r fs \<Longrightarrow> reset_one n r fs = (rc, r', fs') \<Longrightarrow> rp_inv fs0 r' fs'"
  by (auto simp: reset_one_def set_rp_filter_def rp_inv_def split: if_splits; blast)

lemma rp_run_inv: "rp_run fs0 r fs \<Longrightarrow> rp_inv fs0 r fs"
proof (induction rule: rp_run.induct)
  case rp_new
  show ?case by (simp add: rp_inv_def new_reverse_path_filter_def)
next
  case (rp_reset r fs n r' fs')
  obtain rc r1 fs1 where 1: "reset_one n r fs = (rc, r1, fs1)" by (metis prod_cases3)
  note i = rp_inv_reset_one [OF rp_reset.IH 1]
  then have "rp_inv fs0 (r1\<lparr>m_used_earlier := True\<rparr>) fs1" by (simp add: rp_inv_def)
  from rp_inv_reset_one [OF this] i rp_reset.hyps(2) 1 show ?case
    by (cases "reset_one ''all'' (r1\<lparr>m_used_earlier := True\<rparr>) fs1") (auto simp: reset_rp_filter_def split: if_splits)
next
  case (rp_restore r fs n r' fs')
  then show ?case
    by (auto simp: restore_rp_filter_def set_rp_filter_def rp_inv_def rp_path_inj image_iff split: if_splits; blast)
qed

lemma restore_fold:
  "(\<forall>e \<in> set l. rp_writable fs (rp_path (fst e))) \<Longrightarrow>
   rp_content (fold (\<lambda>e fs. snd (set_rp_filter (fst e) True fs)) l fs) p =
     (if p \<in> rp_path ` fst ` set l then Some ''1'' else rp_content fs p)"
  by (induction l arbitrary: fs) (auto simp: set_rp_filter_def)

text \<open>Whatever sequence of resets and restores is run, the destructor leaves every file as it was or with the filter
  turned on; so no interface stays without a filter that had one.\<close>

lemma rp_filters_restored:
  assumes "rp_run fs0 r fs"
  shows "rp_content (restore_all r fs) p = rp_content fs0 p \<or> rp_content (restore_all r fs) p = Some ''1''"
proof -
  have inv: "rp_inv fs0 r fs" using assms by (rule rp_run_inv)
  then have "\<forall>e \<in> set (m_restore_if_state r). rp_writable fs (rp_path (fst e))" by (auto simp: rp_inv_def sm_keys_def)
  from restore_fold [OF this, of p] inv show ?thesis by (auto simp: restore_all_def rp_inv_def sm_keys_def)
qed

text \<open>But a filter that was off before is turned on, since \<^verbatim>\<open>get_rp_filter\<close> takes the character \<open>0\<close> for true.\<close>

definition ex_files :: rp_files where
  "ex_files = \<lparr>rp_content = [rp_path ''eth0'' \<mapsto> ''0''], rp_writable = \<lambda>p. True\<rparr>"

lemma rp_filter_turned_on:
  "let (r, fs) = reset_rp_filter ''eth0'' new_reverse_path_filter ex_files
   in rp_content (restore_all r fs) (rp_path ''eth0'') = Some ''1''"
  by (simp add: reset_rp_filter_def reset_one_def get_rp_filter_def set_rp_filter_def ex_files_def new_reverse_path_filter_def
      restore_all_def rp_path_def)

end
