(* ===== verification/Config_Map.thy ===== *)
theory Config_Map
  imports Configuration
begin

section \<open>Settings of the tester (config_map.hpp, config_map.cpp)\<close>

text \<open>
  The INI file of the test program: sections of key/value pairs, kept in a map of maps.  A line is matched against
  three regular expressions, modelled as functions on strings; since their character classes are disjoint from what
  follows them, the longest match of each part is the only one, and the theorem \<open>ini_regexes\<close> shows that each function finds
  exactly the decompositions that its regular expression describes.  \<^verbatim>\<open>std::runtime_error\<close> is the left value of a sum.
\<close>

datatype ini_error =
  Section_defined string | Key_outside_section | Key_defined string | File_not_found string

type_synonym config_section = "(string, string) smap"
type_synonym config_map = "(string, config_section) smap"

subsection \<open>Access\<close>

definition has_group :: "config_map \<Rightarrow> string \<Rightarrow> bool" where
  "has_group cm grp = sm_mem grp cm"

definition cm_get :: "config_map \<Rightarrow> string \<Rightarrow> string \<Rightarrow> string" where
  "cm_get cm grp key =
     (case map_of cm grp of
        Some kv \<Rightarrow> (case map_of kv key of Some v \<Rightarrow> v | None \<Rightarrow> [])
      | None \<Rightarrow> [])"

text \<open>\<^verbatim>\<open>operator[]\<close>; the left value stands for \<^verbatim>\<open>std::range_error\<close>.\<close>

definition cm_at :: "config_map \<Rightarrow> string \<Rightarrow> string + config_section" where
  "cm_at cm grp = (case map_of cm grp of None \<Rightarrow> Inl (''unknown group: '' @ grp) | Some kv \<Rightarrow> Inr kv)"

definition cm_size :: "config_map \<Rightarrow> nat" where
  "cm_size cm = length cm"

subsection \<open>The regular expressions\<close>

definition is_name_char :: "char \<Rightarrow> bool" where
  "is_name_char c \<longleftrightarrow> is_alpha c \<or> is_digit c \<or> c = CHR ''.'' \<or> c = CHR ''_''"

definition is_value_char :: "char \<Rightarrow> bool" where
  "is_value_char c \<longleftrightarrow> is_name_char c \<or> c = CHR ''/''"

text \<open>The end of all of them: white space and a comment.\<close>

definition rx_tail :: "string \<Rightarrow> bool" where
  "rx_tail s = (case dropWhile is_space s of [] \<Rightarrow> True | c # r \<Rightarrow> c = CHR '';'')"

definition rx_section :: "string \<Rightarrow> string list option" where
  "rx_section line =
     (case line of
        [] \<Rightarrow> None
      | b # r \<Rightarrow>
          (let name = takeWhile is_name_char r
           in case dropWhile is_name_char r of
                [] \<Rightarrow> None
              | c # t \<Rightarrow> if b = CHR ''['' \<and> name \<noteq> [] \<and> c = CHR '']'' \<and> rx_tail t then Some [name] else None))"

text \<open>The common beginning of the two expressions for pairs: the key and what follows the equals sign.\<close>

definition rx_key :: "string \<Rightarrow> (string \<times> string) option" where
  "rx_key line =
     (let key = takeWhile is_name_char line
      in case dropWhile is_space (dropWhile is_name_char line) of
           [] \<Rightarrow> None
         | c # r \<Rightarrow> if key \<noteq> [] \<and> c = CHR ''='' then Some (key, dropWhile is_space r) else None)"

definition rx_value :: "string \<Rightarrow> string list option" where
  "rx_value line =
     (case rx_key line of
        None \<Rightarrow> None
      | Some (key, r) \<Rightarrow>
          (let v = takeWhile is_value_char r
           in if v \<noteq> [] \<and> rx_tail (dropWhile is_value_char r) then Some [key, v] else None))"

definition rx_string :: "string \<Rightarrow> string list option" where
  "rx_string line =
     (case rx_key line of
        Some (key, q # r) \<Rightarrow>
          (let v = takeWhile (\<lambda>c. c \<noteq> CHR 0x22) r
           in case dropWhile (\<lambda>c. c \<noteq> CHR 0x22) r of
                [] \<Rightarrow> None
              | c # t \<Rightarrow> if q = CHR 0x22 \<and> v \<noteq> [] \<and> rx_tail t then Some [key, v] else None)
      | _ \<Rightarrow> None)"

subsection \<open>Reading\<close>

type_synonym regex_handler = "string list \<Rightarrow> config_map \<Rightarrow> string \<Rightarrow> ini_error + (config_map \<times> string)"

definition new_section :: regex_handler where
  "new_section sm cm sec =
     (let sec_name = sm ! 0
      in if sm_mem sec_name cm then Inl (Section_defined sec_name)
         else Inr (sm_insert sec_name [] cm, sec_name))"

text \<open>\<^verbatim>\<open>cm[sec]\<close> inserts an empty section when there is none.\<close>

definition add_key_value_pair :: regex_handler where
  "add_key_value_pair sm cm sec =
     (if sec = [] then Inl Key_outside_section
      else
        (let key = sm ! 0; value = sm ! 1;
             kv_map = (case map_of cm sec of Some kv \<Rightarrow> kv | None \<Rightarrow> [])
         in if sm_mem key kv_map then Inl (Key_defined key)
            else Inr (sm_assign sec (sm_assign key value kv_map) cm, sec)))"

fun matches ::
  "((string \<Rightarrow> string list option) \<times> regex_handler) list \<Rightarrow> string \<Rightarrow> config_map \<Rightarrow> string \<Rightarrow>
     ini_error + (bool \<times> config_map \<times> string)" where
  "matches [] line ini_map section = Inr (False, ini_map, section)"
| "matches ((rx, handler) # vec) line ini_map section =
     (case rx line of
        Some sm \<Rightarrow> (case handler sm ini_map section of Inl e \<Rightarrow> Inl e | Inr r \<Rightarrow> Inr (True, r))
      | None \<Rightarrow> matches vec line ini_map section)"

definition rx_handlers :: "((string \<Rightarrow> string list option) \<times> regex_handler) list" where
  "rx_handlers = [(rx_section, new_section), (rx_value, add_key_value_pair), (rx_string, add_key_value_pair)]"

text \<open>The loop over the lines; the last component collects the numbers of the lines reported as not parsed.\<close>

fun read_lines :: "nat \<Rightarrow> string list \<Rightarrow> config_map \<Rightarrow> string \<Rightarrow> ini_error + (config_map \<times> nat list)" where
  "read_lines line_count [] cm section = Inr (cm, [])"
| "read_lines line_count (line # ls) cm section =
     (let line_count = Suc line_count
      in if line = [] \<or> line ! 0 = CHR '';'' then read_lines line_count ls cm section
         else
           (case matches rx_handlers line cm section of
              Inl e \<Rightarrow> Inl e
            | Inr (True, cm, section) \<Rightarrow> read_lines line_count ls cm section
            | Inr (False, cm, section) \<Rightarrow>
                (case read_lines line_count ls cm section of
                   Inl e \<Rightarrow> Inl e | Inr (cm, bad) \<Rightarrow> Inr (cm, line_count # bad))))"

text \<open>The file system is an argument: \<open>None\<close> for a file that cannot be opened.\<close>

definition read_ini :: "(string \<Rightarrow> string option) \<Rightarrow> string \<Rightarrow> config_map \<Rightarrow> ini_error + (config_map \<times> nat list)" where
  "read_ini files filename cm =
     (case files filename of
        None \<Rightarrow> Inl (File_not_found filename)
      | Some content \<Rightarrow> read_lines 0 (getlines (CHR 0x0A) content) cm [])"

subsection \<open>What the regular expressions describe\<close>

text \<open>\<open>^ head tail$\<close> with white space and an optional comment at the end.\<close>

definition rx_end :: "string \<Rightarrow> bool" where
  "rx_end s \<longleftrightarrow> (\<exists>sp c. s = sp @ c \<and> list_all is_space sp \<and> (c = [] \<or> hd c = CHR '';''))"

lemma rx_tail_end: "rx_tail s \<longleftrightarrow> rx_end s"
proof
  assume "rx_tail s"
  moreover have "s = takeWhile is_space s @ dropWhile is_space s" by simp
  moreover have "list_all is_space (takeWhile is_space s)" by (auto simp: list_all_iff dest: set_takeWhileD)
  ultimately show "rx_end s" unfolding rx_tail_def rx_end_def
    by (intro exI [of _ "takeWhile is_space s"] exI [of _ "dropWhile is_space s"]) (auto split: list.splits)
next
  assume "rx_end s"
  then obtain sp c where s: "s = sp @ c" "list_all is_space sp" "c = [] \<or> hd c = CHR '';''" by (auto simp: rx_end_def)
  from s have "dropWhile is_space s = dropWhile is_space c"
    by (cases "c = []") (simp_all add: list_all_iff dropWhile_append2 dropWhile_eq_Nil_conv [THEN iffD2])
  moreover have "\<not> is_space CHR '';''" by (simp add: is_space_def)
  ultimately show "rx_tail s" unfolding rx_tail_def using s(3) by (cases c) (auto simp del: dropWhile_eq_Nil_conv)
qed

text \<open>A part of an expression that repeats a class of characters, followed by something that does not begin with one of the class.\<close>

lemma span_unique:
  "(list_all P xs \<and> (ys = [] \<or> \<not> P (hd ys)) \<and> s = xs @ ys) \<longleftrightarrow> xs = takeWhile P s \<and> ys = dropWhile P s"
proof
  assume *: "list_all P xs \<and> (ys = [] \<or> \<not> P (hd ys)) \<and> s = xs @ ys"
  then show "xs = takeWhile P s \<and> ys = dropWhile P s"
  proof (cases ys)
    case Nil
    with * have "\<forall>x \<in> set s. P x" "xs = s" by (simp_all add: list_all_iff)
    with Nil show ?thesis by (metis takeWhile_eq_all_conv dropWhile_eq_Nil_conv)
  qed (auto simp: list_all_iff takeWhile_append2 dropWhile_append2)
next
  assume "xs = takeWhile P s \<and> ys = dropWhile P s"
  then show "list_all P xs \<and> (ys = [] \<or> \<not> P (hd ys)) \<and> s = xs @ ys"
    using hd_dropWhile [of P s] by (auto simp: list_all_iff simp del: dropWhile_eq_Nil_conv dest: set_takeWhileD)
qed

lemma name_not_space: "is_name_char c \<Longrightarrow> \<not> is_space c \<and> c \<noteq> CHR ''='' \<and> c \<noteq> CHR '']'' \<and> c \<noteq> CHR 0x22"
  by (auto simp: is_name_char_def is_alpha_def is_upper_def is_digit_def is_space_def)

lemma value_not_space: "is_value_char c \<Longrightarrow> \<not> is_space c \<and> c \<noteq> CHR '';'' \<and> c \<noteq> CHR 0x22"
  by (auto simp: is_value_char_def is_name_char_def is_alpha_def is_upper_def is_digit_def is_space_def)

lemma space_not: "is_space c \<Longrightarrow> \<not> is_name_char c \<and> \<not> is_value_char c \<and> c \<noteq> CHR ''='' \<and> c \<noteq> CHR 0x22 \<and> c \<noteq> CHR '';''"
  using name_not_space value_not_space by (auto simp: is_space_def)


lemma rx_end_hd: "rx_end t \<Longrightarrow> t = [] \<or> is_space (hd t) \<or> hd t = CHR '';''"
proof -
  assume "rx_end t"
  then obtain sp c where "t = sp @ c" "list_all is_space sp" "c = [] \<or> hd c = CHR '';''" by (auto simp: rx_end_def)
  then show ?thesis by (cases sp) auto
qed

lemma rx_section_iff:
  "rx_section line = Some sm \<longleftrightarrow>
     (\<exists>n t. line = CHR ''['' # n @ CHR '']'' # t \<and> n \<noteq> [] \<and> list_all is_name_char n \<and> rx_end t \<and> sm = [n])"
  (is "_ \<longleftrightarrow> ?R")
proof
  assume "rx_section line = Some sm"
  then obtain r t where "line = CHR ''['' # r" "dropWhile is_name_char r = CHR '']'' # t" "takeWhile is_name_char r \<noteq> []"
    "rx_tail t" "sm = [takeWhile is_name_char r]"
    by (auto simp: rx_section_def Let_def split: list.splits if_splits)
  then show ?R
    using span_unique [of is_name_char "takeWhile is_name_char r" "CHR '']'' # t" r]
    by (intro exI [of _ "takeWhile is_name_char r"] exI [of _ t]) (auto simp: rx_tail_end)
next
  assume ?R
  then obtain n t where *: "line = CHR ''['' # n @ CHR '']'' # t" "n \<noteq> []" "list_all is_name_char n" "rx_end t" "sm = [n]" by blast
  from * span_unique [of is_name_char n "CHR '']'' # t" "n @ CHR '']'' # t"]
  have "takeWhile is_name_char (n @ CHR '']'' # t) = n" "dropWhile is_name_char (n @ CHR '']'' # t) = CHR '']'' # t"
    using name_not_space by auto
  with * show "rx_section line = Some sm" by (simp add: rx_section_def rx_tail_end)
qed

lemma rx_key_iff:
  "rx_key line = Some (k, r) \<longleftrightarrow>
     (\<exists>s1 s2. line = k @ s1 @ CHR ''='' # s2 @ r \<and> k \<noteq> [] \<and> list_all is_name_char k \<and> list_all is_space s1
       \<and> list_all is_space s2 \<and> (r = [] \<or> \<not> is_space (hd r)))"
  (is "_ \<longleftrightarrow> ?R")
proof
  let ?d = "dropWhile is_name_char line"
  assume "rx_key line = Some (k, r)"
  then obtain r' where *: "dropWhile is_space ?d = CHR ''='' # r'" "k = takeWhile is_name_char line" "k \<noteq> []" "r = dropWhile is_space r'"
    by (auto simp: rx_key_def Let_def split: list.splits if_splits)
  from * span_unique [of is_name_char k ?d line] span_unique [of is_space "takeWhile is_space ?d" "CHR ''='' # r'" ?d]
    span_unique [of is_space "takeWhile is_space r'" r r']
  show ?R by (intro exI [of _ "takeWhile is_space ?d"] exI [of _ "takeWhile is_space r'"]) simp
next
  assume ?R
  then obtain s1 s2 where *: "line = k @ s1 @ CHR ''='' # s2 @ r" "k \<noteq> []" "list_all is_name_char k" "list_all is_space s1"
    "list_all is_space s2" "r = [] \<or> \<not> is_space (hd r)" by blast
  have eq: "\<not> is_name_char CHR ''=''" "\<not> is_space CHR ''=''" by (auto dest: name_not_space space_not)
  have "\<not> is_name_char (hd (s1 @ CHR ''='' # s2 @ r))" using * eq space_not by (cases s1) auto
  with * span_unique [of is_name_char k "s1 @ CHR ''='' # s2 @ r" line]
  have "takeWhile is_name_char line = k" "dropWhile is_name_char line = s1 @ CHR ''='' # s2 @ r" by auto
  moreover have "dropWhile is_space (s1 @ CHR ''='' # s2 @ r) = CHR ''='' # s2 @ r" "dropWhile is_space (s2 @ r) = r"
    using * eq span_unique [of is_space s1 "CHR ''='' # s2 @ r" "s1 @ CHR ''='' # s2 @ r"] span_unique [of is_space s2 r "s2 @ r"] by auto
  ultimately show "rx_key line = Some (k, r)" using * by (simp add: rx_key_def)
qed

lemma rx_value_iff:
  "rx_value line = Some sm \<longleftrightarrow>
     (\<exists>k r v t. rx_key line = Some (k, r) \<and> r = v @ t \<and> v \<noteq> [] \<and> list_all is_value_char v \<and> rx_end t \<and> sm = [k, v])"
  (is "_ \<longleftrightarrow> ?R")
proof
  assume "rx_value line = Some sm"
  then obtain k r where *: "rx_key line = Some (k, r)" "takeWhile is_value_char r \<noteq> []" "rx_tail (dropWhile is_value_char r)"
    "sm = [k, takeWhile is_value_char r]" by (auto simp: rx_value_def Let_def split: option.splits if_splits)
  with span_unique [of is_value_char "takeWhile is_value_char r" "dropWhile is_value_char r" r]
  show ?R by (intro exI [of _ k] exI [of _ r] exI [of _ "takeWhile is_value_char r"] exI [of _ "dropWhile is_value_char r"])
      (simp add: rx_tail_end)
next
  assume ?R
  then obtain k v t where *: "rx_key line = Some (k, v @ t)" "v \<noteq> []" "list_all is_value_char v" "rx_end t" "sm = [k, v]" by blast
  from rx_end_hd [OF *(4)] have "t = [] \<or> \<not> is_value_char (hd t)" using space_not value_not_space by blast
  with * span_unique [of is_value_char v t "v @ t"] show "rx_value line = Some sm" by (simp add: rx_value_def rx_tail_end)
qed

lemma rx_string_iff:
  "rx_string line = Some sm \<longleftrightarrow>
     (\<exists>k v t. rx_key line = Some (k, CHR 0x22 # v @ CHR 0x22 # t) \<and> v \<noteq> [] \<and> CHR 0x22 \<notin> set v \<and> rx_end t \<and> sm = [k, v])"
  (is "_ \<longleftrightarrow> ?R")
proof
  assume "rx_string line = Some sm"
  then obtain k r c t where *: "rx_key line = Some (k, CHR 0x22 # r)" "takeWhile (\<lambda>c. c \<noteq> CHR 0x22) r \<noteq> []"
    "dropWhile (\<lambda>c. c \<noteq> CHR 0x22) r = c # t" "rx_tail t" "sm = [k, takeWhile (\<lambda>c. c \<noteq> CHR 0x22) r]"
    by (auto simp: rx_string_def Let_def split: option.splits list.splits if_splits)
  define v where "v = takeWhile (\<lambda>c. c \<noteq> CHR 0x22) r"
  have "c = CHR 0x22" using *(3) hd_dropWhile [of "\<lambda>c. c \<noteq> CHR 0x22" r] by simp
  with *(3) have "r = v @ CHR 0x22 # t" unfolding v_def by (metis takeWhile_dropWhile_id)
  moreover have "CHR 0x22 \<notin> set v" unfolding v_def by (blast dest: set_takeWhileD)
  ultimately show ?R using * unfolding v_def [symmetric] rx_tail_end by blast
next
  assume ?R
  then obtain k v t where *: "rx_key line = Some (k, CHR 0x22 # v @ CHR 0x22 # t)" "v \<noteq> []" "CHR 0x22 \<notin> set v" "rx_end t" "sm = [k, v]" by blast
  have "takeWhile (\<lambda>c. c \<noteq> CHR 0x22) (v @ CHR 0x22 # t) = v" "dropWhile (\<lambda>c. c \<noteq> CHR 0x22) (v @ CHR 0x22 # t) = CHR 0x22 # t"
    by (subst takeWhile_append2 dropWhile_append2, use *(3) in \<open>auto\<close>)+
  with * show "rx_string line = Some sm" by (simp add: rx_string_def rx_tail_end)
qed

subsection \<open>Specification of the reader\<close>

text \<open>What a line says, and what the lines of a file say when read in order: the sections, the pairs with
  the section they stand in (none before the first section), and the numbers of the lines that say nothing.\<close>

datatype ini_line = Ini_section string | Ini_pair string string | Ini_comment | Ini_bad

definition ini_line_of :: "string \<Rightarrow> ini_line" where
  "ini_line_of line =
     (if line = [] \<or> line ! 0 = CHR '';'' then Ini_comment
      else case rx_section line of
             Some sm \<Rightarrow> Ini_section (sm ! 0)
           | None \<Rightarrow>
               (case rx_value line of
                  Some sm \<Rightarrow> Ini_pair (sm ! 0) (sm ! 1)
                | None \<Rightarrow> (case rx_string line of Some sm \<Rightarrow> Ini_pair (sm ! 0) (sm ! 1) | None \<Rightarrow> Ini_bad)))"

fun ini_sections :: "string list \<Rightarrow> string list" where
  "ini_sections [] = []"
| "ini_sections (l # ls) = (case ini_line_of l of Ini_section n \<Rightarrow> n # ini_sections ls | _ \<Rightarrow> ini_sections ls)"

fun ini_pairs :: "string \<Rightarrow> string list \<Rightarrow> ((string \<times> string) \<times> string) list" where
  "ini_pairs sec [] = []"
| "ini_pairs sec (l # ls) =
     (case ini_line_of l of
        Ini_section n \<Rightarrow> ini_pairs n ls
      | Ini_pair k v \<Rightarrow> ((sec, k), v) # ini_pairs sec ls
      | _ \<Rightarrow> ini_pairs sec ls)"

fun ini_bad_lines :: "nat \<Rightarrow> string list \<Rightarrow> nat list" where
  "ini_bad_lines n [] = []"
| "ini_bad_lines n (l # ls) = (if ini_line_of l = Ini_bad then Suc n # ini_bad_lines (Suc n) ls else ini_bad_lines (Suc n) ls)"

text \<open>Sections and keys are unique, and no pair stands before the first section.\<close>

definition ini_ok :: "string list \<Rightarrow> bool" where
  "ini_ok ls \<longleftrightarrow> distinct (ini_sections ls) \<and> distinct (map fst (ini_pairs [] ls)) \<and> (\<forall>p \<in> set (ini_pairs [] ls). fst (fst p) \<noteq> [])"

definition cm_lookup :: "config_map \<Rightarrow> string \<times> string \<Rightarrow> string option" where
  "cm_lookup cm p = Option.bind (map_of cm (fst p)) (\<lambda>kv. map_of kv (snd p))"

definition cm_ok :: "config_map \<Rightarrow> bool" where
  "cm_ok cm \<longleftrightarrow> smap_ok cm \<and> (\<forall>(g, kv) \<in> set cm. smap_ok kv)"

lemma cm_get_lookup: "cm_get cm g k = (case cm_lookup cm (g, k) of Some v \<Rightarrow> v | None \<Rightarrow> [])"
  by (simp add: cm_get_def cm_lookup_def split: option.splits)

lemma rx_section_name: "rx_section l = Some sm \<Longrightarrow> sm ! 0 \<noteq> []"
  by (auto simp: rx_section_iff)

lemma ini_section_name: "ini_line_of l = Ini_section n \<Longrightarrow> n \<noteq> []"
  by (auto simp: ini_line_of_def dest: rx_section_name split: if_splits option.splits)

text \<open>One line.\<close>

definition apply_line :: "ini_line \<Rightarrow> config_map \<Rightarrow> string \<Rightarrow> ini_error + (config_map \<times> string)" where
  "apply_line il cm sec =
     (case il of
        Ini_section n \<Rightarrow> new_section [n] cm sec
      | Ini_pair k v \<Rightarrow> add_key_value_pair [k, v] cm sec
      | _ \<Rightarrow> Inr (cm, sec))"

lemma matches_line:
  "l \<noteq> [] \<Longrightarrow> l ! 0 \<noteq> CHR '';'' \<Longrightarrow> matches rx_handlers l cm sec =
     map_sum id (Pair (ini_line_of l \<noteq> Ini_bad)) (apply_line (ini_line_of l) cm sec)"
proof -
  have h: "new_section [sm ! 0] cm sec = new_section sm cm sec"
    "add_key_value_pair [sm ! 0, sm ! Suc 0] cm sec = add_key_value_pair sm cm sec" for sm
    by (simp_all add: new_section_def add_key_value_pair_def)
  assume "l \<noteq> []" "l ! 0 \<noteq> CHR '';''"
  then show ?thesis
    by (cases "rx_section l"; cases "rx_value l"; cases "rx_string l")
       (simp_all add: ini_line_of_def apply_line_def rx_handlers_def h split: sum.split)
qed

lemma read_lines_step:
  "read_lines n (l # ls) cm sec =
     (case apply_line (ini_line_of l) cm sec of
        Inl e \<Rightarrow> Inl e
      | Inr (cm', sec') \<Rightarrow>
          map_sum id (\<lambda>(c, bad). (c, (if ini_line_of l = Ini_bad then [Suc n] else []) @ bad)) (read_lines (Suc n) ls cm' sec'))"
proof (cases "l = [] \<or> l ! 0 = CHR '';''")
  case True
  then show ?thesis by (auto simp: ini_line_of_def apply_line_def sum.map_id)
next
  case False
  then show ?thesis
    by (auto simp: matches_line Let_def sum.map_id split: sum.split bool.split)
qed

definition ini_fits :: "config_map \<Rightarrow> string \<Rightarrow> string list \<Rightarrow> bool" where
  "ini_fits cm sec ls \<longleftrightarrow>
     distinct (ini_sections ls) \<and> set (ini_sections ls) \<inter> sm_keys cm = {} \<and> distinct (map fst (ini_pairs sec ls))
   \<and> (\<forall>p \<in> fst ` set (ini_pairs sec ls). fst p \<noteq> [] \<and> cm_lookup cm p = None)"

lemma lookup_new_section: "cm_ok cm \<Longrightarrow> n \<notin> sm_keys cm \<Longrightarrow> cm_lookup (sm_insert n [] cm) = cm_lookup cm"
  by (auto simp: cm_lookup_def cm_ok_def lookup_insert map_of_None_keys [THEN iffD2] fun_eq_iff)

lemma ok_new_section: "cm_ok cm \<Longrightarrow> cm_ok (sm_insert n [] cm)"
  by (auto simp: cm_ok_def dest: sm_insert_set)

lemma cm_ok_section: "cm_ok cm \<Longrightarrow> map_of cm g = Some kv \<Longrightarrow> smap_ok kv"
  by (auto simp: cm_ok_def dest: map_of_SomeD)

lemma lookup_new_pair:
  "cm_ok cm \<Longrightarrow> map_of cm sec = Some kv \<Longrightarrow>
     cm_lookup (sm_assign sec (sm_assign k v kv) cm) = (cm_lookup cm)((sec, k) \<mapsto> v)"
  using cm_ok_section [of cm sec kv] by (auto simp: cm_lookup_def cm_ok_def lookup_assign fun_eq_iff)

lemma ok_new_pair: "cm_ok cm \<Longrightarrow> map_of cm sec = Some kv \<Longrightarrow> cm_ok (sm_assign sec (sm_assign k v kv) cm)"
  using cm_ok_section [of cm sec kv] by (auto simp: cm_ok_def dest: sm_assign_set)

lemma read_lines_spec:
  assumes "cm_ok cm" "sec = [] \<or> sec \<in> sm_keys cm"
  shows "case read_lines n ls cm sec of
      Inl e \<Rightarrow> \<not> ini_fits cm sec ls
    | Inr (cm', bad) \<Rightarrow> ini_fits cm sec ls \<and> cm_ok cm' \<and> sm_keys cm' = sm_keys cm \<union> set (ini_sections ls)
        \<and> cm_lookup cm' = cm_lookup cm ++ map_of (ini_pairs sec ls) \<and> bad = ini_bad_lines n ls"
  using assms
proof (induction ls arbitrary: n cm sec)
  case Nil
  then show ?case by (simp add: ini_fits_def)
next
  case (Cons l ls)
  show ?case
  proof (cases "ini_line_of l")
    case (Ini_section g)
    then have g: "g \<noteq> []" by (rule ini_section_name)
    show ?thesis
    proof (cases "g \<in> sm_keys cm")
      case True
      with Ini_section show ?thesis by (simp add: read_lines_step apply_line_def new_section_def ini_fits_def del: read_lines.simps)
    next
      case False
      have "ini_fits cm sec (l # ls) \<longleftrightarrow> ini_fits (sm_insert g [] cm) g ls"
        using Cons.prems False Ini_section by (auto simp: ini_fits_def lookup_new_section)
      with False Ini_section Cons.prems Cons.IH [of "sm_insert g [] cm" g "Suc n"] show ?thesis
        by (auto simp: read_lines_step apply_line_def new_section_def lookup_new_section ok_new_section
            simp del: read_lines.simps split: sum.splits)
    qed
  next
    case (Ini_pair k v)
    show ?thesis
    proof (cases "sec = [] \<or> cm_lookup cm (sec, k) \<noteq> None")
      case True
      with Ini_pair Cons.prems show ?thesis
        by (auto simp: read_lines_step apply_line_def add_key_value_pair_def ini_fits_def cm_lookup_def sm_keys_dom
            simp del: read_lines.simps split: sum.splits option.splits)
    next
      case False
      with Cons.prems obtain kv where kv: "map_of cm sec = Some kv" "map_of kv k = None"
        by (auto simp: sm_keys_dom cm_lookup_def)
      let ?cm = "sm_assign sec (sm_assign k v kv) cm"
      have keys: "sm_keys ?cm = sm_keys cm" using Cons.prems False by auto
      have "ini_fits cm sec (l # ls) \<longleftrightarrow> ini_fits ?cm sec ls"
        using Cons.prems False Ini_pair kv keys by (auto simp: ini_fits_def lookup_new_pair image_iff)
      moreover have "cm_lookup ?cm ++ map_of (ini_pairs sec ls) = cm_lookup cm ++ map_of (ini_pairs sec (l # ls))"
        if "ini_fits cm sec (l # ls)"
      proof -
        have "(sec, k) \<notin> dom (map_of (ini_pairs sec ls))"
          using that Ini_pair by (simp add: ini_fits_def dom_map_of_conv_image_fst)
        with Cons.prems(1) kv Ini_pair show ?thesis by (simp add: lookup_new_pair map_add_upd_left)
      qed
      moreover have "read_lines n (l # ls) cm sec = read_lines (Suc n) ls ?cm sec"
        using False Ini_pair kv
        by (simp add: read_lines_step apply_line_def add_key_value_pair_def sm_mem_def sum.map_id del: read_lines.simps sm_mem_keys)
      ultimately show ?thesis
        using Ini_pair Cons.prems(2) keys ok_new_pair [OF Cons.prems(1) kv(1), of k v] Cons.IH [of ?cm sec "Suc n"]
        by (cases "read_lines (Suc n) ls ?cm sec") (simp_all add: split_beta del: read_lines.simps)
    qed
  qed (use Cons.prems Cons.IH [of cm sec "Suc n"] in \<open>auto simp: read_lines_step apply_line_def ini_fits_def
        simp del: read_lines.simps split: sum.splits\<close>)
qed

subsection \<open>Properties\<close>

text \<open>A line is matched by the expression of a section, of a plain value or of a quoted value exactly when it decomposes
  as the expression says, and the parts found are the only ones.\<close>

theorem ini_regexes:
  "(rx_section line = Some sm \<longleftrightarrow>
      (\<exists>n t. line = CHR ''['' # n @ CHR '']'' # t \<and> n \<noteq> [] \<and> list_all is_name_char n \<and> rx_end t \<and> sm = [n]))
 \<and> (rx_value line = Some sm \<longleftrightarrow>
      (\<exists>k s1 s2 v t. line = k @ s1 @ CHR ''='' # s2 @ v @ t \<and> k \<noteq> [] \<and> list_all is_name_char k \<and> list_all is_space s1
        \<and> list_all is_space s2 \<and> v \<noteq> [] \<and> list_all is_value_char v \<and> rx_end t \<and> sm = [k, v]))
 \<and> (rx_string line = Some sm \<longleftrightarrow>
      (\<exists>k s1 s2 v t. line = k @ s1 @ CHR ''='' # s2 @ CHR 0x22 # v @ CHR 0x22 # t \<and> k \<noteq> [] \<and> list_all is_name_char k
        \<and> list_all is_space s1 \<and> list_all is_space s2 \<and> v \<noteq> [] \<and> CHR 0x22 \<notin> set v \<and> rx_end t \<and> sm = [k, v]))"
proof (intro conjI)
  have v: "v \<noteq> [] \<Longrightarrow> list_all is_value_char v \<Longrightarrow> \<not> is_space (hd (v @ t))" for v t
    using value_not_space by (cases v) auto
  have q: "\<not> is_space CHR 0x22" by (simp add: is_space_def)
  show "rx_value line = Some sm \<longleftrightarrow>
      (\<exists>k s1 s2 v t. line = k @ s1 @ CHR ''='' # s2 @ v @ t \<and> k \<noteq> [] \<and> list_all is_name_char k \<and> list_all is_space s1
        \<and> list_all is_space s2 \<and> v \<noteq> [] \<and> list_all is_value_char v \<and> rx_end t \<and> sm = [k, v])"
    (is "_ \<longleftrightarrow> ?R")
  proof
    assume "rx_value line = Some sm"
    then show ?R unfolding rx_value_iff rx_key_iff by blast
  next
    assume ?R
    then obtain k s1 s2 v t where *: "line = k @ s1 @ CHR ''='' # s2 @ v @ t" "k \<noteq> []" "list_all is_name_char k" "list_all is_space s1"
      "list_all is_space s2" "v \<noteq> []" "list_all is_value_char v" "rx_end t" "sm = [k, v]" by blast
    from v [OF *(6,7)] * have "rx_key line = Some (k, v @ t)" unfolding rx_key_iff by blast
    with * show "rx_value line = Some sm" unfolding rx_value_iff by blast
  qed
  show "rx_string line = Some sm \<longleftrightarrow>
      (\<exists>k s1 s2 v t. line = k @ s1 @ CHR ''='' # s2 @ CHR 0x22 # v @ CHR 0x22 # t \<and> k \<noteq> [] \<and> list_all is_name_char k
        \<and> list_all is_space s1 \<and> list_all is_space s2 \<and> v \<noteq> [] \<and> CHR 0x22 \<notin> set v \<and> rx_end t \<and> sm = [k, v])"
    unfolding rx_string_iff rx_key_iff list.sel using q by blast
qed (rule rx_section_iff)

text \<open>C37: Reading a settings file succeeds exactly when its sections and the keys of each section are unique and no
  pair stands before the first section; then the groups are the sections of the file, the value of a key is the one the
  line of its section gives (the empty string without such a line), and the lines reported as not
  parsed are the ones no expression matches.\<close>

theorem read_ini_spec:
  "case files name of
     None \<Rightarrow> read_ini files name [] = Inl (File_not_found name)
   | Some content \<Rightarrow>
       (let ls = getlines (CHR 0x0A) content
        in case read_ini files name [] of
             Inl e \<Rightarrow> \<not> ini_ok ls
           | Inr (cm, bad) \<Rightarrow> ini_ok ls \<and> bad = ini_bad_lines 0 ls
               \<and> (\<forall>g. has_group cm g \<longleftrightarrow> g \<in> set (ini_sections ls))
               \<and> (\<forall>g k. cm_get cm g k = (case map_of (ini_pairs [] ls) (g, k) of Some v \<Rightarrow> v | None \<Rightarrow> [])))"
proof (cases "files name")
  case (Some content)
  have "cm_ok []" "cm_lookup [] = Map.empty" by (simp_all add: cm_ok_def cm_lookup_def fun_eq_iff)
  moreover have "ini_fits [] [] ls = ini_ok ls" for ls by (auto simp: ini_fits_def ini_ok_def cm_lookup_def)
  ultimately show ?thesis
    using Some read_lines_spec [where cm = "[]" and sec = "[]" and n = 0 and ls = "getlines (CHR 0x0A) content"]
    by (auto simp: read_ini_def Let_def has_group_def cm_get_lookup split: sum.splits)
qed (simp add: read_ini_def)

lemma read_ini_spec_witness:
  "\<exists>cm. read_ini (\<lambda>f. Some (''[send]'' @ [CHR 0x0A] @ ''port = 99 ;x'' @ [CHR 0x0A] @ ''port-2=1'')) ''t'' [] = Inr (cm, [3])
     \<and> cm_get cm ''send'' ''port'' = ''99''"
proof -
  let ?text = "''[send]'' @ [CHR 0x0A] @ ''port = 99 ;x'' @ [CHR 0x0A] @ ''port-2=1''"
  have r: "read_ini (\<lambda>f. Some ?text) ''t'' [] = Inr ([(''send'', [(''port'', ''99'')])], [3])" by code_simp
  have ls: "map_of (ini_pairs [] (getlines (CHR 0x0A) ?text)) (''send'', ''port'') = Some ''99''" by code_simp
  from read_ini_spec [where files = "\<lambda>f. Some ?text" and name = "''t''"]
  have "cm_get [(''send'', [(''port'', ''99'')])] ''send'' ''port'' = ''99''"
    unfolding r option.case Let_def sum.case prod.case using ls by simp
  with r show ?thesis by blast
qed

end
