(* ===== verification/Test_Packets.thy ===== *)
theory Test_Packets
  imports Configuration Decimal
begin

section \<open>Packets of the tester (tester.hpp, tester.cpp)\<close>

text \<open>
  The test program numbers its packets.  This theory holds the class \<^verbatim>\<open>packet_manager\<close>, which recognises packets
  received before, the text \<open>send_data\<close> puts in a packet and what \<open>receive_data\<close> reads from its buffer.
\<close>

subsection \<open>packet_manager\<close>

record packet_manager =
  m_max_count :: u32
  m_data :: "(int, unit) smap"

definition new_packet_manager :: "u32 \<Rightarrow> packet_manager" where
  "new_packet_manager max_count = \<lparr>m_max_count = max_count, m_data = []\<rparr>"

definition is_packet_new :: "int \<Rightarrow> packet_manager \<Rightarrow> bool \<times> packet_manager" where
  "is_packet_new packet_number pm =
     (if sm_mem packet_number (m_data pm) then (False, pm)
      else
        (let data = sm_insert packet_number () (m_data pm)
         in (True, pm\<lparr>m_data := if length data > unat (m_max_count pm) then tl data else data\<rparr>)))"

subsection \<open>The text of a packet\<close>

text \<open>\<^verbatim>\<open>oss.width(9)\<close> pads the next item only, on the left.\<close>

definition width :: "nat \<Rightarrow> string \<Rightarrow> string" where
  "width n s = replicate (n - length s) (CHR '' '') @ s"

definition stamped_message :: "u32 \<Rightarrow> int \<Rightarrow> string \<Rightarrow> string" where
  "stamped_message current_packet_number send_time_stamp msg =
     width 9 (decimal (unat current_packet_number)) @ '' '' @ decimal_int send_time_stamp @ '' '' @ msg"

text \<open>The buffer of the receiver keeps what the bytes of a packet do not overwrite; \<^verbatim>\<open>std::string(buf.data())\<close> ends at the
  first zero byte.\<close>

definition recv_into :: "string \<Rightarrow> string \<Rightarrow> string" where
  "recv_into buf bytes = bytes @ drop (length bytes) buf"

definition c_string :: "string \<Rightarrow> string" where
  "c_string buf = takeWhile (\<lambda>c. c \<noteq> CHR 0x00) buf"

text \<open>\<^verbatim>\<open>iss >> v\<close> for an integer of 64 bits: the rest of the stream and whether it is still good.  A stream with an error
  leaves the variable alone, a text that is no number makes it 0, and a number out of range makes it the nearest limit.\<close>

definition extract_int :: "int \<Rightarrow> string \<times> bool \<Rightarrow> int \<times> string \<times> bool" where
  "extract_int v iss =
     (let (s, good) = iss; s1 = dropWhile is_space s
      in if \<not> good then (v, iss)
         else if s1 = [] then (v, [], False)
         else
           (let neg = (hd s1 = CHR ''-'');
                s2 = (if hd s1 = CHR ''-'' \<or> hd s1 = CHR ''+'' then tl s1 else s1);
                ds = takeWhile is_digit s2; r = dropWhile is_digit s2;
                n = (if neg then - digits_value ds else digits_value ds)
            in if ds = [] then (0, r, False)
               else if n < - (2 ^ 63) then (- (2 ^ 63), r, False)
               else if 2 ^ 63 \<le> n then (2 ^ 63 - 1, r, False)
               else (n, r, True)))"

text \<open>\<^verbatim>\<open>iss >> packet_number >> send_time_stamp; oss << iss.rdbuf()\<close>.\<close>

definition parse_packet :: "string \<Rightarrow> int \<Rightarrow> int \<Rightarrow> int \<times> int \<times> string" where
  "parse_packet buf packet_number send_time_stamp =
     (let (packet_number, iss) = extract_int packet_number (c_string buf, True);
          (send_time_stamp, iss) = extract_int send_time_stamp iss
      in (packet_number, send_time_stamp, fst iss))"

subsection \<open>The largest elements of a set\<close>

definition top_of :: "nat \<Rightarrow> int set \<Rightarrow> int set \<Rightarrow> bool" where
  "top_of N S D \<longleftrightarrow> D \<subseteq> S \<and> (\<forall>x \<in> S - D. \<forall>y \<in> D. x < y) \<and> card D = min N (card S)"

lemma top_of_member:
  assumes "top_of N S D" "finite S"
  shows "p \<in> D \<longleftrightarrow> p \<in> S \<and> card {q \<in> S. p < q} < N"
proof
  have fD: "finite D" using assms by (auto simp: top_of_def intro: finite_subset)
  {
    assume p: "p \<in> D"
    then have "{q \<in> S. p < q} \<subseteq> D - {p}" using assms(1) by (auto simp: top_of_def dest!: bspec)
    then have "card {q \<in> S. p < q} \<le> card D - 1" using fD p by (metis card_Diff_singleton card_mono finite_Diff)
    moreover have "0 < card D" "card D \<le> N" using fD p assms(1) by (auto simp: top_of_def card_gt_0_iff)
    ultimately show "p \<in> S \<and> card {q \<in> S. p < q} < N" using p assms(1) by (auto simp: top_of_def)
  next
    assume p: "p \<in> S \<and> card {q \<in> S. p < q} < N"
    show "p \<in> D"
    proof (rule ccontr)
      assume "p \<notin> D"
      with p assms(1) have sub: "D \<subseteq> {q \<in> S. p < q}" "D \<subset> S" by (auto simp: top_of_def)
      then have "card D < card S" using assms(2) by (simp add: psubset_card_mono)
      then have "card D = N" using assms(1) by (auto simp: top_of_def)
      moreover have "card D \<le> card {q \<in> S. p < q}" using sub(1) assms(2) by (simp add: card_mono)
      ultimately show False using p by simp
    qed
  }
qed

lemma top_of_all:
  assumes "top_of N S D" "finite S" "card D < N"
  shows "D = S"
  using assms by (intro card_subset_eq) (auto simp: top_of_def min_def split: if_splits)

lemma top_of_insert:
  assumes t: "top_of N S D" and S: "finite S" and p: "p \<notin> D"
  shows "top_of N (insert p S) (if card (insert p D) > N then insert p D - {Min (insert p D)} else insert p D)"
proof (cases "card D < N")
  case True
  with top_of_all [OF t S] S p show ?thesis by (simp add: top_of_def)
next
  case False
  have fD: "finite D" using t S by (auto simp: top_of_def intro: finite_subset)
  let ?I = "insert p D"
  define m where "m = Min ?I"
  from False t have N: "card D = N" "N \<le> card S" by (auto simp: top_of_def)
  have m: "m \<in> ?I" "\<forall>y \<in> ?I. m \<le> y" unfolding m_def using fD Min_in [of ?I] by auto
  have card: "card ?I = Suc N" "card (?I - {m}) = N" using fD p N m by simp_all
  have "card (insert p S) \<ge> N" using N S by (simp add: card_insert_if)
  moreover have "?I - {m} \<subseteq> insert p S" using t by (auto simp: top_of_def)
  moreover have "x < y" if x: "x \<in> insert p S - (?I - {m})" and y: "y \<in> ?I - {m}" for x y
  proof -
    have my: "m < y" using m y by force
    consider "x = m" | "x \<in> S - D" using x by auto
    then show ?thesis
    proof cases
      case 2
      show ?thesis
      proof (cases "m = p")
        case True
        with y 2 t show ?thesis by (auto simp: top_of_def)
      next
        case False
        with m 2 t have "x < m" by (auto simp: top_of_def)
        with my show ?thesis by simp
      qed
    qed (use my in simp)
  qed
  ultimately show ?thesis using card unfolding top_of_def m_def [symmetric] by simp
qed

subsection \<open>The window of packet numbers\<close>

lemma smap_length: "smap_ok m \<Longrightarrow> length m = card (sm_keys m)"
  by (metis smap_ok_distinct distinct_card length_map set_map sm_keys_def)

lemma sm_keys_tl: "smap_ok m \<Longrightarrow> m \<noteq> [] \<Longrightarrow> sm_keys (tl m) = sm_keys m - {Min (sm_keys m)}"
proof (cases m)
  case (Cons e r)
  assume ok: "smap_ok m"
  then have "\<forall>k \<in> sm_keys r. fst e < k" using Cons by simp
  moreover have "Min (sm_keys m) = fst e" using calculation Cons by (auto intro!: Min_eqI)
  ultimately show ?thesis using Cons by auto
qed simp

lemma smap_ok_tl: "smap_ok m \<Longrightarrow> smap_ok (tl m)"
  by (cases m) auto

text \<open>The manager after a sequence of packets.\<close>

definition seen :: "u32 \<Rightarrow> int list \<Rightarrow> packet_manager" where
  "seen N ps = fold (\<lambda>p pm. snd (is_packet_new p pm)) ps (new_packet_manager N)"

lemma seen_window:
  "m_max_count (seen N ps) = N \<and> smap_ok (m_data (seen N ps)) \<and> top_of (unat N) (set ps) (sm_keys (m_data (seen N ps)))"
proof (induction ps rule: rev_induct)
  case Nil
  show ?case by (simp add: seen_def new_packet_manager_def top_of_def)
next
  case (snoc p ps)
  let ?pm = "seen N ps" and ?D = "sm_keys (m_data (seen N ps))"
  have s: "seen N (ps @ [p]) = snd (is_packet_new p ?pm)" by (simp add: seen_def)
  show ?case
  proof (cases "p \<in> ?D")
    case True
    with snoc.IH have "insert p (set ps) = set ps" by (auto simp: top_of_def)
    with True snoc.IH show ?thesis by (simp add: s is_packet_new_def)
  next
    case False
    let ?d = "sm_insert p () (m_data ?pm)"
    have ok: "smap_ok ?d" "length ?d = card (insert p ?D)" using snoc.IH smap_length [of ?d] by auto
    have "?d \<noteq> []" using sm_keys_insert [of p "()" "m_data ?pm"] by (metis insert_not_empty sm_keys_Nil)
    have "sm_keys (if length ?d > unat N then tl ?d else ?d)
        = (if card (insert p ?D) > unat N then insert p ?D - {Min (insert p ?D)} else insert p ?D)"
      using ok sm_keys_tl [OF ok(1) \<open>?d \<noteq> []\<close>] by simp
    with False snoc.IH ok smap_ok_tl [OF ok(1)] top_of_insert [of "unat N" "set ps" ?D p]
    show ?thesis by (auto simp: s is_packet_new_def Let_def)
  qed
qed

subsection \<open>Reading back a packet\<close>

lemma is_digit_not_space: "is_digit c \<Longrightarrow> \<not> is_space c \<and> c \<noteq> CHR ''-'' \<and> c \<noteq> CHR ''+''"
  by (auto simp: is_digit_def is_space_def)

lemma decimal_all_digits: "c \<in> set (decimal n) \<Longrightarrow> is_digit c"
  using decimal_digits by (auto simp: is_digit_def)

lemma digits_value_decimal: "digits_value (decimal n) = int n"
  unfolding digits_value_def by (rule decimal_value)

lemma extract_decimal:
  assumes "n < 2 ^ 63" "r = [] \<or> \<not> is_digit (hd r)" "\<forall>c \<in> set sp. is_space c"
  shows "extract_int v (sp @ decimal n @ r, True) = (int n, r, True)"
proof -
  obtain d ds where d: "decimal n = d # ds" using decimal_not_empty [of n] by (cases "decimal n") auto
  have dig: "is_digit d" "\<forall>c \<in> set (decimal n). is_digit c" using decimal_all_digits [of _ n] d by auto
  have s1: "dropWhile is_space (sp @ decimal n @ r) = decimal n @ r"
    using assms(3) is_digit_not_space [OF dig(1)] by (simp add: dropWhile_append2 d)
  have "takeWhile is_digit (decimal n @ r) = decimal n" "dropWhile is_digit (decimal n @ r) = r"
    using assms(2) dig(2) by (cases r; simp add: takeWhile_append2 dropWhile_append2)+
  moreover have "int n < 2 ^ 63" using assms(1) by (metis of_nat_less_iff of_nat_numeral of_nat_power)
  ultimately show ?thesis
    using is_digit_not_space [OF dig(1)] digits_value_decimal [of n] d
    unfolding extract_int_def prod.case Let_def s1 by (simp add: hd_append)
qed

lemma c_string_append: "CHR 0x00 \<notin> set s \<Longrightarrow> c_string (s @ t) = s @ c_string t"
  unfolding c_string_def by (rule takeWhile_append2) auto

lemma decimal_not_zero_char: "CHR 0x00 \<notin> set (decimal n)"
  using decimal_all_digits [of "CHR 0x00" n] by (auto simp: is_digit_def)

lemma parse_stamped:
  assumes "0 \<le> t" "t < 2 ^ 63" "CHR 0x00 \<notin> set msg"
  shows "parse_packet (stamped_message n t msg @ buf) pn sts = (uint n, t, '' '' @ msg @ c_string buf)"
proof -
  let ?sp = "replicate (9 - length (decimal (unat n))) (CHR '' '')" and ?tail = "'' '' @ msg @ c_string buf"
  obtain k where k: "t = int k" using assms(1) by (metis nonneg_int_cases)
  have "CHR 0x00 \<notin> set (stamped_message n t msg)"
    using assms(3) decimal_not_zero_char by (auto simp: stamped_message_def width_def decimal_int_def)
  then have "c_string (stamped_message n t msg @ buf) = stamped_message n t msg @ c_string buf" by (rule c_string_append)
  then have "c_string (stamped_message n t msg @ buf) = ?sp @ decimal (unat n) @ '' '' @ decimal k @ ?tail"
    using k by (simp add: stamped_message_def width_def decimal_int_def)
  moreover have "extract_int pn (?sp @ decimal (unat n) @ '' '' @ decimal k @ ?tail, True) = (int (unat n), '' '' @ decimal k @ ?tail, True)"
    using unsigned_less [of n] by (intro extract_decimal) (auto simp: is_digit_def is_space_def intro: less_trans)
  moreover have "extract_int sts ('' '' @ decimal k @ ?tail, True) = (int k, ?tail, True)"
    using assms(2) k by (intro extract_decimal) (auto simp: is_digit_def is_space_def)
  ultimately show ?thesis unfolding parse_packet_def Let_def by (simp add: k)
qed

subsection \<open>Properties\<close>

text \<open>The packet manager recognises a packet exactly when its number was received before and fewer than the
  maximal count of different larger numbers were received; it never keeps more than the maximal count of numbers.\<close>

theorem packet_window:
  "(fst (is_packet_new p (seen N ps)) \<longleftrightarrow> \<not> (p \<in> set ps \<and> card {q \<in> set ps. p < q} < unat N))
   \<and> length (m_data (seen N ps)) \<le> unat N"
proof -
  let ?D = "sm_keys (m_data (seen N ps))"
  have w: "smap_ok (m_data (seen N ps))" "top_of (unat N) (set ps) ?D" using seen_window by simp_all
  have "p \<in> ?D \<longleftrightarrow> p \<in> set ps \<and> card {q \<in> set ps. p < q} < unat N" by (rule top_of_member [OF w(2)]) simp
  moreover have "fst (is_packet_new p (seen N ps)) \<longleftrightarrow> p \<notin> ?D" by (simp add: is_packet_new_def Let_def)
  moreover have "length (m_data (seen N ps)) \<le> unat N" using w by (simp add: smap_length top_of_def)
  ultimately show ?thesis by blast
qed



end
