(* ===== verification/Test_Settings.thy ===== *)
theory Test_Settings
  imports Sockets Config_Map Test_Packets
begin

section \<open>What a section of the settings says (tester.cpp)\<close>

text \<open>
  The readers of the single settings of a section, with their defaults and errors.  Every way the process can end is a value
  of \<open>stop\<close>: \<^verbatim>\<open>exit(0)\<close> with its message, an exception nobody catches, undefined behaviour (division by zero,
  overflow of a signed integer, a null string) and, for the loops, the end of the fuel.

  What the program reads from outside are functions in \<open>test_env\<close>: the n-th look at \<^verbatim>\<open>m_running\<close> (the signal handler
  clears it at any time), the n-th look at the clock in milliseconds, and the bytes the n-th system call
  writes into the buffer.  Of the output the summaries and the lines of the file are modelled; a floating point number is
  kept as numerator and denominator.  Sleeping changes nothing.
\<close>

datatype stop = Exit string | Uncaught ini_error | Undefined | Out_of_fuel

record test_summary =
  ts_packet_count :: int
  ts_data_total_size :: int
  ts_receive_duration :: int
  ts_packets_per_sec :: int
  ts_goodput :: "int \<times> int"   \<comment> \<open>MByte, milliseconds\<close>

datatype file_line = Text_line string | Summary_line test_summary

record test_env =
  te_net :: net_names
  te_pton :: "addr_family \<Rightarrow> string \<Rightarrow> addr_storage option"
  te_ini :: "string \<Rightarrow> string option"
  te_can_open :: "string \<Rightarrow> bool"
  te_running :: "nat \<Rightarrow> bool"
  te_clock :: "nat \<Rightarrow> int"
  te_byte :: "nat \<Rightarrow> nat \<Rightarrow> char"

record test_world =
  tw_kernel :: kernel
  tw_reads :: nat
  tw_clocks :: nat
  tw_files :: "string \<Rightarrow> file_line list"
  tw_out :: "file_line list"
  tw_timers :: "int list"   \<comment> \<open>detached threads that will raise SIGINT\<close>
  tw_busy_waiting :: int

definition read_running :: "test_env \<Rightarrow> test_world \<Rightarrow> bool \<times> test_world" where
  "read_running env w = (te_running env (tw_reads w), w\<lparr>tw_reads := Suc (tw_reads w)\<rparr>)"

definition read_clock :: "test_env \<Rightarrow> test_world \<Rightarrow> int \<times> test_world" where
  "read_clock env w = (te_clock env (tw_clocks w), w\<lparr>tw_clocks := Suc (tw_clocks w)\<rparr>)"

definition long_long :: "int \<Rightarrow> stop + int" where
  "long_long n = (if - (2 ^ 63) \<le> n \<and> n < 2 ^ 63 then Inr n else Inl Undefined)"

definition or_exit :: "string \<Rightarrow> (kernel \<Rightarrow> bool \<times> kernel) \<Rightarrow> test_world \<Rightarrow> stop + test_world" where
  "or_exit message f w =
     (let (ok, k) = f (tw_kernel w) in if ok then Inr (w\<lparr>tw_kernel := k\<rparr>) else Inl (Exit message))"

subsection \<open>Settings\<close>

definition get_gaddr :: "test_env \<Rightarrow> config_map \<Rightarrow> string \<Rightarrow> stop + addr_storage" where
  "get_gaddr env cm to_do =
     (let tmp_gaddr = cm_get cm to_do ''group''
      in if tmp_gaddr = [] then Inl (Exit ''no group found, in unicast mode: need to select IP version'')
         else
           (let gaddr = addr_of_string (te_pton env) tmp_gaddr
            in if \<not> is_valid gaddr then Inl (Exit (''group '' @ tmp_gaddr @ '' is not an ipaddress'')) else Inr gaddr))"

text \<open>The result of creating the socket is ignored.\<close>

definition get_mc_socket :: "addr_family \<Rightarrow> test_world \<Rightarrow> stop + mc_socket \<times> test_world" where
  "get_mc_socket addr_family w =
     (let use = (\<lambda>(ok, ms, k). Inr (ms, w\<lparr>tw_kernel := k\<rparr>))
      in if addr_family = AF_INET then use (create_udp_ipv4_socket new_mc_socket (tw_kernel w))
         else if addr_family = AF_INET6 then use (create_udp_ipv6_socket new_mc_socket (tw_kernel w))
         else Inl (Exit ''unknown address family''))"

definition src_key :: "nat \<Rightarrow> string" where
  "src_key i = ''src_'' @ decimal i"

lemma src_key_inj: "inj src_key"
proof (rule injI)
  fix i j assume "src_key i = src_key j"
  then have "decimal i = decimal j" unfolding src_key_def by (rule same_append_eq [THEN iffD1])
  then show "i = j" by (metis digits_value_decimal of_nat_eq_iff)
qed

lemma cm_get_keys: "cm_get cm to_do key \<noteq> [] \<Longrightarrow> \<exists>kv. map_of cm to_do = Some kv \<and> key \<in> sm_keys kv"
  by (auto simp: cm_get_def sm_keys_dom split: option.splits)

lemma finite_src_keys: "finite {j. cm_get cm to_do (src_key j) \<noteq> []}"
proof (cases "map_of cm to_do")
  case None
  then show ?thesis by (simp add: cm_get_def)
next
  case (Some kv)
  then have "src_key ` {j. cm_get cm to_do (src_key j) \<noteq> []} \<subseteq> sm_keys kv" using cm_get_keys [of cm to_do] by auto
  then show ?thesis using src_key_inj by (meson finite_imageD finite_sm_keys finite_subset inj_on_subset subset_UNIV)
qed

text \<open>The endless loop of \<open>get_src_list\<close> ends, since a section has finitely many keys.\<close>

function get_srcs :: "test_env \<Rightarrow> config_map \<Rightarrow> string \<Rightarrow> addr_family \<Rightarrow> nat \<Rightarrow> stop + addr_storage list" where
  "get_srcs env cm to_do addr_family i =
     (let str_saddr = cm_get cm to_do (src_key i)
      in if str_saddr = [] then Inr []
         else
           (let saddr = addr_of_string (te_pton env) str_saddr
            in if addr_family \<noteq> get_addr_family saddr
               then Inl (Exit (src_key i @ '' is not an ip address or has the wrong ip version''))
               else bind_result (get_srcs env cm to_do addr_family (Suc i)) (\<lambda>slist. Inr (saddr # slist))))"
  by pat_completeness auto
termination
proof (relation "measure (\<lambda>(env, cm, to_do, af, i). card {j. i \<le> j \<and> cm_get cm to_do (src_key j) \<noteq> []})", goal_cases)
  case (2 env cm to_do af i x xa)
  have "i \<in> {j. i \<le> j \<and> cm_get cm to_do (src_key j) \<noteq> []}" using 2 by simp
  then have "{j. Suc i \<le> j \<and> cm_get cm to_do (src_key j) \<noteq> []} \<subset> {j. i \<le> j \<and> cm_get cm to_do (src_key j) \<noteq> []}"
    by (intro psubsetI) (auto simp: set_eq_iff intro!: exI [of _ i])
  moreover have "finite {j. i \<le> j \<and> cm_get cm to_do (src_key j) \<noteq> []}"
    using finite_src_keys by (rule rev_finite_subset) auto
  ultimately show ?case by (auto intro: psubset_card_mono)
qed simp

declare get_srcs.simps [simp del]

definition get_src_list :: "test_env \<Rightarrow> config_map \<Rightarrow> string \<Rightarrow> addr_family \<Rightarrow> stop + addr_storage list" where
  "get_src_list env cm to_do addr_family = get_srcs env cm to_do addr_family 0"

definition get_mc_filter :: "config_map \<Rightarrow> string \<Rightarrow> stop + mc_filter" where
  "get_mc_filter cm to_do =
     (let str_mf = cm_get cm to_do ''filter_mode''
      in if str_mf = [] then Inr INCLUDE_MODE
         else if str_mf = ''include'' then Inr INCLUDE_MODE
         else if str_mf = ''exclude'' then Inr EXCLUDE_MODE
         else Inl (Exit (str_mf @ '' is not filter_mode'')))"

text \<open>\<^verbatim>\<open>std::stol\<close>, a \<open>stoi\<close> of 64 bits; the result is stored in an unsigned variable.\<close>

definition stol :: "string \<Rightarrow> int option" where
  "stol s =
     (let s1 = dropWhile is_space s;
          neg = (s1 \<noteq> [] \<and> hd s1 = CHR ''-'');
          s2 = (if s1 \<noteq> [] \<and> (hd s1 = CHR ''-'' \<or> hd s1 = CHR ''+'') then tl s1 else s1);
          ds = takeWhile is_digit s2;
          v = (if neg then - digits_value ds else digits_value ds)
      in if ds = [] \<or> v < - (2 ^ 63) \<or> 2 ^ 63 \<le> v then None else Some v)"

definition get_max_count :: "config_map \<Rightarrow> string \<Rightarrow> stop + 64 word" where
  "get_max_count cm to_do =
     (let str_max_count = cm_get cm to_do ''max_count''
      in if str_max_count = [] then Inr 0
         else case stol str_max_count of Some n \<Rightarrow> Inr (word_of_int n) | None \<Rightarrow> Inl (Exit ''failed to parse max_count''))"

definition get_test_if_name :: "test_env \<Rightarrow> config_map \<Rightarrow> string \<Rightarrow> stop + string" where
  "get_test_if_name env cm to_do =
     (let if_name = cm_get cm to_do ''interface''
      in if if_name = [] then Inl (Exit ''no interface found'')
         else if if_nametoindex (te_net env) if_name = 0 then Inl (Exit (''interface '' @ if_name @ '' not found''))
         else Inr if_name)"

definition get_action :: "config_map \<Rightarrow> string \<Rightarrow> stop + string" where
  "get_action cm to_do =
     (let action = cm_get cm to_do ''action'' in if action = [] then Inl (Exit ''no action found'') else Inr action)"

definition get_msg :: "config_map \<Rightarrow> string \<Rightarrow> string \<Rightarrow> string" where
  "get_msg cm to_do proposal =
     (if proposal \<noteq> [] then proposal
      else (let msg = cm_get cm to_do ''msg'' in if msg = [] then ''this is a test message'' else msg))"

definition get_send_interval :: "config_map \<Rightarrow> string \<Rightarrow> stop + int" where
  "get_send_interval cm to_do =
     (let str_interval = cm_get cm to_do ''send_interval''
      in if str_interval = [] then Inr 1000
         else case stoi str_interval of Some n \<Rightarrow> Inr n | None \<Rightarrow> Inl (Exit ''failed to parse interval''))"

definition get_lifetime :: "config_map \<Rightarrow> string \<Rightarrow> stop + int" where
  "get_lifetime cm to_do =
     (let str_lifetime = cm_get cm to_do ''lifetime''
      in if str_lifetime = [] then Inr 0
         else case stoi str_lifetime of Some n \<Rightarrow> Inr n | None \<Rightarrow> Inl (Exit ''failed to parse lifetime''))"

definition get_int :: "config_map \<Rightarrow> string \<Rightarrow> string \<Rightarrow> int \<Rightarrow> stop + int" where
  "get_int cm to_do compare default_return =
     (let result = cm_get cm to_do compare
      in if result = [] then Inr default_return
         else case stoi result of Some n \<Rightarrow> Inr n | None \<Rightarrow> Inl (Exit (''failed to parse '' @ compare)))"

definition get_boolean :: "config_map \<Rightarrow> string \<Rightarrow> string \<Rightarrow> bool \<Rightarrow> stop + bool" where
  "get_boolean cm to_do compare default_return =
     (let result = cm_get cm to_do compare
      in if result = [] then Inr default_return
         else if result = ''true'' then Inr True
         else if result = ''false'' then Inr False
         else Inl (Exit (''failed to parse '' @ compare)))"

definition get_file_name :: "config_map \<Rightarrow> string \<Rightarrow> string \<Rightarrow> string" where
  "get_file_name cm to_do proposal =
     (if proposal \<noteq> [] then proposal
      else (let result = cm_get cm to_do ''file_name'' in if result = [] then ''delay_measurment_file'' else result))"

definition get_file_operation_mode :: "config_map \<Rightarrow> string \<Rightarrow> stop + string" where
  "get_file_operation_mode cm to_do =
     (let result = cm_get cm to_do ''file_operation_mode''
      in if result = [] then Inr ''override''
         else if result \<noteq> ''override'' \<and> result \<noteq> ''append'' then Inl (Exit ''failed to file_operation_mode'')
         else Inr result)"

definition get_to_do_next :: "config_map \<Rightarrow> string \<Rightarrow> stop + string" where
  "get_to_do_next cm to_do =
     (let to_do_next = cm_get cm to_do ''to_do_next'';
          to_do_next = (if to_do_next = [] then ''null'' else to_do_next)
      in if to_do_next \<noteq> ''null'' \<and> \<not> has_group cm to_do_next
         then Inl (Exit (''to_do_next '' @ to_do_next @ '' not found''))
         else Inr to_do_next)"

end
