(* ===== verification/Tester.thy ===== *)
theory Tester
  imports Test_Settings
begin

section \<open>The tester (tester.hpp, tester.cpp)\<close>

text \<open>
  The test program joins a group and counts what it receives, or sends numbered packets, as a section of its settings says,
  and goes on with the section named as the next.  Both loops and the chain of sections can run forever and
  take fuel.  The theorems say when a loop ends and what it has done then.
\<close>

record test_options =
  o_if_name :: string
  o_gaddr :: addr_storage
  o_max_count :: "64 word"
  o_slist :: "addr_storage list"
  o_action :: string
  o_mfilter :: mc_filter
  o_ttl :: int
  o_port :: int
  o_busy_waiting_counter :: int
  o_msg :: string
  o_interval :: int
  o_print_status_msg :: bool
  o_save_to_file :: bool
  o_file_name :: string
  o_include_file_header :: bool
  o_include_data :: bool
  o_include_summary :: bool
  o_ignore_duplicated_packets :: bool
  o_parse_time_stamp :: bool
  o_include_time_stamp :: bool
  o_file_operation_mode :: string
  o_lifetime :: int
  o_to_do_next :: string

subsection \<open>The summary\<close>

text \<open>\<^verbatim>\<open>(n / duration) * 1000.0\<close> stored in an \<^verbatim>\<open>int\<close>: an unsigned division of 64 bits in the receiver, a signed one in
  the sender; the division by zero and a value that does not fit are undefined.\<close>

definition per_sec :: "int \<Rightarrow> stop + int" where
  "per_sec q = (if - (2 ^ 31) \<le> q * 1000 \<and> q * 1000 < 2 ^ 31 then Inr (q * 1000) else Inl Undefined)"

definition receive_rate :: "64 word \<Rightarrow> int \<Rightarrow> stop + int" where
  "receive_rate packet_count receive_duration =
     (if word_of_int receive_duration = (0 :: 64 word) then Inl Undefined
      else per_sec (uint (packet_count div word_of_int receive_duration)))"

definition send_rate :: "u32 \<Rightarrow> int \<Rightarrow> stop + int" where
  "send_rate packet_count receive_duration =
     (if receive_duration = 0 then Inl Undefined else per_sec (uint packet_count sdiv receive_duration))"

text \<open>The goodput is \<^verbatim>\<open>(data_total_size / 1024 / 1024) / (receive_duration / 1000.0)\<close>.  Without a start time everything stays 0.\<close>

definition summarise ::
  "test_env \<Rightarrow> (int \<Rightarrow> stop + int) \<Rightarrow> int \<Rightarrow> int \<Rightarrow> int \<Rightarrow> test_world \<Rightarrow> stop + test_summary \<times> test_world" where
  "summarise env rate packet_count data_total_size receive_start_time_stamp w =
     (if receive_start_time_stamp \<noteq> 0 then
        (let (t, w) = read_clock env w
         in bind_result (long_long (t - receive_start_time_stamp)) (\<lambda>receive_duration.
            bind_result (rate receive_duration) (\<lambda>packets_per_sec.
              Inr (\<lparr>ts_packet_count = packet_count, ts_data_total_size = data_total_size, ts_receive_duration = receive_duration,
                    ts_packets_per_sec = packets_per_sec,
                    ts_goodput = (data_total_size sdiv 1024 sdiv 1024, receive_duration)\<rparr>, w))))
      else Inr (\<lparr>ts_packet_count = packet_count, ts_data_total_size = data_total_size, ts_receive_duration = 0,
                 ts_packets_per_sec = 0, ts_goodput = (0, 1)\<rparr>, w))"

subsection \<open>Receiving\<close>

record receive_state =
  rv_buf :: string
  rv_info_size :: int
  rv_packet_count :: "64 word"
  rv_data_total_size :: int
  rv_receive_start_time_stamp :: int
  rv_send_time_stamp :: int
  rv_packet_number :: int
  rv_delay :: int
  rv_receive_time_stamp :: int
  rv_msg :: string
  rv_pmanager :: packet_manager
  rv_world :: test_world

definition write_file :: "test_options \<Rightarrow> file_line \<Rightarrow> test_world \<Rightarrow> test_world" where
  "write_file opts l w = w\<lparr>tw_files := (tw_files w)(o_file_name opts := tw_files w (o_file_name opts) @ [l])\<rparr>"

text \<open>The body of the loop: one call of \<open>receive_packet\<close> with a buffer of \<^verbatim>\<open>size - 1\<close> bytes.  When the call
  fails the size is -1 and the old bytes stay in the buffer.\<close>

definition receive_call :: "test_env \<Rightarrow> mc_socket \<Rightarrow> receive_state \<Rightarrow> receive_state" where
  "receive_call env ms st =
     (let w = rv_world st; n = length (k_log (tw_kernel w));
          ((ok, info_size), k) = receive_packet 1471 ms (rv_info_size st) (tw_kernel w);
          buf = (if length (k_log k) \<noteq> n then recv_into (rv_buf st) (map (te_byte env n) [0..<nat info_size]) else rv_buf st)
      in st\<lparr>rv_buf := buf, rv_info_size := info_size, rv_world := w\<lparr>tw_kernel := k\<rparr>\<rparr>)"

definition parse_time :: "test_env \<Rightarrow> test_options \<Rightarrow> receive_state \<Rightarrow> stop + receive_state" where
  "parse_time env opts st =
     (if o_parse_time_stamp opts \<and> (o_include_data opts \<or> o_print_status_msg opts) then
        (let (receive_time_stamp, w) = read_clock env (rv_world st);
             (packet_number, send_time_stamp, msg) = parse_packet (rv_buf st) (rv_packet_number st) (rv_send_time_stamp st)
         in bind_result (long_long (receive_time_stamp - send_time_stamp)) (\<lambda>delay.
              Inr (st\<lparr>rv_receive_time_stamp := receive_time_stamp, rv_packet_number := packet_number,
                      rv_send_time_stamp := send_time_stamp, rv_msg := msg, rv_delay := delay, rv_world := w\<rparr>)))
      else Inr st)"

definition data_line :: "receive_state \<Rightarrow> string" where
  "data_line st = decimal_int (rv_packet_number st) @ '' '' @ decimal_int (rv_send_time_stamp st) @ '' '' @
     decimal_int (rv_receive_time_stamp st) @ '' '' @ decimal_int (rv_delay st) @ rv_msg st"

definition count_packet :: "test_options \<Rightarrow> receive_state \<Rightarrow> receive_state" where
  "count_packet opts st =
     (let w = (if o_save_to_file opts \<and> o_include_data opts \<and> o_parse_time_stamp opts
               then write_file opts (Text_line (data_line st)) (rv_world st) else rv_world st)
      in st\<lparr>rv_packet_count := rv_packet_count st + 1, rv_world := w\<rparr>)"

definition count_if_new :: "test_options \<Rightarrow> receive_state \<Rightarrow> receive_state" where
  "count_if_new opts st =
     (if o_ignore_duplicated_packets opts then
        (let (new, pm) = is_packet_new (rv_packet_number st) (rv_pmanager st); st = st\<lparr>rv_pmanager := pm\<rparr>
         in if new then count_packet opts st else st)
      else count_packet opts st)"

definition handle_packet :: "test_env \<Rightarrow> test_options \<Rightarrow> receive_state \<Rightarrow> stop + receive_state" where
  "handle_packet env opts st =
     bind_result (long_long (rv_data_total_size st + rv_info_size st)) (\<lambda>data_total_size.
       let (start, w) = (if rv_packet_count st = 0 then read_clock env (rv_world st) else (rv_receive_start_time_stamp st, rv_world st))
       in bind_result (parse_time env opts (st\<lparr>rv_data_total_size := data_total_size,
            rv_receive_start_time_stamp := start, rv_world := w\<rparr>)) (\<lambda>st. Inr (count_if_new opts st)))"

definition receive_step :: "test_env \<Rightarrow> test_options \<Rightarrow> mc_socket \<Rightarrow> receive_state \<Rightarrow> stop + receive_state" where
  "receive_step env opts ms st =
     (let st = receive_call env ms st
      in if rv_info_size st = 0 then Inr st
         else
           (let (running, w) = read_running env (rv_world st); st = st\<lparr>rv_world := w\<rparr>
            in if running then handle_packet env opts st else Inr st))"

fun receive_loop :: "nat \<Rightarrow> test_env \<Rightarrow> test_options \<Rightarrow> mc_socket \<Rightarrow> receive_state \<Rightarrow> stop + receive_state" where
  "receive_loop 0 env opts ms st = Inl Out_of_fuel"
| "receive_loop (Suc fuel) env opts ms st =
     (let (running, w) = read_running env (rv_world st); st = st\<lparr>rv_world := w\<rparr>
      in if running \<and> (o_max_count opts = 0 \<or> rv_packet_count st < o_max_count opts)
         then bind_result (receive_step env opts ms st) (receive_loop fuel env opts ms)
         else Inr st)"

definition open_file :: "test_env \<Rightarrow> test_options \<Rightarrow> test_world \<Rightarrow> stop + test_world" where
  "open_file env opts w =
     (if \<not> o_save_to_file opts then Inr w
      else if (o_file_operation_mode opts \<noteq> ''override'' \<and> o_file_operation_mode opts \<noteq> ''append'') \<or> \<not> te_can_open env (o_file_name opts)
      then Inl (Exit (''failed to open file: '' @ o_file_name opts))
      else
        (let w = (if o_file_operation_mode opts = ''override'' then w\<lparr>tw_files := (tw_files w)(o_file_name opts := [])\<rparr> else w)
         in if o_include_file_header opts then
              Inr (write_file opts (Text_line (if o_parse_time_stamp opts
                then ''packet_number(#) time_stamp_sender(ms) time_stamp_receiver(ms) delay(ms) message(str)''
                else ''packet_number(#)'')) w)
            else Inr w))"

text \<open>The text behind the port in the message of a failed bind is left out, as is the group in the messages below.\<close>

definition receive_data ::
  "nat \<Rightarrow> test_env \<Rightarrow> test_options \<Rightarrow> mc_socket \<Rightarrow> packet_manager \<Rightarrow> test_world \<Rightarrow> stop + packet_manager \<times> test_world" where
  "receive_data fuel env opts ms pmanager w =
     bind_result (open_file env opts w) (\<lambda>w.
     bind_result (or_exit ''failed to set socket option reuse port'' (set_reuse_port True ms) w) (\<lambda>w.
     bind_result (or_exit ''failed to set socket option multicast all'' (set_multicast_all False ms) w) (\<lambda>w.
     bind_result (or_exit ''failed to bind port''
       (bind_udp_socket (addr_of_family (get_addr_family (o_gaddr opts))) (word_of_int (o_port opts)) ms) w) (\<lambda>w.
     bind_result (or_exit ''failed to set receive timeout'' (set_receive_timeout 100 ms) w) (\<lambda>w.
     bind_result (receive_loop fuel env opts ms
       \<lparr>rv_buf = replicate 1472 (CHR 0x00), rv_info_size = 0, rv_packet_count = 0, rv_data_total_size = 0,
        rv_receive_start_time_stamp = 0, rv_send_time_stamp = 0, rv_packet_number = 0, rv_delay = 0, rv_receive_time_stamp = 0,
        rv_msg = [], rv_pmanager = pmanager, rv_world = w\<rparr>) (\<lambda>st.
     bind_result (summarise env (receive_rate (rv_packet_count st)) (uint (rv_packet_count st)) (rv_data_total_size st)
       (rv_receive_start_time_stamp st) (rv_world st)) (\<lambda>(summary, w).
       let w = w\<lparr>tw_out := tw_out w @ [Summary_line summary]\<rparr>
       in Inr (rv_pmanager st,
               if o_save_to_file opts \<and> o_include_summary opts then write_file opts (Summary_line summary) w else w))))))))"

subsection \<open>Sending\<close>

function busy_wait :: "int \<Rightarrow> int \<Rightarrow> int" where
  "busy_wait busy_waiting busy_waiting_counter =
     (if busy_waiting < busy_waiting_counter then busy_wait (busy_waiting + 1) busy_waiting_counter else busy_waiting)"
  by pat_completeness auto
termination
  by (relation "measure (\<lambda>(b, c). nat (c - b))") auto

declare busy_wait.simps [simp del]

record send_state =
  sn_current_packet_number :: u32
  sn_data_total_size :: int
  sn_send_msg :: string
  sn_world :: test_world

definition string_bytes :: "string \<Rightarrow> u8 list" where
  "string_bytes s = map of_char s"

definition send_step :: "test_env \<Rightarrow> test_options \<Rightarrow> mc_socket \<Rightarrow> u32 \<Rightarrow> 64 word \<Rightarrow> send_state \<Rightarrow> stop + send_state" where
  "send_step env opts ms start_packet_number i st =
     (let current_packet_number = ucast (ucast start_packet_number + i + 1);
          (send_msg, w) =
            (if o_include_time_stamp opts
             then (let (send_time_stamp, w) = read_clock env (sn_world st)
                   in (stamped_message current_packet_number send_time_stamp (o_msg opts), w))
             else (sn_send_msg st, sn_world st))
      in bind_result (or_exit ''failed to send packet''
           (send_packet (o_gaddr opts) (word_of_int (o_port opts)) (string_bytes send_msg) ms) w) (\<lambda>w.
         bind_result (long_long (sn_data_total_size st + int (length send_msg))) (\<lambda>data_total_size.
           Inr \<lparr>sn_current_packet_number = current_packet_number, sn_data_total_size = data_total_size, sn_send_msg = send_msg,
                sn_world = w\<lparr>tw_busy_waiting := busy_wait 0 (o_busy_waiting_counter opts)\<rparr>\<rparr>)))"

fun send_loop ::
  "nat \<Rightarrow> test_env \<Rightarrow> test_options \<Rightarrow> mc_socket \<Rightarrow> u32 \<Rightarrow> 64 word \<Rightarrow> send_state \<Rightarrow> stop + send_state" where
  "send_loop 0 env opts ms start_packet_number i st = Inl Out_of_fuel"
| "send_loop (Suc fuel) env opts ms start_packet_number i st =
     (if i < o_max_count opts \<or> o_max_count opts = 0 then
        (let (running, w) = read_running env (sn_world st); st = st\<lparr>sn_world := w\<rparr>
         in if running then bind_result (send_step env opts ms start_packet_number i st)
                              (send_loop fuel env opts ms start_packet_number (i + 1))
            else Inr st)
      else Inr st)"

definition send_data ::
  "nat \<Rightarrow> test_env \<Rightarrow> test_options \<Rightarrow> mc_socket \<Rightarrow> u32 \<Rightarrow> test_world \<Rightarrow> stop + u32 \<times> test_world" where
  "send_data fuel env opts ms current_packet_number w =
     bind_result (or_exit ''failed to set ttl'' (set_ttl (o_ttl opts) ms) w) (\<lambda>w.
       let (receive_start_time_stamp, w) = read_clock env w
       in bind_result (send_loop fuel env opts ms current_packet_number 0
            \<lparr>sn_current_packet_number = current_packet_number, sn_data_total_size = 0, sn_send_msg = o_msg opts, sn_world = w\<rparr>) (\<lambda>st.
          let packet_count = sn_current_packet_number st - current_packet_number
          in bind_result (summarise env (send_rate packet_count) (uint packet_count) (sn_data_total_size st)
               receive_start_time_stamp (sn_world st)) (\<lambda>(summary, w).
               Inr (sn_current_packet_number st, w\<lparr>tw_out := tw_out w @ [Summary_line summary]\<rparr>))))"

subsection \<open>Running a section\<close>

definition read_test_options :: "test_env \<Rightarrow> config_map \<Rightarrow> string \<Rightarrow> string \<Rightarrow> string \<Rightarrow> string \<Rightarrow> addr_storage \<Rightarrow> stop + test_options" where
  "read_test_options env cm to_do output_file send_msg ifn gaddr =
     bind_result (get_max_count cm to_do) (\<lambda>max_count.
     bind_result (get_src_list env cm to_do (get_addr_family gaddr)) (\<lambda>slist.
     bind_result (get_action cm to_do) (\<lambda>action.
     bind_result (get_mc_filter cm to_do) (\<lambda>mfilter.
     bind_result (get_int cm to_do ''ttl'' 10) (\<lambda>ttl.
     bind_result (get_int cm to_do ''port'' 1234) (\<lambda>port.
     bind_result (get_int cm to_do ''busy_waiting_counter'' 0) (\<lambda>busy_waiting_counter.
     bind_result (get_send_interval cm to_do) (\<lambda>interval.
     bind_result (get_boolean cm to_do ''print_status_msg'' False) (\<lambda>print_status_msg.
     bind_result (get_boolean cm to_do ''save_to_file'' False) (\<lambda>save_to_file.
     bind_result (get_boolean cm to_do ''include_file_header'' True) (\<lambda>include_file_header.
     bind_result (get_boolean cm to_do ''include_data'' True) (\<lambda>include_data.
     bind_result (get_boolean cm to_do ''include_summary'' True) (\<lambda>include_summary.
     bind_result (get_boolean cm to_do ''ignore_duplicated_packets'' False) (\<lambda>ignore_duplicated_packets.
     bind_result (get_boolean cm to_do ''parse_time_stamp'' True) (\<lambda>parse_time_stamp.
     bind_result (get_boolean cm to_do ''include_time_stamp'' True) (\<lambda>include_time_stamp.
     bind_result (get_file_operation_mode cm to_do) (\<lambda>file_operation_mode.
     bind_result (get_lifetime cm to_do) (\<lambda>lifetime.
     bind_result (get_to_do_next cm to_do) (\<lambda>to_do_next.
       Inr \<lparr>o_if_name = ifn, o_gaddr = gaddr, o_max_count = max_count, o_slist = slist, o_action = action, o_mfilter = mfilter,
            o_ttl = ttl, o_port = port, o_busy_waiting_counter = busy_waiting_counter, o_msg = get_msg cm to_do send_msg,
            o_interval = interval, o_print_status_msg = print_status_msg, o_save_to_file = save_to_file,
            o_file_name = get_file_name cm to_do output_file, o_include_file_header = include_file_header,
            o_include_data = include_data, o_include_summary = include_summary,
            o_ignore_duplicated_packets = ignore_duplicated_packets, o_parse_time_stamp = parse_time_stamp,
            o_include_time_stamp = include_time_stamp, o_file_operation_mode = file_operation_mode, o_lifetime = lifetime,
            o_to_do_next = to_do_next\<rparr>)))))))))))))))))))"

definition start_timer :: "test_options \<Rightarrow> test_world \<Rightarrow> test_world" where
  "start_timer opts w = (if o_lifetime opts > 0 then w\<lparr>tw_timers := tw_timers w @ [o_lifetime opts]\<rparr> else w)"

text \<open>The values of \<^verbatim>\<open>MCAST_INCLUDE\<close> and \<^verbatim>\<open>MCAST_EXCLUDE\<close>.\<close>

fun filter_mode_value :: "mc_filter \<Rightarrow> u32" where
  "filter_mode_value INCLUDE_MODE = 1"
| "filter_mode_value EXCLUDE_MODE = 0"

definition join_test_group :: "test_env \<Rightarrow> test_options \<Rightarrow> mc_socket \<Rightarrow> test_world \<Rightarrow> stop + test_world" where
  "join_test_group env opts ms w =
     (let i = if_nametoindex (te_net env) (o_if_name opts)
      in if is_multicast_addr (o_gaddr opts) then
           bind_result (or_exit ''failed to join group'' (join_group (o_gaddr opts) i ms) w) (\<lambda>w.
             if o_slist opts \<noteq> [] then
               or_exit ''failed to set source filter''
                 (set_source_filter i (o_gaddr opts) (filter_mode_value (o_mfilter opts)) (o_slist opts) ms) w
             else Inr w)
         else Inr w)"

definition close_test_socket :: "mc_socket \<Rightarrow> test_world \<Rightarrow> test_world" where
  "close_test_socket ms w = w\<lparr>tw_kernel := close_socket ms (tw_kernel w)\<rparr>"

text \<open>The action of a section: the next packet number and the packet manager afterwards.\<close>

definition run_action ::
  "nat \<Rightarrow> test_env \<Rightarrow> test_options \<Rightarrow> mc_socket \<Rightarrow> u32 \<Rightarrow> packet_manager \<Rightarrow> test_world \<Rightarrow> stop + u32 \<times> packet_manager \<times> test_world" where
  "run_action fuel env opts ms current_packet_number pmanager w =
     (if o_action opts = ''receive'' then
        bind_result (join_test_group env opts ms w) (\<lambda>w.
        bind_result (receive_data fuel env opts ms pmanager w) (\<lambda>r. Inr (current_packet_number, r)))
      else if o_action opts = ''send'' then
        bind_result (or_exit ''failed to choose interface''
          (choose_if (te_net env) (if_nametoindex (te_net env) (o_if_name opts)) ms) w) (\<lambda>w.
        bind_result (send_data fuel env opts ms current_packet_number w) (\<lambda>(current_packet_number, w).
          Inr (current_packet_number, pmanager, w)))
      else Inl (Exit (''action '' @ o_action opts @ '' not available'')))"

text \<open>\<open>fuel\<close> bounds the rounds of one loop, \<open>n\<close> the number of sections in the chain.  The socket is closed before the next
  section runs and, by its destructor, once more when the function returns.\<close>

fun tester_run :: "nat \<Rightarrow> nat \<Rightarrow> test_env \<Rightarrow> config_map \<Rightarrow> string \<Rightarrow> string \<Rightarrow> u32 \<Rightarrow> packet_manager \<Rightarrow> string \<Rightarrow> test_world \<Rightarrow>
     stop + packet_manager \<times> test_world" where
  "tester_run fuel 0 env cm to_do output_file current_packet_number pmanager send_msg w = Inl Out_of_fuel"
| "tester_run fuel (Suc n) env cm to_do output_file current_packet_number pmanager send_msg w =
     (if \<not> has_group cm to_do then Inl (Exit (''to_do '' @ to_do @ '' not found''))
      else
        bind_result (get_test_if_name env cm to_do) (\<lambda>ifn.
        bind_result (get_gaddr env cm to_do) (\<lambda>gaddr.
        bind_result (get_mc_socket (get_addr_family gaddr) w) (\<lambda>(ms, w).
        bind_result (read_test_options env cm to_do output_file send_msg ifn gaddr) (\<lambda>opts.
        bind_result (run_action fuel env opts ms current_packet_number pmanager (start_timer opts w))
          (\<lambda>(current_packet_number, pmanager, w).
        bind_result
          (if o_to_do_next opts \<noteq> ''null''
           then tester_run fuel n env cm (o_to_do_next opts) output_file current_packet_number pmanager send_msg (close_test_socket ms w)
           else Inr (pmanager, close_test_socket ms w)) (\<lambda>(pmanager, w).
          Inr (pmanager, close_test_socket ms w))))))))"

subsection \<open>The program\<close>

text \<open>The constructor.  \<^verbatim>\<open>getopt\<close> is an argument: the options it reports one after the other and the index it ends with.
  \<^verbatim>\<open>args[1]\<close> is a null pointer when the program has no argument.\<close>

fun tester_options :: "(char \<times> string) list \<Rightarrow> string \<times> string \<times> string \<Rightarrow> stop + string \<times> string \<times> string" where
  "tester_options [] r = Inr r"
| "tester_options ((c, optarg) # cs) (config_file, output_file, msg) =
     (if c = CHR ''i'' then tester_options cs (optarg, output_file, msg)
      else if c = CHR ''o'' then tester_options cs (config_file, optarg, msg)
      else if c = CHR ''m'' then tester_options cs (config_file, output_file, optarg)
      else Inl (Exit ''Unknown argument''))"

definition new_tester ::
  "nat \<Rightarrow> nat \<Rightarrow> test_env \<Rightarrow> (char \<times> string) list \<times> nat \<Rightarrow> string list \<Rightarrow> test_world \<Rightarrow> stop + packet_manager \<times> test_world" where
  "new_tester fuel n env getopt args w =
     (let (cs, optind) = getopt; arg_count = length args
      in bind_result (tester_options cs ([], [], [])) (\<lambda>(config_file, output_file, msg).
           if optind < arg_count then Inl (Exit (''Unknown option argument: '' @ args ! optind))
           else if arg_count \<ge> 1 then
             (if arg_count = 1 then Inl Undefined
              else
                (let to_do = args ! 1
                 in if to_do = ''-h'' \<or> to_do = ''--help'' \<or> to_do = ''help'' then Inl (Exit [])
                    else
                      (case read_ini (te_ini env) (if config_file = [] then ''tester.ini'' else config_file) [] of
                         Inl e \<Rightarrow> Inl (Uncaught e)
                       | Inr (cm, bad) \<Rightarrow> tester_run fuel n env cm to_do output_file 0 (new_packet_manager 1000) msg w)))
           else Inl (Exit ''to do not defined'')))"

text \<open>\<^verbatim>\<open>main\<close> catches character strings only, which nothing of the tester throws: the process returns 0 after \<^verbatim>\<open>exit(0)\<close> and a normal
  end, and is aborted by an exception.\<close>

datatype exit_status = Exit_code int | Aborted | Undefined_status | Still_running

fun main_tester :: "stop + packet_manager \<times> test_world \<Rightarrow> exit_status" where
  "main_tester (Inr r) = Exit_code 0"
| "main_tester (Inl (Exit m)) = Exit_code 0"
| "main_tester (Inl (Uncaught e)) = Aborted"
| "main_tester (Inl Undefined) = Undefined_status"
| "main_tester (Inl Out_of_fuel) = Still_running"

subsection \<open>Facts about the results\<close>

lemma bind_Inr: "bind_result r f = Inr y \<longleftrightarrow> (\<exists>x. r = Inr x \<and> f x = Inr y)"
  by (cases r) (simp_all add: bind_result_def)

lemma bind_Inl: "bind_result r f = Inl e \<longleftrightarrow> r = Inl e \<or> (\<exists>x. r = Inr x \<and> f x = Inl e)"
  by (cases r) (simp_all add: bind_result_def)

lemma long_long_Inr: "long_long n = Inr m \<longleftrightarrow> m = n \<and> - (2 ^ 63) \<le> n \<and> n < 2 ^ 63"
  by (auto simp: long_long_def)

lemma long_long_Inl: "long_long n = Inl e \<Longrightarrow> e = Undefined"
  by (simp add: long_long_def split: if_splits)

lemma or_exit_Inr: "or_exit m f w = Inr w' \<longleftrightarrow> (\<exists>k. f (tw_kernel w) = (True, k) \<and> w' = w\<lparr>tw_kernel := k\<rparr>)"
  by (auto simp: or_exit_def split: prod.splits)

lemma or_exit_Inl: "or_exit m f w = Inl e \<Longrightarrow> e = Exit m"
  by (auto simp: or_exit_def split: prod.splits if_splits)

lemmas result_iffs = bind_Inr bind_Inl long_long_Inr or_exit_Inr

lemma busy_wait_result: "busy_wait b c = max b c"
  by (induction b c rule: busy_wait.induct) (subst busy_wait.simps, auto)

subsection \<open>Sending\<close>

text \<open>The message of the packet that is sent after \<open>j\<close> others.\<close>

definition message_text :: "test_env \<Rightarrow> test_options \<Rightarrow> u32 \<Rightarrow> nat \<Rightarrow> string" where
  "message_text env opts number clock =
     (if o_include_time_stamp opts then stamped_message number (te_clock env clock) (o_msg opts) else o_msg opts)"

definition message_call :: "test_options \<Rightarrow> mc_socket \<Rightarrow> string \<Rightarrow> syscall" where
  "message_call opts ms m = Sys_sendto (m_sock ms) (string_bytes m) (o_gaddr opts) (word_of_int (o_port opts))"

lemma send_packet_True:
  "send_packet a p d ms k = (True, k') \<longleftrightarrow>
     is_udp_valid ms \<and> k_result k (length (k_log k)) \<noteq> - 1 \<and> k' = k\<lparr>k_log := k_log k @ [Sys_sendto (m_sock ms) d a p]\<rparr>"
  by (auto simp: send_packet_def when_valid_def sys_ok_def sys_def)

lemma packet_number_word: "ucast (ucast s + (of_nat j :: 64 word) + 1) = (s :: u32) + of_nat (Suc j)"
proof (transfer fixing: j)
  fix s :: int
  have "(s mod 2 ^ 32 + int j + 1) mod 2 ^ 64 mod 2 ^ 32 = (s mod 2 ^ 32 + (int j + 1)) mod 2 ^ 32"
    by (subst mod_mod_cancel) (simp_all add: add.assoc)
  also have "\<dots> = (s + int (Suc j)) mod 2 ^ 32" by (simp only: mod_add_left_eq) (simp add: ac_simps)
  finally show "take_bit LENGTH(32) (take_bit LENGTH(64) (take_bit LENGTH(32) s + int j + 1)) = take_bit LENGTH(32) (s + int (Suc j))"
    by (simp add: take_bit_eq_mod)
qed

text \<open>The messages of \<open>m\<close> packets that follow the packet \<open>start + j\<close>.\<close>

definition messages :: "test_env \<Rightarrow> test_options \<Rightarrow> u32 \<Rightarrow> nat \<Rightarrow> nat \<Rightarrow> nat \<Rightarrow> string list" where
  "messages env opts start clock j m = map (\<lambda>i. message_text env opts (start + of_nat (Suc (j + i))) (clock + i)) [0..<m]"

lemma messages_Suc:
  "messages env opts start clock j (Suc m) =
     message_text env opts (start + of_nat (Suc j)) clock # messages env opts start (clock + 1) (Suc j) m"
  unfolding messages_def upt_conv_Cons [OF zero_less_Suc] map_Suc_upt [symmetric] by simp

lemma messages_clock: "\<not> o_include_time_stamp opts \<Longrightarrow> messages env opts start c j m = messages env opts start c' j m"
  by (simp add: messages_def message_text_def)

lemma send_step_Inr:
  assumes "send_step env opts ms start (of_nat j) st = Inr st'" "o_include_time_stamp opts \<or> sn_send_msg st = o_msg opts"
  defines "m \<equiv> message_text env opts (start + of_nat (Suc j)) (tw_clocks (sn_world st))"
  shows "sn_current_packet_number st' = start + of_nat (Suc j) \<and> sn_send_msg st' = m
    \<and> sn_data_total_size st' = sn_data_total_size st + int (length m)
    \<and> k_log (tw_kernel (sn_world st')) = k_log (tw_kernel (sn_world st)) @ [message_call opts ms m]
    \<and> tw_reads (sn_world st') = tw_reads (sn_world st)
    \<and> tw_clocks (sn_world st') = tw_clocks (sn_world st) + (if o_include_time_stamp opts then 1 else 0)"
  using assms
  by (auto simp: send_step_def packet_number_word read_clock_def message_text_def message_call_def send_packet_True result_iffs Let_def
      split: if_splits)

lemma send_loop_Inr:
  assumes "send_loop fuel env opts ms start (of_nat j) st = Inr st'" "o_include_time_stamp opts \<or> sn_send_msg st = o_msg opts"
  shows "\<exists>m. sn_current_packet_number st' = (if m = 0 then sn_current_packet_number st else start + of_nat (j + m))
    \<and> k_log (tw_kernel (sn_world st')) = k_log (tw_kernel (sn_world st)) @
        map (message_call opts ms) (messages env opts start (tw_clocks (sn_world st)) j m)
    \<and> sn_data_total_size st' = sn_data_total_size st +
        int (length (concat (messages env opts start (tw_clocks (sn_world st)) j m)))
    \<and> (\<forall>i < m. o_max_count opts = 0 \<or> of_nat (j + i) < o_max_count opts)
    \<and> (o_max_count opts \<noteq> 0 \<and> \<not> of_nat (j + m) < o_max_count opts \<or> \<not> te_running env (tw_reads (sn_world st) + m))"
  using assms
proof (induction fuel arbitrary: j st)
  case 0
  then show ?case by simp
next
  case (Suc fuel)
  let ?max = "o_max_count opts" and ?w = "sn_world st" and ?st = "st\<lparr>sn_world := sn_world st\<lparr>tw_reads := Suc (tw_reads (sn_world st))\<rparr>\<rparr>"
  show ?case
  proof (cases "(of_nat j < ?max \<or> ?max = 0) \<and> te_running env (tw_reads ?w)")
    case False
    with Suc.prems show ?thesis
      by (intro exI [of _ 0]) (auto simp: read_running_def Let_def messages_def split: if_splits)
  next
    case True
    with Suc.prems(1) obtain st1 where st1: "send_step env opts ms start (of_nat j) ?st = Inr st1"
      "send_loop fuel env opts ms start (of_nat j + 1) st1 = Inr st'"
      by (auto simp: read_running_def bind_Inr)
    have inc: "(of_nat j + 1 :: 64 word) = of_nat (Suc j)" by simp
    note s = send_step_Inr [OF st1(1)]
    have "o_include_time_stamp opts \<or> sn_send_msg st1 = o_msg opts"
      using s Suc.prems(2) by (auto simp: message_text_def)
    from Suc.IH [OF st1(2) [unfolded inc] this] obtain m where m:
      "sn_current_packet_number st' = (if m = 0 then sn_current_packet_number st1 else start + of_nat (Suc j + m))"
      "k_log (tw_kernel (sn_world st')) = k_log (tw_kernel (sn_world st1)) @
         map (message_call opts ms) (messages env opts start (tw_clocks (sn_world st1)) (Suc j) m)"
      "sn_data_total_size st' = sn_data_total_size st1 +
         int (length (concat (messages env opts start (tw_clocks (sn_world st1)) (Suc j) m)))"
      "\<forall>i < m. ?max = 0 \<or> of_nat (Suc j + i) < ?max"
      "?max \<noteq> 0 \<and> \<not> of_nat (Suc j + m) < ?max \<or> \<not> te_running env (tw_reads (sn_world st1) + m)" by blast
    have clock: "messages env opts start (tw_clocks (sn_world st1)) (Suc j) m = messages env opts start (tw_clocks ?w + 1) (Suc j) m"
      using s Suc.prems(2) messages_clock [of opts env start] by (cases "o_include_time_stamp opts") auto
    have "?max = 0 \<or> of_nat (j + i) < ?max" if "i < Suc m" for i
      using that m(4) [rule_format, of "i - 1"] True by (cases i) auto
    moreover have "sn_current_packet_number st' = start + of_nat (j + Suc m)"
      using s Suc.prems(2) m(1) by (cases "m = 0") simp_all
    moreover have "k_log (tw_kernel (sn_world st')) = k_log (tw_kernel ?w) @
        map (message_call opts ms) (messages env opts start (tw_clocks ?w) j (Suc m))"
      "sn_data_total_size st' = sn_data_total_size st +
        int (length (concat (messages env opts start (tw_clocks ?w) j (Suc m))))"
      using s Suc.prems(2) m(2,3) unfolding clock messages_Suc by simp_all
    moreover have "?max \<noteq> 0 \<and> \<not> of_nat (j + Suc m) < ?max \<or> \<not> te_running env (tw_reads ?w + Suc m)"
      using s Suc.prems(2) m(5) by simp
    ultimately show ?thesis by (intro exI [of _ "Suc m"]) simp
  qed
qed

lemma send_step_reads: "send_step env opts ms start i st = Inr st' \<Longrightarrow> tw_reads (sn_world st') = tw_reads (sn_world st)"
  by (auto simp: send_step_def read_clock_def result_iffs Let_def split: if_splits)

lemma send_step_Inl: "send_step env opts ms start i st = Inl e \<Longrightarrow> e = Exit ''failed to send packet'' \<or> e = Undefined"
  by (auto simp: send_step_def bind_Inl Let_def split: if_splits prod.splits dest: or_exit_Inl long_long_Inl)

lemma send_loop_Inl:
  "send_loop fuel env opts ms start i st = Inl e \<Longrightarrow>
     e = Exit ''failed to send packet'' \<or> e = Undefined
   \<or> e = Out_of_fuel \<and> (o_max_count opts = 0 \<or> fuel \<le> unat (o_max_count opts) - unat i)
       \<and> (\<forall>N. \<not> te_running env (tw_reads (sn_world st) + N) \<longrightarrow> fuel \<le> N)"
proof (induction fuel arbitrary: i st)
  case 0
  then show ?case by simp
next
  case (Suc fuel)
  let ?max = "o_max_count opts" and ?st = "st\<lparr>sn_world := sn_world st\<lparr>tw_reads := Suc (tw_reads (sn_world st))\<rparr>\<rparr>"
  have run: "(i < ?max \<or> ?max = 0) \<and> te_running env (tw_reads (sn_world st))"
    using Suc.prems by (auto simp: read_running_def Let_def split: if_splits)
  then consider "send_step env opts ms start i ?st = Inl e" |
    st1 where "send_step env opts ms start i ?st = Inr st1" "send_loop fuel env opts ms start (i + 1) st1 = Inl e"
    using Suc.prems by (auto simp: read_running_def bind_Inl)
  then show ?case
  proof cases
    case 1
    then show ?thesis using send_step_Inl by blast
  next
    case 2
    have i: "unat (i + 1) = Suc (unat i) \<and> unat i < unat ?max" if "?max \<noteq> 0"
    proof -
      have "i < ?max" using run that by simp
      then have "unat i < unat ?max" by (simp add: word_less_nat_alt)
      moreover have "unat ?max < 2 ^ 64" using unsigned_less [of ?max] by simp
      moreover have "unat (i + 1) = (unat i + 1) mod 2 ^ 64" by (simp add: unat_word_ariths)
      ultimately show ?thesis by simp
    qed
    have "Suc fuel \<le> N" if "\<forall>N. \<not> te_running env (Suc (tw_reads (sn_world st)) + N) \<longrightarrow> fuel \<le> N"
        "\<not> te_running env (tw_reads (sn_world st) + N)" for N
      using that run by (cases N) auto
    then show ?thesis
      using Suc.IH [OF 2(2)] send_step_reads [OF 2(1)] i by (cases "?max = 0") auto
  qed
qed

subsection \<open>Receiving\<close>

text \<open>The numbers that are counted of the numbers received, and the packet manager afterwards.\<close>

fun counted :: "bool \<Rightarrow> packet_manager \<Rightarrow> int list \<Rightarrow> int list" where
  "counted ign pm [] = []"
| "counted ign pm (q # qs) =
     (if ign then (let (new, pm') = is_packet_new q pm in (if new then [q] else []) @ counted ign pm' qs)
      else q # counted ign pm qs)"

definition managed :: "bool \<Rightarrow> packet_manager \<Rightarrow> int list \<Rightarrow> packet_manager" where
  "managed ign pm qs = (if ign then fold (\<lambda>q pm. snd (is_packet_new q pm)) qs pm else pm)"

definition lines_wanted :: "test_options \<Rightarrow> bool" where
  "lines_wanted opts \<longleftrightarrow> o_save_to_file opts \<and> o_include_data opts \<and> o_parse_time_stamp opts"

abbreviation rv_file :: "test_options \<Rightarrow> receive_state \<Rightarrow> file_line list" where
  "rv_file opts st \<equiv> tw_files (rv_world st) (o_file_name opts)"

lemma receive_call_keeps:
  "rv_packet_count (receive_call env ms st) = rv_packet_count st" "rv_pmanager (receive_call env ms st) = rv_pmanager st"
  "tw_files (rv_world (receive_call env ms st)) = tw_files (rv_world st)"
  "tw_reads (rv_world (receive_call env ms st)) = tw_reads (rv_world st)"
  by (simp_all add: receive_call_def Let_def case_prod_unfold)

lemma parse_time_keeps:
  "parse_time env opts st = Inr st' \<Longrightarrow> rv_packet_count st' = rv_packet_count st \<and> rv_pmanager st' = rv_pmanager st
     \<and> tw_files (rv_world st') = tw_files (rv_world st) \<and> tw_reads (rv_world st') = tw_reads (rv_world st)
     \<and> tw_kernel (rv_world st') = tw_kernel (rv_world st)"
  by (auto simp: parse_time_def read_clock_def result_iffs split: if_splits prod.splits)

lemma parse_time_Inl: "parse_time env opts st = Inl e \<Longrightarrow> e = Undefined"
  by (auto simp: parse_time_def bind_Inl split: if_splits prod.splits dest: long_long_Inl)

lemma handle_packet_Inl: "handle_packet env opts st = Inl e \<Longrightarrow> e = Undefined"
  by (auto simp: handle_packet_def bind_Inl case_prod_unfold Let_def dest: long_long_Inl parse_time_Inl)

lemma receive_step_Inl: "receive_step env opts ms st = Inl e \<Longrightarrow> e = Undefined"
  by (auto simp: receive_step_def read_running_def Let_def split: if_splits dest: handle_packet_Inl)

text \<open>What a round, and then any number of rounds, does with the numbers \<open>qs\<close> of the packets it receives.\<close>

definition received :: "test_options \<Rightarrow> receive_state \<Rightarrow> int list \<Rightarrow> receive_state \<Rightarrow> bool" where
  "received opts st qs st' \<longleftrightarrow>
     (let ns = counted (o_ignore_duplicated_packets opts) (rv_pmanager st) qs
      in rv_packet_count st' = rv_packet_count st + of_nat (length ns)
       \<and> rv_pmanager st' = managed (o_ignore_duplicated_packets opts) (rv_pmanager st) qs
       \<and> (\<exists>ls. rv_file opts st' = rv_file opts st @ map Text_line ls \<and> length ls = (if lines_wanted opts then length ns else 0)))"

lemma received_none: "rv_packet_count st' = rv_packet_count st \<Longrightarrow> rv_pmanager st' = rv_pmanager st \<Longrightarrow>
    tw_files (rv_world st') = tw_files (rv_world st) \<Longrightarrow> received opts st [] st'"
  by (simp add: received_def managed_def)

lemma one_line: "\<exists>ls. [Text_line t] = map Text_line ls \<and> length ls = Suc 0"
  by (intro exI [of _ "[t]"]) simp

lemma count_if_new_received: "received opts st [rv_packet_number st] (count_if_new opts st)"
  by (auto simp: received_def managed_def count_if_new_def count_packet_def write_file_def lines_wanted_def Let_def one_line
      split: prod.split)

lemma count_if_new_reads:
  "tw_reads (rv_world (count_if_new opts st)) = tw_reads (rv_world st)"
  "tw_kernel (rv_world (count_if_new opts st)) = tw_kernel (rv_world st)"
  by (simp_all add: count_if_new_def count_packet_def write_file_def Let_def split: prod.split)

lemma handle_packet_Inr:
  assumes "handle_packet env opts st = Inr st'"
  shows "received opts st [rv_packet_number st'] st' \<and> tw_reads (rv_world st') = tw_reads (rv_world st)
    \<and> tw_kernel (rv_world st') = tw_kernel (rv_world st)"
proof -
  define start where "start = (if rv_packet_count st = 0 then read_clock env (rv_world st) else (rv_receive_start_time_stamp st, rv_world st))"
  from assms obtain d st1 where p: "parse_time env opts (st\<lparr>rv_data_total_size := d,
      rv_receive_start_time_stamp := fst start, rv_world := snd start\<rparr>) = Inr st1" and st': "st' = count_if_new opts st1"
    unfolding handle_packet_def start_def [symmetric] by (auto simp: bind_Inr case_prod_unfold)
  have k: "rv_packet_count st1 = rv_packet_count st" "rv_pmanager st1 = rv_pmanager st"
    "tw_files (rv_world st1) = tw_files (rv_world st)" "tw_reads (rv_world st1) = tw_reads (rv_world st)"
    "tw_kernel (rv_world st1) = tw_kernel (rv_world st)"
    using parse_time_keeps [OF p] by (auto simp: start_def read_clock_def)
  have "rv_packet_number st' = rv_packet_number st1"
    by (simp add: st' count_if_new_def count_packet_def Let_def split: prod.split)
  moreover have "received opts st [rv_packet_number st1] st'"
    using count_if_new_received [of opts st1] k by (simp add: received_def st')
  ultimately show ?thesis using k by (simp add: st' count_if_new_reads)
qed

text \<open>The size the n-th system call delivers when it is a receive call, and the number of calls with data.\<close>

definition recv_size :: "kernel \<Rightarrow> nat \<Rightarrow> int" where
  "recv_size k n = (if k_result k n = - 1 then (if k_again k n then 0 else - 1) else k_result k n)"

definition data_calls :: "kernel \<Rightarrow> nat \<Rightarrow> nat \<Rightarrow> nat" where
  "data_calls k a b = length (filter (\<lambda>n. recv_size k n \<noteq> 0) [a..<b])"

definition received_calls :: "mc_socket \<Rightarrow> nat \<Rightarrow> kernel \<Rightarrow> kernel" where
  "received_calls ms c k = k\<lparr>k_log := k_log k @ replicate c (Sys_recv (m_sock ms) 1471)\<rparr>"

lemma data_calls_Suc: "data_calls k a (Suc a + c) = of_bool (recv_size k a \<noteq> 0) + data_calls k (Suc a) (Suc a + c)"
proof -
  have "[a..<Suc a + c] = a # [Suc a..<Suc a + c]" by (rule upt_conv_Cons) simp
  then show ?thesis by (simp only: data_calls_def filter.simps) simp
qed

lemma received_calls_Suc: "received_calls ms c (received_calls ms 1 k) = received_calls ms (Suc c) k"
  by (simp add: received_calls_def)

lemma recv_size_calls [simp]: "recv_size (received_calls ms c k) = recv_size k"
  by (simp add: recv_size_def received_calls_def fun_eq_iff)

lemma data_calls_calls [simp]:
  "data_calls (received_calls ms c k) = data_calls k" "length (k_log (received_calls ms c k)) = length (k_log k) + c"
  by (simp_all add: data_calls_def fun_eq_iff) (simp add: received_calls_def)

lemma receive_call_kernel:
  assumes "is_udp_valid ms"
  shows "tw_kernel (rv_world (receive_call env ms st)) = received_calls ms 1 (tw_kernel (rv_world st))
    \<and> rv_info_size (receive_call env ms st) = recv_size (tw_kernel (rv_world st)) (length (k_log (tw_kernel (rv_world st))))"
  using assms
  by (auto simp: receive_call_def receive_packet_def receive_def sys_def received_calls_def recv_size_def Let_def)

lemma receive_step_Inr:
  assumes "receive_step env opts ms st = Inr st'" "is_udp_valid ms"
  defines "k \<equiv> tw_kernel (rv_world st)"
  shows "\<exists>qs. received opts st qs st' \<and> tw_reads (rv_world st) \<le> tw_reads (rv_world st') \<and> tw_kernel (rv_world st') = received_calls ms 1 k
    \<and> length qs = of_bool (recv_size k (length (k_log k)) \<noteq> 0 \<and> te_running env (tw_reads (rv_world st)))
    \<and> (length qs = of_bool (recv_size k (length (k_log k)) \<noteq> 0) \<or> tw_reads (rv_world st') = Suc (tw_reads (rv_world st)))"
proof -
  let ?c = "receive_call env ms st"
  let ?r = "?c\<lparr>rv_world := (rv_world ?c)\<lparr>tw_reads := Suc (tw_reads (rv_world ?c))\<rparr>\<rparr>"
  note c = receive_call_kernel [OF assms(2), of env st] receive_call_keeps
  consider "rv_info_size ?c = 0" "st' = ?c" | "rv_info_size ?c \<noteq> 0" "\<not> te_running env (tw_reads (rv_world st))" "st' = ?r"
    | "rv_info_size ?c \<noteq> 0" "te_running env (tw_reads (rv_world st))" "handle_packet env opts ?r = Inr st'"
    using assms(1) unfolding receive_step_def read_running_def Let_def prod.case
    by (metis (no_types, lifting) sum.inject(2) receive_call_keeps(4))
  then show ?thesis
  proof cases
    case 3
    have "received opts ?r = received opts st" by (simp add: received_def fun_eq_iff receive_call_keeps)
    with handle_packet_Inr [OF 3(3)] 3(1,2) show ?thesis
      by (intro exI [of _ "[rv_packet_number st']"]) (simp add: c k_def)
  qed (intro exI [of _ "[]"], simp add: c received_none k_def)+
qed

lemma managed_append: "managed ign pm (qs @ rs) = managed ign (managed ign pm qs) rs"
  by (simp add: managed_def)

lemma counted_append: "counted ign pm (qs @ rs) = counted ign pm qs @ counted ign (managed ign pm qs) rs"
  by (induction ign pm qs rule: counted.induct) (auto simp: managed_def split: prod.split)

lemma counted_length: "length (counted ign pm qs) \<le> length qs"
  by (induction qs arbitrary: pm) (auto intro: le_SucI split: prod.split)

lemma received_trans:
  assumes "received opts st qs st1" "received opts st1 rs st2"
  shows "received opts st (qs @ rs) st2"
proof -
  let ?ign = "o_ignore_duplicated_packets opts"
  from assms obtain ls ks where
    "rv_file opts st1 = rv_file opts st @ map Text_line ls"
    "length ls = (if lines_wanted opts then length (counted ?ign (rv_pmanager st) qs) else 0)"
    "rv_file opts st2 = rv_file opts st1 @ map Text_line ks"
    "length ks = (if lines_wanted opts then length (counted ?ign (rv_pmanager st1) rs) else 0)"
    by (auto simp: received_def Let_def)
  then have "rv_file opts st2 = rv_file opts st @ map Text_line (ls @ ks)"
    "length (ls @ ks) = (if lines_wanted opts then length (counted ?ign (rv_pmanager st) (qs @ rs)) else 0)"
    using assms(1) by (simp_all add: counted_append received_def Let_def)
  then have "\<exists>js. rv_file opts st2 = rv_file opts st @ map Text_line js
      \<and> length js = (if lines_wanted opts then length (counted ?ign (rv_pmanager st) (qs @ rs)) else 0)" by blast
  moreover have "rv_packet_count st2 = rv_packet_count st + of_nat (length (counted ?ign (rv_pmanager st) (qs @ rs)))"
    "rv_pmanager st2 = managed ?ign (rv_pmanager st) (qs @ rs)"
    using assms by (simp_all add: received_def Let_def counted_append managed_append)
  ultimately show ?thesis unfolding received_def Let_def by blast
qed

text \<open>The bound on the count and the reason for the end of the loop.\<close>

definition stop_bound :: "test_env \<Rightarrow> test_options \<Rightarrow> receive_state \<Rightarrow> int list \<Rightarrow> receive_state \<Rightarrow> bool" where
  "stop_bound env opts st qs st' \<longleftrightarrow>
     (o_max_count opts \<noteq> 0 \<longrightarrow> unat (rv_packet_count st) \<le> unat (o_max_count opts) \<longrightarrow>
        unat (rv_packet_count st) + length (counted (o_ignore_duplicated_packets opts) (rv_pmanager st) qs) \<le> unat (o_max_count opts))
   \<and> (o_max_count opts \<noteq> 0 \<and> \<not> rv_packet_count st' < o_max_count opts \<or> \<not> te_running env (tw_reads (rv_world st') - 1))"

lemma stop_bound_step:
  assumes "received opts st qs st1" "length qs \<le> 1" "o_max_count opts = 0 \<or> rv_packet_count st < o_max_count opts"
    and "stop_bound env opts st1 rs st'"
  shows "stop_bound env opts st (qs @ rs) st'"
proof -
  let ?max = "o_max_count opts" and ?ign = "o_ignore_duplicated_packets opts"
  have "unat (rv_packet_count st) + length (counted ?ign (rv_pmanager st) (qs @ rs)) \<le> unat ?max" if "?max \<noteq> 0"
  proof -
    let ?k = "length (counted ?ign (rv_pmanager st) qs)"
    have "unat (rv_packet_count st) < unat ?max" using assms(3) that by (simp add: word_less_nat_alt)
    moreover have "?k \<le> 1" using counted_length [of ?ign "rv_pmanager st" qs] assms(2) by simp
    ultimately have le: "unat (rv_packet_count st) + ?k \<le> unat ?max" by linarith
    have "rv_packet_count st1 = of_nat (unat (rv_packet_count st) + ?k)" using assms(1) by (simp add: received_def Let_def)
    moreover have "unat ?max < 2 ^ 64" using unsigned_less [of ?max] by simp
    ultimately have "unat (rv_packet_count st1) = unat (rv_packet_count st) + ?k"
      using le by (simp only: unat_of_nat) simp
    with assms(1,4) le that show ?thesis by (simp add: stop_bound_def counted_append received_def Let_def)
  qed
  with assms(4) show ?thesis by (simp add: stop_bound_def)
qed

lemma receive_loop_Inr:
  assumes "receive_loop fuel env opts ms st = Inr st'" "is_udp_valid ms" "\<forall>n. te_running env (Suc n) \<longrightarrow> te_running env n"
  shows "\<exists>qs c. received opts st qs st' \<and> tw_kernel (rv_world st') = received_calls ms c (tw_kernel (rv_world st))
    \<and> stop_bound env opts st qs st'
    \<and> (\<not> te_running env (tw_reads (rv_world st)) \<longrightarrow> c = 0 \<and> \<not> te_running env (tw_reads (rv_world st') - 1))
    \<and> (let k = tw_kernel (rv_world st); d = data_calls k (length (k_log k)) (length (k_log k) + c)
       in length qs = d \<or> Suc (length qs) = d \<and> \<not> te_running env (tw_reads (rv_world st') - 1))"
  using assms(1)
proof (induction fuel arbitrary: st)
  case 0
  then show ?case by simp
next
  case (Suc fuel)
  let ?max = "o_max_count opts" and ?k = "tw_kernel (rv_world st)"
  let ?n = "length (k_log ?k)"
  let ?r = "st\<lparr>rv_world := (rv_world st)\<lparr>tw_reads := Suc (tw_reads (rv_world st))\<rparr>\<rparr>"
  have keep: "received opts ?r = received opts st" by (simp add: received_def fun_eq_iff)
  show ?case
  proof (cases "te_running env (tw_reads (rv_world st)) \<and> (?max = 0 \<or> rv_packet_count st < ?max)")
    case False
    with Suc.prems have "st' = ?r" by (auto simp: read_running_def)
    with False show ?thesis
      by (intro exI [of _ "[]"] exI [of _ 0]) (auto simp: received_none received_calls_def data_calls_def stop_bound_def)
  next
    case True
    with Suc.prems obtain st1 where st1: "receive_step env opts ms ?r = Inr st1" "receive_loop fuel env opts ms st1 = Inr st'"
      by (auto simp: read_running_def bind_Inr)
    from receive_step_Inr [OF st1(1) assms(2)] obtain qs where qs: "received opts st qs st1"
      "tw_kernel (rv_world st1) = received_calls ms 1 ?k"
      "length qs = of_bool (recv_size ?k ?n \<noteq> 0 \<and> te_running env (Suc (tw_reads (rv_world st))))"
      "length qs = of_bool (recv_size ?k ?n \<noteq> 0) \<or> tw_reads (rv_world st1) = Suc (Suc (tw_reads (rv_world st)))"
      unfolding keep by auto
    let ?d = "\<lambda>c. data_calls ?k (Suc ?n) (Suc ?n + c)"
    note IH = Suc.IH [OF st1(2), unfolded qs(2) received_calls_Suc Let_def data_calls_calls]
    from IH obtain rs c where rs: "received opts st1 rs st'" "tw_kernel (rv_world st') = received_calls ms (Suc c) ?k"
      "stop_bound env opts st1 rs st'"
      "\<not> te_running env (tw_reads (rv_world st1)) \<longrightarrow> c = 0 \<and> \<not> te_running env (tw_reads (rv_world st') - 1)"
      "length rs = ?d c \<or> Suc (length rs) = ?d c \<and> \<not> te_running env (tw_reads (rv_world st') - 1)"
      by (simp only: Suc_eq_plus1) blast
    have "length qs \<le> 1" using qs(3) by simp
    then have b: "stop_bound env opts st (qs @ rs) st'" using stop_bound_step [OF qs(1) _ _ rs(3)] True by blast
    have d: "data_calls ?k ?n (?n + Suc c) = of_bool (recv_size ?k ?n \<noteq> 0) + ?d c"
      using data_calls_Suc [of ?k ?n c] by simp
    have "length (qs @ rs) = data_calls ?k ?n (?n + Suc c)
        \<or> Suc (length (qs @ rs)) = data_calls ?k ?n (?n + Suc c) \<and> \<not> te_running env (tw_reads (rv_world st') - 1)"
    proof (cases "length qs = of_bool (recv_size ?k ?n \<noteq> 0)")
      case True
      with rs(5) show ?thesis unfolding d by auto
    next
      case False
      with qs(3) have "recv_size ?k ?n \<noteq> 0" "qs = []" "\<not> te_running env (Suc (tw_reads (rv_world st)))"
        by (auto simp: of_bool_def split: if_splits)
      moreover have "\<not> te_running env (tw_reads (rv_world st1))" using False qs(4) calculation(3) assms(3) by metis
      ultimately show ?thesis using rs(4,5) unfolding d by (simp add: data_calls_def)
    qed
    with True rs(2) b received_trans [OF qs(1) rs(1)] show ?thesis unfolding Let_def by blast
  qed
qed

lemma receive_step_reads: "receive_step env opts ms st = Inr st' \<Longrightarrow> tw_reads (rv_world st) \<le> tw_reads (rv_world st')"
  by (auto simp: receive_step_def read_running_def Let_def receive_call_keeps split: if_splits dest: handle_packet_Inr)

lemma receive_loop_Inl:
  "receive_loop fuel env opts ms st = Inl e \<Longrightarrow>
     e = Undefined \<or> e = Out_of_fuel \<and> (\<forall>N. (\<forall>n \<ge> N. \<not> te_running env n) \<longrightarrow> fuel \<le> N - tw_reads (rv_world st))"
proof (induction fuel arbitrary: st)
  case 0
  then show ?case by simp
next
  case (Suc fuel)
  let ?r = "st\<lparr>rv_world := (rv_world st)\<lparr>tw_reads := Suc (tw_reads (rv_world st))\<rparr>\<rparr>"
  have run: "te_running env (tw_reads (rv_world st))"
    using Suc.prems by (auto simp: read_running_def Let_def split: if_splits)
  consider "receive_step env opts ms ?r = Inl e" |
    st1 where "receive_step env opts ms ?r = Inr st1" "receive_loop fuel env opts ms st1 = Inl e"
    using Suc.prems by (auto simp: read_running_def bind_Inl Let_def split: if_splits)
  then show ?case
  proof cases
    case 1
    then show ?thesis using receive_step_Inl by blast
  next
    case 2
    from receive_step_reads [OF 2(1)] have le: "Suc (tw_reads (rv_world st)) \<le> tw_reads (rv_world st1)" by auto
    have "Suc fuel \<le> N - tw_reads (rv_world st)"
      if "\<forall>n \<ge> N. \<not> te_running env n" "fuel \<le> N - tw_reads (rv_world st1)" for N
    proof -
      have "tw_reads (rv_world st) < N" using that(1) run by (meson not_less)
      with that(2) le show ?thesis by linarith
    qed
    with Suc.IH [OF 2(2)] show ?thesis by blast
  qed
qed

text \<open>As long as the manager has room for all numbers, exactly the new ones are counted, each once.\<close>

lemma counted_new:
  "card (set (ps @ qs)) \<le> unat N \<Longrightarrow>
     distinct (counted True (seen N ps) qs) \<and> set (counted True (seen N ps) qs) = set qs - set ps"
proof (induction qs arbitrary: ps)
  case Nil
  show ?case by simp
next
  case (Cons q qs)
  have "card {r \<in> set ps. q < r} < unat N" if "q \<in> set ps"
  proof -
    have "card {r \<in> set ps. q < r} < card (set ps)" using that by (intro psubset_card_mono) auto
    also have "\<dots> \<le> card (set (ps @ q # qs))" by (intro card_mono) auto
    finally show ?thesis using Cons.prems by simp
  qed
  then have new: "fst (is_packet_new q (seen N ps)) \<longleftrightarrow> q \<notin> set ps" using packet_window by blast
  have s: "seen N (ps @ [q]) = snd (is_packet_new q (seen N ps))" by (simp add: seen_def)
  have c: "counted True (seen N ps) (q # qs) = (if q \<notin> set ps then [q] else []) @ counted True (seen N (ps @ [q])) qs"
    by (simp add: new s case_prod_unfold Let_def)
  from Cons.IH [of "ps @ [q]"] Cons.prems show ?case unfolding c by auto
qed

subsection \<open>Descriptors\<close>

text \<open>Operations that neither open nor close a descriptor.\<close>

definition same_fds :: "kernel \<Rightarrow> kernel \<Rightarrow> bool" where
  "same_fds k k' \<longleftrightarrow> opened k' = opened k \<and> closed k' = closed k"

lemma same_fds_refl [simp]: "same_fds k k"
  by (simp add: same_fds_def)

lemma same_fds_trans: "same_fds k k1 \<Longrightarrow> same_fds k1 k2 \<Longrightarrow> same_fds k k2"
  by (simp add: same_fds_def)

lemma or_exit_fds:
  assumes "or_exit m f w = Inr w'" "\<And>k. socket_step ms k (f k)"
  shows "same_fds (tw_kernel w) (tw_kernel w')"
  using assms(1) step_lifetime [OF assms(2), of "tw_kernel w"] by (auto simp: or_exit_Inr same_fds_def)

lemma exec_steps:
  "socket_step ms k (set_reuse_port b ms k)" "socket_step ms k (set_multicast_all b ms k)" "socket_step ms k (bind_udp_socket a p ms k)"
  "socket_step ms k (set_receive_timeout t ms k)" "socket_step ms k (send_packet a p d ms k)" "socket_step ms k (set_ttl t ms k)"
  "socket_step ms k (join_group a i ms k)" "socket_step ms k (set_source_filter i a m l ms k)" "socket_step ms k (choose_if net i ms k)"
  by (auto simp: socket_op_defs step_choose_if intro!: step_when_valid step_by_family step_opt step_sys_ok)

lemma receive_call_fds: "same_fds (tw_kernel (rv_world st)) (tw_kernel (rv_world (receive_call env ms st)))"
  using receive_lifetime [of "Sys_recv (m_sock ms) 1471" "tw_kernel (rv_world st)"]
  by (simp add: receive_call_def receive_packet_def same_fds_def Let_def case_prod_unfold)

lemma receive_step_fds: "receive_step env opts ms st = Inr st' \<Longrightarrow> same_fds (tw_kernel (rv_world st)) (tw_kernel (rv_world st'))"
  using receive_call_fds [of st env ms]
  by (auto simp: receive_step_def read_running_def Let_def split: if_splits dest: handle_packet_Inr)

lemma receive_loop_fds: "receive_loop fuel env opts ms st = Inr st' \<Longrightarrow> same_fds (tw_kernel (rv_world st)) (tw_kernel (rv_world st'))"
proof (induction fuel arbitrary: st)
  case (Suc fuel)
  let ?r = "st\<lparr>rv_world := (rv_world st)\<lparr>tw_reads := Suc (tw_reads (rv_world st))\<rparr>\<rparr>"
  consider "st' = ?r" | st1 where "receive_step env opts ms ?r = Inr st1" "receive_loop fuel env opts ms st1 = Inr st'"
    using Suc.prems by (auto simp: read_running_def bind_Inr Let_def split: if_splits)
  then show ?case
  proof cases
    case 2
    from receive_step_fds [OF 2(1)] Suc.IH [OF 2(2)] show ?thesis by (auto intro: same_fds_trans)
  qed simp
qed simp

lemma send_step_fds: "send_step env opts ms start i st = Inr st' \<Longrightarrow> same_fds (tw_kernel (sn_world st)) (tw_kernel (sn_world st'))"
  by (auto simp: send_step_def read_clock_def bind_Inr Let_def split: if_splits dest!: or_exit_fds [OF _ exec_steps(5)])

lemma send_loop_fds: "send_loop fuel env opts ms start i st = Inr st' \<Longrightarrow> same_fds (tw_kernel (sn_world st)) (tw_kernel (sn_world st'))"
proof (induction fuel arbitrary: i st)
  case (Suc fuel)
  let ?r = "st\<lparr>sn_world := (sn_world st)\<lparr>tw_reads := Suc (tw_reads (sn_world st))\<rparr>\<rparr>"
  consider "st' = st" | "st' = ?r" |
    st1 where "send_step env opts ms start i ?r = Inr st1" "send_loop fuel env opts ms start (i + 1) st1 = Inr st'"
    using Suc.prems by (auto simp: read_running_def bind_Inr Let_def split: if_splits)
  then show ?case
  proof cases
    case 3
    from send_step_fds [OF 3(1)] Suc.IH [OF 3(2)] show ?thesis by (auto intro: same_fds_trans)
  qed simp_all
qed simp

lemma summarise_kernel: "summarise env rate a b c w = Inr (sm, w') \<Longrightarrow> tw_kernel w' = tw_kernel w"
  by (auto simp: summarise_def read_clock_def bind_Inr split: if_splits)

lemma open_file_kernel: "open_file env opts w = Inr w' \<Longrightarrow> tw_kernel w' = tw_kernel w"
  by (auto simp: open_file_def write_file_def Let_def split: if_splits)

lemma receive_data_fds: "receive_data fuel env opts ms pm w = Inr (pm', w') \<Longrightarrow> same_fds (tw_kernel w) (tw_kernel w')"
  unfolding receive_data_def
  by (auto simp: bind_Inr write_file_def Let_def split: if_splits
      dest!: open_file_kernel summarise_kernel receive_loop_fds or_exit_fds [OF _ exec_steps(1)] or_exit_fds [OF _ exec_steps(2)]
        or_exit_fds [OF _ exec_steps(3)] or_exit_fds [OF _ exec_steps(4)]) (simp_all add: same_fds_def)

lemma send_data_fds: "send_data fuel env opts ms c w = Inr (c', w') \<Longrightarrow> same_fds (tw_kernel w) (tw_kernel w')"
  unfolding send_data_def read_clock_def
  by (auto simp: bind_Inr Let_def dest!: summarise_kernel send_loop_fds or_exit_fds [OF _ exec_steps(6)] intro: same_fds_trans)

lemma run_action_fds: "run_action fuel env opts ms c pm w = Inr (c', pm', w') \<Longrightarrow> same_fds (tw_kernel w) (tw_kernel w')"
  by (auto simp: run_action_def join_test_group_def bind_Inr Let_def split: if_splits
      dest!: receive_data_fds send_data_fds or_exit_fds [OF _ exec_steps(7)] or_exit_fds [OF _ exec_steps(8)] or_exit_fds [OF _ exec_steps(9)]
      intro: same_fds_trans)

lemma get_mc_socket_fds:
  assumes "get_mc_socket af w = Inr (ms, w')"
  shows "m_own_socket ms \<and> closed (tw_kernel w') = closed (tw_kernel w)
    \<and> opened (tw_kernel w') = opened (tw_kernel w) @ (if is_udp_valid ms then [m_sock ms] else [])"
  using assms
  by (auto simp: get_mc_socket_def create_udp_ipv4_socket_def create_udp_ipv6_socket_def create_socket_def new_mc_socket_def
      is_udp_valid_def opened_sys Let_def case_prod_unfold split: if_splits)

lemma close_test_socket_fds:
  "m_own_socket ms \<Longrightarrow> opened (tw_kernel (close_test_socket ms w)) = opened (tw_kernel w)
     \<and> closed (tw_kernel (close_test_socket ms w)) = closed (tw_kernel w) @ (if is_udp_valid ms then [m_sock ms] else [])"
  by (simp add: close_test_socket_def close_socket_def opened_sys)

lemma start_timer_kernel: "tw_kernel (start_timer opts w) = tw_kernel w"
  by (simp add: start_timer_def)

lemma tester_run_Suc:
  assumes "tester_run fuel (Suc n) env cm to_do out c pm msg w = Inr (pm', w')"
  shows "\<exists>af ms w1 opts c1 pm1 w2 w3. get_mc_socket af w = Inr (ms, w1)
    \<and> run_action fuel env opts ms c pm (start_timer opts w1) = Inr (c1, pm1, w2)
    \<and> (tester_run fuel n env cm (o_to_do_next opts) out c1 pm1 msg (close_test_socket ms w2) = Inr (pm', w3) \<or> w3 = close_test_socket ms w2)
    \<and> w' = close_test_socket ms w3"
proof -
  have "has_group cm to_do" using assms by (cases "has_group cm to_do") simp_all
  with assms obtain ifn gaddr ms w1 opts c1 pm1 w2 w3 where
    "get_mc_socket (get_addr_family gaddr) w = Inr (ms, w1)"
    "run_action fuel env opts ms c pm (start_timer opts w1) = Inr (c1, pm1, w2)"
    "(if o_to_do_next opts \<noteq> ''null'' then tester_run fuel n env cm (o_to_do_next opts) out c1 pm1 msg (close_test_socket ms w2)
      else Inr (pm1, close_test_socket ms w2)) = Inr (pm', w3)" "w' = close_test_socket ms w3"
    by (auto simp: bind_Inr split del: if_split)
  then show ?thesis by (metis Inr_inject prod.inject)
qed

subsection \<open>Where the summary is undefined, and numbers that are not read\<close>

text \<open>Whoever asks for one packet, or receives all of them within one millisecond, divides by zero.\<close>

lemma receive_summary_defined:
  assumes "start \<noteq> 0" "start \<le> te_clock env (tw_clocks w)" "te_clock env (tw_clocks w) - start < 2 ^ 63"
  shows "(\<exists>r. summarise env (receive_rate pc) n d start w = Inr r) \<longleftrightarrow>
     te_clock env (tw_clocks w) \<noteq> start \<and> (uint pc div (te_clock env (tw_clocks w) - start)) * 1000 < 2 ^ 31"
proof -
  define t where "t = te_clock env (tw_clocks w) - start"
  have t: "0 \<le> t" "t < 2 ^ 63" using assms by (simp_all add: t_def)
  then have "uint (word_of_int t :: 64 word) = t" by (simp add: unsigned_of_int take_bit_int_eq_self)
  then have zero: "(word_of_int t :: 64 word) = 0 \<longleftrightarrow> t = 0" and "uint (pc div word_of_int t) = uint pc div t"
    by (metis unsigned_0 of_int_0, simp add: uint_div_distrib)
  moreover have "0 \<le> uint pc div t" using t(1) by (cases "t = 0") (simp_all add: pos_imp_zdiv_nonneg_iff)
  moreover have "te_clock env (tw_clocks w) = start \<longleftrightarrow> t = 0" by (simp add: t_def)
  ultimately show ?thesis
    using assms(1) t unfolding t_def [symmetric]
    by (auto simp: summarise_def read_clock_def receive_rate_def per_sec_def long_long_def t_def [symmetric])
qed

text \<open>Without time stamps the packet number is never read; all packets have the same one, and with duplicates ignored only
  the first is counted.\<close>

lemma unread_number:
  "\<not> (o_parse_time_stamp opts \<and> (o_include_data opts \<or> o_print_status_msg opts)) \<Longrightarrow> handle_packet env opts st = Inr st' \<Longrightarrow>
     rv_packet_number st' = rv_packet_number st"
  by (auto simp: handle_packet_def parse_time_def bind_Inr count_if_new_def count_packet_def Let_def case_prod_unfold split: if_splits)

subsection \<open>An example\<close>

definition ex_test_opts :: test_options where
  "ex_test_opts = \<lparr>o_if_name = ''eth0'', o_gaddr = Addr4 0xEF636363, o_max_count = 2, o_slist = [], o_action = ''send'',
     o_mfilter = INCLUDE_MODE, o_ttl = 10, o_port = 1234, o_busy_waiting_counter = 0, o_msg = ''hi'', o_interval = 0,
     o_print_status_msg = False, o_save_to_file = False, o_file_name = [], o_include_file_header = False, o_include_data = False,
     o_include_summary = False, o_ignore_duplicated_packets = False, o_parse_time_stamp = False, o_include_time_stamp = False,
     o_file_operation_mode = ''override'', o_lifetime = 0, o_to_do_next = ''null''\<rparr>"

definition ex_test_env :: test_env where
  "ex_test_env = \<lparr>te_net = ex_names, te_pton = \<lambda>af s. None, te_ini = \<lambda>f. None, te_can_open = \<lambda>f. True, te_running = \<lambda>n. True,
     te_clock = \<lambda>n. int n, te_byte = \<lambda>n i. CHR ''x''\<rparr>"

definition ex_test_world :: test_world where
  "ex_test_world = \<lparr>tw_kernel = \<lparr>k_result = \<lambda>n. 5, k_again = \<lambda>n. False, k_sources = \<lambda>n. (0, 0, \<lambda>i. Addr_Unspec),
       k_if_addr = \<lambda>n. Addr_Unspec, k_log = []\<rparr>,
     tw_reads = 0, tw_clocks = 0, tw_files = \<lambda>f. [], tw_out = [], tw_timers = [], tw_busy_waiting = 0\<rparr>"

definition ex_test_socket :: mc_socket where
  "ex_test_socket = \<lparr>m_sock = 4, m_addrFamily = AF_INET, m_own_socket = True\<rparr>"

definition ex_test_receiver :: receive_state where
  "ex_test_receiver = \<lparr>rv_buf = [], rv_info_size = 0, rv_packet_count = 0, rv_data_total_size = 0, rv_receive_start_time_stamp = 0,
     rv_send_time_stamp = 0, rv_packet_number = 0, rv_delay = 0, rv_receive_time_stamp = 0, rv_msg = [],
     rv_pmanager = new_packet_manager 1000, rv_world = ex_test_world\<rparr>"

lemmas ex_test_defs = ex_test_opts_def ex_test_env_def ex_test_world_def ex_test_socket_def ex_test_receiver_def

subsection \<open>Properties\<close>

text \<open>Every descriptor a run of the tester opens is closed twice, by the call at the end of its section and by
  the destructor of the socket when the function returns.\<close>

theorem tester_closes_twice:
  assumes "tester_run fuel n env cm to_do out c pm msg w = Inr (pm', w')"
  shows "\<exists>fds. opened (tw_kernel w') = opened (tw_kernel w) @ fds
    \<and> (\<forall>fd. count_list (closed (tw_kernel w')) fd = count_list (closed (tw_kernel w)) fd + 2 * count_list fds fd)"
  using assms
proof (induction n arbitrary: to_do c pm w w')
  case (Suc n)
  from tester_run_Suc [OF Suc.prems] obtain af ms w1 opts c1 pm1 w2 w3 where s: "get_mc_socket af w = Inr (ms, w1)"
    and a: "run_action fuel env opts ms c pm (start_timer opts w1) = Inr (c1, pm1, w2)"
    and n: "tester_run fuel n env cm (o_to_do_next opts) out c1 pm1 msg (close_test_socket ms w2) = Inr (pm', w3) \<or> w3 = close_test_socket ms w2"
    and w': "w' = close_test_socket ms w3" by blast
  have "\<exists>fds. opened (tw_kernel w3) = opened (tw_kernel (close_test_socket ms w2)) @ fds
      \<and> (\<forall>fd. count_list (closed (tw_kernel w3)) fd = count_list (closed (tw_kernel (close_test_socket ms w2))) fd + 2 * count_list fds fd)"
    using n Suc.IH by (auto intro: exI [of _ "[]"])
  then obtain fds where fds: "opened (tw_kernel w3) = opened (tw_kernel (close_test_socket ms w2)) @ fds"
    "\<And>fd. count_list (closed (tw_kernel w3)) fd = count_list (closed (tw_kernel (close_test_socket ms w2))) fd + 2 * count_list fds fd"
    by blast
  note own = get_mc_socket_fds [OF s]
  from run_action_fds [OF a] have "opened (tw_kernel w2) = opened (tw_kernel w1)" "closed (tw_kernel w2) = closed (tw_kernel w1)"
    by (simp_all add: same_fds_def start_timer_kernel)
  with fds own show ?case
    by (intro exI [of _ "(if is_udp_valid ms then [m_sock ms] else []) @ fds"]) (simp add: w' close_test_socket_fds)
qed simp

text \<open>C40: Sending: the packets go to the group and port of the settings, numbered without gaps behind the last
  number, each with its time; when the loop ends the number of packets is the one asked for, unless the
  program was told to stop; and it ends after that many rounds, or in the round in which it is told to stop, or when a packet
  cannot be sent.\<close>

theorem send_packets:
  "case send_loop fuel env opts ms start 0
      \<lparr>sn_current_packet_number = start, sn_data_total_size = 0, sn_send_msg = o_msg opts, sn_world = w\<rparr> of
     Inr st \<Rightarrow>
       (\<exists>m. sn_current_packet_number st = start + of_nat m
         \<and> k_log (tw_kernel (sn_world st)) = k_log (tw_kernel w) @
             map (message_call opts ms) (map (\<lambda>i. message_text env opts (start + of_nat (Suc i)) (tw_clocks w + i)) [0..<m])
         \<and> sn_data_total_size st =
             int (length (concat (map (\<lambda>i. message_text env opts (start + of_nat (Suc i)) (tw_clocks w + i)) [0..<m])))
         \<and> (o_max_count opts = 0 \<or> m \<le> unat (o_max_count opts))
         \<and> (o_max_count opts \<noteq> 0 \<and> m = unat (o_max_count opts) \<or> \<not> te_running env (tw_reads w + m)))
   | Inl e \<Rightarrow> e = Exit ''failed to send packet'' \<or> e = Undefined
       \<or> e = Out_of_fuel \<and> (o_max_count opts = 0 \<or> fuel \<le> unat (o_max_count opts))
           \<and> (\<forall>N. \<not> te_running env (tw_reads w + N) \<longrightarrow> fuel \<le> N)"
proof (cases "send_loop fuel env opts ms start 0
      \<lparr>sn_current_packet_number = start, sn_data_total_size = 0, sn_send_msg = o_msg opts, sn_world = w\<rparr>")
  case (Inl e)
  with send_loop_Inl [OF Inl] show ?thesis by simp
next
  case (Inr st)
  let ?max = "o_max_count opts"
  define st0 where "st0 = \<lparr>sn_current_packet_number = start, sn_data_total_size = 0, sn_send_msg = o_msg opts, sn_world = w\<rparr>"
  have "send_loop fuel env opts ms start (of_nat 0) st0 = Inr st" "o_include_time_stamp opts \<or> sn_send_msg st0 = o_msg opts"
    using Inr by (simp_all add: st0_def)
  from send_loop_Inr [OF this] obtain m where m':
    "sn_current_packet_number st = (if m = 0 then sn_current_packet_number st0 else start + of_nat (0 + m))"
    "k_log (tw_kernel (sn_world st)) = k_log (tw_kernel (sn_world st0)) @
        map (message_call opts ms) (messages env opts start (tw_clocks (sn_world st0)) 0 m)"
    "sn_data_total_size st = sn_data_total_size st0 + int (length (concat (messages env opts start (tw_clocks (sn_world st0)) 0 m)))"
    "\<forall>i < m. ?max = 0 \<or> of_nat (0 + i) < ?max"
    "?max \<noteq> 0 \<and> \<not> of_nat (0 + m) < ?max \<or> \<not> te_running env (tw_reads (sn_world st0) + m)" by blast
  note m = m' [unfolded st0_def send_state.simps add_0]
  have le: "m \<le> unat ?max" if "?max \<noteq> 0"
  proof (rule ccontr)
    assume "\<not> ?thesis"
    with m(4) that have "of_nat (unat ?max) < ?max" by (metis not_le)
    then show False by simp
  qed
  have eq: "m = unat ?max" if "?max \<noteq> 0" "\<not> of_nat m < ?max"
  proof -
    have "unat ?max < 2 ^ 64" using unsigned_less [of ?max] by simp
    with le [OF that(1)] have "unat (of_nat m :: 64 word) = m" by (simp only: unat_of_nat) simp
    with that le [OF that(1)] show ?thesis by (simp add: word_less_nat_alt)
  qed
  have "sn_current_packet_number st = start + of_nat m" using m(1) by simp
  moreover have "?max = 0 \<or> m \<le> unat ?max" "?max \<noteq> 0 \<and> m = unat ?max \<or> \<not> te_running env (tw_reads w + m)"
    using le eq m(5) by blast+
  ultimately show ?thesis using m(2,3) unfolding Inr sum.case messages_def add_0 by blast
qed

lemma send_packets_witness:
  "\<exists>st. send_loop 3 ex_test_env ex_test_opts ex_test_socket 7 0
      \<lparr>sn_current_packet_number = 7, sn_data_total_size = 0, sn_send_msg = o_msg ex_test_opts, sn_world = ex_test_world\<rparr> = Inr st
    \<and> sn_current_packet_number st = 9"
proof -
  let ?st0 = "\<lparr>sn_current_packet_number = 7, sn_data_total_size = 0, sn_send_msg = o_msg ex_test_opts, sn_world = ex_test_world\<rparr>"
  have "\<exists>st. send_loop 3 ex_test_env ex_test_opts ex_test_socket 7 0 ?st0 = Inr st"
    by (simp add: ex_test_defs numeral_3_eq_3 read_running_def send_step_def or_exit_def send_packet_def when_valid_def is_udp_valid_def
        sys_ok_def sys_def long_long_def string_bytes_def)
  then obtain st where st: "send_loop 3 ex_test_env ex_test_opts ex_test_socket 7 0 ?st0 = Inr st" by blast
  from send_packets [where fuel = 3 and env = ex_test_env and opts = ex_test_opts and ms = ex_test_socket and start = 7 and w = ex_test_world] obtain m where
    "sn_current_packet_number st = 7 + of_nat m" "m = 2"
    unfolding st by (auto simp: ex_test_defs)
  with st show ?thesis by simp
qed



end
