(* ===== verification/Sockaddr.thy ===== *)
theory Sockaddr
  imports Receivers Parser
begin

section \<open>The socket address inside an address (addr_storage.cpp)\<close>

text \<open>
  The class \<^verbatim>\<open>addr_storage\<close> keeps a \<^verbatim>\<open>sockaddr_storage\<close> and looks at it as \<^verbatim>\<open>sockaddr_in\<close> or \<^verbatim>\<open>sockaddr_in6\<close>.  Both begin with the
  family and the port; \<open>ss_data\<close> are the 24 bytes behind them: an IPv4 address is in the first four, which are the flow
  information of an IPv6 address, whose own 16 bytes follow, and then the scope.  The theory \<open>Addr_Storage\<close> works
  on the value of the address only; \<open>addr_view\<close> is that value, and the theorem \<open>sockaddr_assignments\<close> shows that
  the constructors and assignments give it and reset the port.
\<close>

record sockaddr_storage =
  ss_family :: addr_family
  ss_port :: u16
  ss_data :: "u8 list"

definition sa_ok :: "sockaddr_storage \<Rightarrow> bool" where
  "sa_ok s \<longleftrightarrow> length (ss_data s) = 24"

text \<open>Writing bytes at an offset.\<close>

definition put_bytes :: "nat \<Rightarrow> u8 list \<Rightarrow> sockaddr_storage \<Rightarrow> sockaddr_storage" where
  "put_bytes n bs s = s\<lparr>ss_data := take n (ss_data s) @ bs @ drop (n + length bs) (ss_data s)\<rparr>"

definition sa_clean :: "sockaddr_storage \<Rightarrow> sockaddr_storage" where
  "sa_clean s = put_bytes 20 [0, 0, 0, 0] (put_bytes 0 [0, 0, 0, 0] (s\<lparr>ss_family := AF_UNSPEC, ss_port := 0\<rparr>))"

definition sa_len :: "addr_family \<Rightarrow> nat" where
  "sa_len af = (case af of AF_INET \<Rightarrow> 16 | AF_INET6 \<Rightarrow> 28 | _ \<Rightarrow> 0)"

definition set_addr_family :: "addr_family \<Rightarrow> sockaddr_storage \<Rightarrow> sockaddr_storage" where
  "set_addr_family af s = s\<lparr>ss_family := af\<rparr>"

definition get_in_addr :: "sockaddr_storage \<Rightarrow> u8 list" where
  "get_in_addr s = take 4 (ss_data s)"

definition get_in6_addr :: "sockaddr_storage \<Rightarrow> u8 list" where
  "get_in6_addr s = take 16 (drop 4 (ss_data s))"

subsection \<open>Constructors and assignments\<close>

text \<open>The argument \<open>junk\<close> is the memory the object is made of.\<close>

definition sa_default :: "sockaddr_storage \<Rightarrow> sockaddr_storage" where
  "sa_default junk = sa_clean junk"

definition sa_of_family :: "addr_family \<Rightarrow> sockaddr_storage" where
  "sa_of_family af = set_addr_family af \<lparr>ss_family = AF_UNSPEC, ss_port = 0, ss_data = replicate 24 0\<rparr>"

definition sa_assign_storage :: "sockaddr_storage \<Rightarrow> sockaddr_storage \<Rightarrow> sockaddr_storage" where
  "sa_assign_storage s this = s"

text \<open>\<^verbatim>\<open>inet_pton\<close> gives the bytes it writes.\<close>

definition sa_assign_string :: "(addr_family \<Rightarrow> string \<Rightarrow> u8 list option) \<Rightarrow> string \<Rightarrow> sockaddr_storage \<Rightarrow> sockaddr_storage" where
  "sa_assign_string inet_pton s this =
     (let this = sa_clean this
      in if CHR '':'' \<notin> set s then
           (let this = set_addr_family AF_INET this
            in case inet_pton AF_INET s of None \<Rightarrow> sa_clean this | Some bs \<Rightarrow> put_bytes 0 bs this)
         else
           (let this = set_addr_family AF_INET6 this
            in case inet_pton AF_INET6 s of None \<Rightarrow> sa_clean this | Some bs \<Rightarrow> put_bytes 4 bs this))"

definition sa_assign_in_addr :: "u8 list \<Rightarrow> sockaddr_storage \<Rightarrow> sockaddr_storage" where
  "sa_assign_in_addr s this = put_bytes 0 s (set_addr_family AF_INET (sa_clean this))"

definition sa_assign_in6_addr :: "u8 list \<Rightarrow> sockaddr_storage \<Rightarrow> sockaddr_storage" where
  "sa_assign_in6_addr s this = put_bytes 4 s (set_addr_family AF_INET6 (sa_clean this))"

text \<open>\<^verbatim>\<open>operator=(const sockaddr&)\<close> copies as many bytes as the family of the source has; family and port are the first four.
  The assignments from \<^verbatim>\<open>sockaddr_in\<close> and \<^verbatim>\<open>sockaddr_in6\<close> end there.\<close>

definition sa_assign_sockaddr :: "sockaddr_storage \<Rightarrow> sockaddr_storage \<Rightarrow> sockaddr_storage" where
  "sa_assign_sockaddr s this =
     (let n = sa_len (ss_family s)
      in if n = 0 then this
         else put_bytes 0 (take (n - 4) (ss_data s)) (this\<lparr>ss_family := ss_family s, ss_port := ss_port s\<rparr>))"

subsection \<open>Ports\<close>

definition get_port :: "sockaddr_storage \<Rightarrow> u16" where
  "get_port s = ss_port s"

definition set_port :: "u16 \<Rightarrow> sockaddr_storage \<Rightarrow> sockaddr_storage" where
  "set_port port s = s\<lparr>ss_port := port\<rparr>"

text \<open>\<open>None\<close> stands for the exception of \<^verbatim>\<open>std::stoi\<close>; the number is cut to 16 bits.\<close>

definition set_port_string :: "string \<Rightarrow> sockaddr_storage \<Rightarrow> sockaddr_storage option" where
  "set_port_string port s = map_option (\<lambda>n. set_port (word_of_int n) s) (stoi port)"

definition get_addr_len :: "sockaddr_storage \<Rightarrow> nat" where
  "get_addr_len s = sa_len (ss_family s)"

subsection \<open>The value of the address\<close>

definition addr_view :: "sockaddr_storage \<Rightarrow> addr_storage" where
  "addr_view s =
     (case ss_family s of
        AF_INET \<Rightarrow> read_addr IGMP_RECEIVER (get_in_addr s) 0
      | AF_INET6 \<Rightarrow> read_addr MLD_RECEIVER (get_in6_addr s) 0
      | _ \<Rightarrow> Addr_Unspec)"

lemma put_bytes_ok: "sa_ok s \<Longrightarrow> n + length bs \<le> 24 \<Longrightarrow> sa_ok (put_bytes n bs s)"
  by (simp add: sa_ok_def put_bytes_def)

lemma put_bytes_fields [simp]: "ss_family (put_bytes n bs s) = ss_family s" "ss_port (put_bytes n bs s) = ss_port s"
  by (simp_all add: put_bytes_def)

lemma set_family_fields [simp]: "ss_family (set_addr_family af s) = af" "ss_port (set_addr_family af s) = ss_port s"
  by (simp_all add: set_addr_family_def)

lemma clean_ok: "sa_ok s \<Longrightarrow> sa_ok (sa_clean s) \<and> ss_family (sa_clean s) = AF_UNSPEC \<and> ss_port (sa_clean s) = 0"
  unfolding sa_clean_def by (intro conjI put_bytes_ok) (simp_all add: sa_ok_def)

lemma addr_view4: "sa_ok s \<Longrightarrow> length bs = 4 \<Longrightarrow> ss_family s = AF_INET \<Longrightarrow> addr_view (put_bytes 0 bs s) = read_addr IGMP_RECEIVER bs 0"
  by (simp add: addr_view_def get_in_addr_def put_bytes_def)

lemma addr_view6: "sa_ok s \<Longrightarrow> length bs = 16 \<Longrightarrow> ss_family s = AF_INET6 \<Longrightarrow> addr_view (put_bytes 4 bs s) = read_addr MLD_RECEIVER bs 0"
  by (simp add: addr_view_def get_in6_addr_def put_bytes_def sa_ok_def)

lemma read_addr_value: "get_addr_family a = kind_family k \<Longrightarrow> read_addr k (addr_bytes a) 0 = a"
  by (rule read_addr_bytes) (simp_all add: bytes_at_def)

text \<open>What \<^verbatim>\<open>inet_pton\<close> on addresses and on bytes have to do with each other.\<close>

definition pton_bytes :: "(addr_family \<Rightarrow> string \<Rightarrow> addr_storage option) \<Rightarrow> addr_family \<Rightarrow> string \<Rightarrow> u8 list option" where
  "pton_bytes pton af s = map_option addr_bytes (pton af s)"

lemma set_family_ok: "sa_ok s \<Longrightarrow> sa_ok (set_addr_family af s)"
  by (simp add: sa_ok_def set_addr_family_def)

lemma sa_assign_addr:
  assumes "sa_ok this"
  shows "get_addr_family a = AF_INET \<Longrightarrow> addr_view (sa_assign_in_addr (addr_bytes a) this) = a \<and> get_port (sa_assign_in_addr (addr_bytes a) this) = 0"
    and "get_addr_family a = AF_INET6 \<Longrightarrow> addr_view (sa_assign_in6_addr (addr_bytes a) this) = a \<and> get_port (sa_assign_in6_addr (addr_bytes a) this) = 0"
proof -
  have ok: "sa_ok (set_addr_family af (sa_clean this))" "ss_port (sa_clean this) = 0" for af
    using clean_ok [OF assms] set_family_ok by auto
  {
    assume a: "get_addr_family a = AF_INET"
    then have "length (addr_bytes a) = 4" using addr_bytes_length [of a IGMP_RECEIVER] by simp
    with ok a read_addr_value [of a IGMP_RECEIVER]
    show "addr_view (sa_assign_in_addr (addr_bytes a) this) = a \<and> get_port (sa_assign_in_addr (addr_bytes a) this) = 0"
      by (simp add: sa_assign_in_addr_def addr_view4 get_port_def)
  next
    assume a: "get_addr_family a = AF_INET6"
    then have "length (addr_bytes a) = 16" using addr_bytes_length [of a MLD_RECEIVER] by simp
    with ok a read_addr_value [of a MLD_RECEIVER]
    show "addr_view (sa_assign_in6_addr (addr_bytes a) this) = a \<and> get_port (sa_assign_in6_addr (addr_bytes a) this) = 0"
      by (simp add: sa_assign_in6_addr_def addr_view6 get_port_def)
  }
qed

lemma sa_assign_string_eq:
  assumes "\<forall>af. case pton af s of None \<Rightarrow> True | Some a \<Rightarrow> get_addr_family a = af" "sa_ok this"
  shows "addr_view (sa_assign_string (pton_bytes pton) s this) = addr_of_string pton s \<and> get_port (sa_assign_string (pton_bytes pton) s this) = 0"
proof (cases "CHR '':'' \<notin> set s")
  case True
  show ?thesis
  proof (cases "pton AF_INET s")
    case None
    have "sa_ok (set_addr_family AF_INET (sa_clean this))" using clean_ok [OF assms(2)] set_family_ok by blast
    from clean_ok [OF this] True None show ?thesis
      by (simp add: sa_assign_string_def pton_bytes_def addr_of_string_def addr_view_def get_port_def)
  next
    case (Some a)
    with spec [OF assms(1), of AF_INET] sa_assign_addr(1) [OF assms(2), of a] True show ?thesis
      by (simp add: sa_assign_string_def sa_assign_in_addr_def pton_bytes_def addr_of_string_def)
  qed
next
  case False
  show ?thesis
  proof (cases "pton AF_INET6 s")
    case None
    have "sa_ok (set_addr_family AF_INET6 (sa_clean this))" using clean_ok [OF assms(2)] set_family_ok by blast
    from clean_ok [OF this] False None show ?thesis
      by (simp add: sa_assign_string_def pton_bytes_def addr_of_string_def addr_view_def get_port_def)
  next
    case (Some a)
    with spec [OF assms(1), of AF_INET6] sa_assign_addr(2) [OF assms(2), of a] False show ?thesis
      by (simp add: sa_assign_string_def sa_assign_in6_addr_def pton_bytes_def addr_of_string_def)
  qed
qed

text \<open>Copying a socket address takes over value and port; one of another family is not copied at all, so the object keeps its
  old value.\<close>

lemma sa_assign_sockaddr_eq:
  assumes "sa_ok this" "sa_ok s"
  shows "if ss_family s = AF_UNSPEC then sa_assign_sockaddr s this = this
    else addr_view (sa_assign_sockaddr s this) = addr_view s \<and> get_port (sa_assign_sockaddr s this) = get_port s"
  using assms
  by (cases "ss_family s")
     (auto simp: sa_assign_sockaddr_def sa_len_def put_bytes_def addr_view_def get_in_addr_def get_in6_addr_def get_port_def sa_ok_def
       min_def)

subsection \<open>Properties\<close>

text \<open>The socket address inside of the object implements the addresses of \<open>Addr_Storage\<close>: the object made of a family, a text or an
  address has the value the operations there compute and the port 0; copying a socket address of a known family takes over value
  and port; setting a port changes nothing but the port.\<close>

theorem sockaddr_assignments:
  assumes "sa_ok this" "sa_ok s" "\<forall>af. case pton af str of None \<Rightarrow> True | Some a \<Rightarrow> get_addr_family a = af"
  shows "addr_view (sa_of_family af) = addr_of_family af"
    and "addr_view (sa_assign_string (pton_bytes pton) str this) = addr_of_string pton str"
    and "get_port (sa_assign_string (pton_bytes pton) str this) = 0"
    and "ss_family s \<noteq> AF_UNSPEC \<longrightarrow> addr_view (sa_assign_sockaddr s this) = addr_view s \<and> get_port (sa_assign_sockaddr s this) = get_port s"
    and "get_port (set_port p s) = p \<and> addr_view (set_port p s) = addr_view s"
proof -
  show "addr_view (sa_of_family af) = addr_of_family af"
    by (cases af) (simp_all add: addr_view_def sa_of_family_def set_addr_family_def get_in_addr_def get_in6_addr_def read32_def ntohl_def)
  show "addr_view (sa_assign_string (pton_bytes pton) str this) = addr_of_string pton str"
    "get_port (sa_assign_string (pton_bytes pton) str this) = 0"
    using sa_assign_string_eq [of pton str, OF assms(3,1)] by simp_all
  show "ss_family s \<noteq> AF_UNSPEC \<longrightarrow> addr_view (sa_assign_sockaddr s this) = addr_view s \<and> get_port (sa_assign_sockaddr s this) = get_port s"
    using sa_assign_sockaddr_eq [OF assms(1,2)] by simp
  show "get_port (set_port p s) = p \<and> addr_view (set_port p s) = addr_view s"
    by (simp add: get_port_def set_port_def addr_view_def get_in_addr_def get_in6_addr_def split: addr_family.split)
qed

end
