(* ===== verification/Check_If.thy ===== *)
theory Check_If
  imports Interfaces
begin

section \<open>Observation of interfaces (check_if.hpp, check_if.cpp)\<close>

text \<open>
  The class watches the running state of a list of interfaces: \<open>init\<close> reports the ones that are down, every \<open>check\<close> the ones that
  came up or went down since.  It keeps two copies of the properties of the interfaces in turn.  What \<^verbatim>\<open>getifaddrs\<close> and
  \<^verbatim>\<open>if_indextoname\<close> answer are arguments; \<open>None\<close> stands for following a null pointer, or the first element of an empty list, which the
  code does for an interface that has no name or no address any more.
\<close>

definition IFF_RUNNING :: u32 where
  "IFF_RUNNING = 0x40"

datatype prop_ptr = Property_a | Property_b | No_property

record check_if =
  ci_addr_family :: addr_family
  ci_if_property_a :: if_prop
  ci_if_property_b :: if_prop
  ci_current_prop :: prop_ptr
  ci_check_lst :: "u32 list"
  ci_swap_to_up :: "u32 list"
  ci_swap_to_down :: "u32 list"

text \<open>The flags of an interface; without a family of its own the IPv4 entry is used, as in \<open>check\<close>.\<close>

definition flags_of :: "addr_family \<Rightarrow> if_prop \<Rightarrow> string \<Rightarrow> u32 option" where
  "flags_of af p n =
     (case af of
        AF_INET6 \<Rightarrow> (case get_ip6_if p n of Some (e # es) \<Rightarrow> Some (ifa_flags e) | _ \<Rightarrow> None)
      | _ \<Rightarrow> map_option ifa_flags (get_ip4_if p n))"

definition runs_flag :: "u32 \<Rightarrow> bool" where
  "runs_flag flags \<longleftrightarrow> flags AND IFF_RUNNING \<noteq> 0"

fun init_loop :: "net_names \<Rightarrow> addr_family \<Rightarrow> if_prop \<Rightarrow> u32 list \<Rightarrow> u32 list option" where
  "init_loop net af p [] = Some []"
| "init_loop net af p (i # is) =
     (case if_indextoname net i of
        None \<Rightarrow> None
      | Some n \<Rightarrow>
          if af = AF_UNSPEC then Some []
          else
            (case flags_of af p n of
               None \<Rightarrow> None
             | Some flags \<Rightarrow> map_option (\<lambda>r. if \<not> runs_flag flags then i # r else r) (init_loop net af p is)))"

definition ci_init :: "net_names \<Rightarrow> ifaddrs list option \<Rightarrow> u32 list \<Rightarrow> addr_family \<Rightarrow> check_if \<Rightarrow> (u32 list \<times> check_if) option" where
  "ci_init net getifaddrs check_lst af c =
     (let c = c\<lparr>ci_check_lst := check_lst, ci_addr_family := af\<rparr>;
          (rc, p) = refresh_network_interfaces getifaddrs (ci_if_property_a c);
          c = c\<lparr>ci_if_property_a := p, ci_current_prop := Property_a\<rparr>
      in map_option (\<lambda>r. (r, c)) (init_loop net af p check_lst))"

text \<open>The loop of \<open>check\<close>: the interfaces that came up and those that went down.\<close>

fun check_loop :: "net_names \<Rightarrow> addr_family \<Rightarrow> if_prop \<Rightarrow> if_prop \<Rightarrow> u32 list \<Rightarrow> (u32 list \<times> u32 list) option" where
  "check_loop net af p_old p_new [] = Some ([], [])"
| "check_loop net af p_old p_new (i # is) =
     (case if_indextoname net i of
        None \<Rightarrow> None
      | Some n \<Rightarrow>
          (case (flags_of af p_new n, flags_of af p_old n) of
             (Some new, Some old) \<Rightarrow>
               map_option (\<lambda>(up, down).
                 if runs_flag (new XOR old)
                 then (if runs_flag new then (i # up, down) else (up, i # down))
                 else (up, down)) (check_loop net af p_old p_new is)
           | _ \<Rightarrow> None))"

definition ci_check :: "net_names \<Rightarrow> ifaddrs list option \<Rightarrow> check_if \<Rightarrow> (bool \<times> check_if) option" where
  "ci_check net getifaddrs c =
     (let c = c\<lparr>ci_swap_to_up := [], ci_swap_to_down := []\<rparr>
      in case ci_current_prop c of
           Property_a \<Rightarrow>
             (let (rc, p) = refresh_network_interfaces getifaddrs (ci_if_property_b c)
              in map_option (\<lambda>(up, down). (True, c\<lparr>ci_current_prop := Property_b, ci_if_property_b := p,
                   ci_swap_to_up := up, ci_swap_to_down := down\<rparr>))
                 (check_loop net (ci_addr_family c) (ci_if_property_a c) p (ci_check_lst c)))
         | Property_b \<Rightarrow>
             (let (rc, p) = refresh_network_interfaces getifaddrs (ci_if_property_a c)
              in map_option (\<lambda>(up, down). (True, c\<lparr>ci_current_prop := Property_a, ci_if_property_a := p,
                   ci_swap_to_up := up, ci_swap_to_down := down\<rparr>))
                 (check_loop net (ci_addr_family c) (ci_if_property_b c) p (ci_check_lst c)))
         | No_property \<Rightarrow> Some (False, c))"

definition swap_to_up :: "check_if \<Rightarrow> u32 list" where
  "swap_to_up c = ci_swap_to_up c"

definition swap_to_down :: "check_if \<Rightarrow> u32 list" where
  "swap_to_down c = ci_swap_to_down c"

subsection \<open>What a client knows\<close>

text \<open>The interfaces of the list that run according to the current copy of the properties.\<close>

definition current_prop :: "check_if \<Rightarrow> if_prop" where
  "current_prop c = (if ci_current_prop c = Property_b then ci_if_property_b c else ci_if_property_a c)"

definition runs :: "net_names \<Rightarrow> addr_family \<Rightarrow> if_prop \<Rightarrow> u32 \<Rightarrow> bool" where
  "runs net af p i \<longleftrightarrow> (\<exists>n flags. if_indextoname net i = Some n \<and> flags_of af p n = Some flags \<and> runs_flag flags)"

definition running_ifs :: "net_names \<Rightarrow> check_if \<Rightarrow> u32 set" where
  "running_ifs net c = {i \<in> set (ci_check_lst c). runs net (ci_addr_family c) (current_prop c) i}"

lemma init_loop_result:
  "init_loop net af p is = Some r \<Longrightarrow> af \<noteq> AF_UNSPEC \<Longrightarrow> set r = {i \<in> set is. \<not> runs net af p i}"
  by (induction "is" arbitrary: r) (auto simp: runs_def split: option.splits if_splits)

lemma runs_flag_bit: "runs_flag flags \<longleftrightarrow> bit flags 6"
proof -
  have "IFF_RUNNING = 2 ^ 6" by (simp add: IFF_RUNNING_def)
  then show ?thesis unfolding runs_flag_def by (metis and_exp_eq_0_iff_not_bit)
qed

lemma running_changed: "runs_flag (new XOR old) \<longleftrightarrow> runs_flag new \<noteq> runs_flag old"
  by (simp add: runs_flag_bit bit_xor_iff)

lemma check_loop_result:
  "check_loop net af p_old p_new is = Some (up, down) \<Longrightarrow>
     set up = {i \<in> set is. runs net af p_new i \<and> \<not> runs net af p_old i}
   \<and> set down = {i \<in> set is. \<not> runs net af p_new i \<and> runs net af p_old i}"
proof (induction "is" arbitrary: up down)
  case Nil
  then show ?case by simp
next
  case (Cons i is')
  then obtain n new old u d where r: "if_indextoname net i = Some n" "flags_of af p_new n = Some new" "flags_of af p_old n = Some old"
    "check_loop net af p_old p_new is' = Some (u, d)"
    "(up, down) = (if runs_flag new \<noteq> runs_flag old then (if runs_flag new then (i # u, d) else (u, i # d)) else (u, d))"
    by (auto simp: running_changed split: option.splits)
  have "runs net af p_new i = runs_flag new" "runs net af p_old i = runs_flag old" using r(1-3) by (simp_all add: runs_def)
  with Cons.IH [OF r(4)] r(5) show ?case by (auto split: if_splits)
qed

text \<open>A client that begins with the interfaces not reported as down, and adds and removes what every check reports.\<close>

inductive watched :: "net_names \<Rightarrow> u32 set \<Rightarrow> check_if \<Rightarrow> bool" for net where
  watched_init: "ci_init net getifaddrs lst af c = Some (down, c') \<Longrightarrow> af \<noteq> AF_UNSPEC \<Longrightarrow> watched net (set lst - set down) c'"
| watched_check: "watched net R c \<Longrightarrow> ci_check net getifaddrs c = Some (b, c') \<Longrightarrow>
     watched net (R \<union> set (swap_to_up c') - set (swap_to_down c')) c'"

text \<open>After any number of checks such a client knows exactly the interfaces that run.\<close>

theorem watched_interfaces: "watched net R c \<Longrightarrow> R = running_ifs net c \<and> ci_current_prop c \<noteq> No_property"
proof (induction rule: watched.induct)
  case (watched_init getifaddrs lst af c down c')
  then obtain p where "init_loop net af p lst = Some down" "ci_check_lst c' = lst" "ci_addr_family c' = af" "current_prop c' = p"
    "ci_current_prop c' = Property_a"
    by (auto simp: ci_init_def current_prop_def split: prod.splits)
  with init_loop_result [of net af p lst down] watched_init(2) show ?case by (auto simp: running_ifs_def)
next
  case (watched_check R c getifaddrs b c')
  then obtain p up down where l: "check_loop net (ci_addr_family c) (current_prop c) p (ci_check_lst c) = Some (up, down)"
    and c': "ci_check_lst c' = ci_check_lst c" "ci_addr_family c' = ci_addr_family c" "current_prop c' = p"
      "swap_to_up c' = up" "swap_to_down c' = down" "ci_current_prop c' \<noteq> No_property"
    by (cases "ci_current_prop c")
       (auto simp: ci_check_def current_prop_def swap_to_up_def swap_to_down_def split: prod.splits)
  from check_loop_result [OF l] c' watched_check.IH show ?case by (auto simp: running_ifs_def)
qed

end
