(* ===== verification/Receive_Thread.thy ===== *)
theory Receive_Thread
  imports Receivers Sockets
begin

section \<open>The thread of a receiver (receiver.cpp)\<close>

text \<open>
  The loop of \<^verbatim>\<open>worker_thread\<close> over the operations of \<open>Sockets\<close> and the packet analysis of \<open>Receivers\<close>.  What the other threads do
  between two rounds, setting \<^verbatim>\<open>m_running\<close> and registering interfaces, is the argument \<open>sh\<close>; what the kernel writes in a
  call of \<^verbatim>\<open>recvmsg\<close> is \<open>arrival\<close>, indexed by the number of the call like its result.  The loop runs until it is stopped, so
  it takes a number of rounds as fuel.
\<close>

record receiver_thread =
  m_running :: bool
  m_in_debug_testing_mode :: bool
  m_thread :: bool
  m_relevant_if_index :: "(u32, unit) smap"

definition receiver_start :: "receiver_thread \<Rightarrow> receiver_thread" where
  "receiver_start t = (if \<not> m_in_debug_testing_mode t then t\<lparr>m_running := True, m_thread := True\<rparr> else t)"

definition receiver_stop :: "receiver_thread \<Rightarrow> receiver_thread" where
  "receiver_stop t = t\<lparr>m_running := False\<rparr>"

subsection \<open>The virtual functions of the receivers\<close>

definition get_iov_min_size :: "receiver_kind \<Rightarrow> nat" where
  "get_iov_min_size k = (case k of IGMP_RECEIVER \<Rightarrow> igmp_iov_min_size | MLD_RECEIVER \<Rightarrow> mld_iov_min_size)"

definition analyse_packet ::
  "(u8 \<Rightarrow> u8 \<Rightarrow> nat) \<Rightarrow> net_names \<Rightarrow> interfaces \<Rightarrow> receiver_kind \<Rightarrow> (u32, unit) smap \<Rightarrow> u8 list \<Rightarrow> cmsg list \<Rightarrow> proxy_msg list \<times> bool" where
  "analyse_packet host16 net ifs k rel buf cs =
     (case k of
        IGMP_RECEIVER \<Rightarrow> igmp_analyse_packet net ifs rel buf
      | MLD_RECEIVER \<Rightarrow> mld_analyse_packet host16 ifs rel buf cs)"

subsection \<open>The loop\<close>

text \<open>A packet overwrites the beginning of the buffer only.\<close>

definition receive_into :: "u8 list \<Rightarrow> u8 list \<Rightarrow> u8 list" where
  "receive_into data buf = take (length buf) data @ drop (length data) buf"

record thread_state =
  iov_buf :: "u8 list"
  info_size :: int
  t_kernel :: kernel

text \<open>A round gives the messages sent to the instance and whether all reads were inside of the buffer.\<close>

definition worker_round ::
  "((u32, unit) smap \<Rightarrow> u8 list \<Rightarrow> cmsg list \<Rightarrow> proxy_msg list \<times> bool) \<Rightarrow> (nat \<Rightarrow> u8 list \<times> cmsg list) \<Rightarrow> mc_socket
     \<Rightarrow> receiver_thread \<Rightarrow> thread_state \<Rightarrow> (proxy_msg list \<times> bool) \<times> thread_state" where
  "worker_round analyse arrival s t st =
     (let n = length (k_log (t_kernel st)); ((rc, size), k) = receive_msg s (info_size st) (t_kernel st);
          st = st\<lparr>info_size := size, t_kernel := k\<rparr>
      in if \<not> rc then (([], True), st)
         else if size = 0 then (([], True), st)
         else
           (let (data, cs) = arrival n; buf = receive_into (take (nat size) data) (iov_buf st)
            in (analyse (m_relevant_if_index t) buf cs, st\<lparr>iov_buf := buf\<rparr>)))"

fun worker_loop ::
  "((u32, unit) smap \<Rightarrow> u8 list \<Rightarrow> cmsg list \<Rightarrow> proxy_msg list \<times> bool) \<Rightarrow> (nat \<Rightarrow> u8 list \<times> cmsg list) \<Rightarrow> mc_socket
     \<Rightarrow> (nat \<Rightarrow> receiver_thread) \<Rightarrow> nat \<Rightarrow> nat \<Rightarrow> thread_state \<Rightarrow> ((proxy_msg list \<times> bool) \<times> thread_state) option" where
  "worker_loop analyse arrival s sh 0 r st = None"
| "worker_loop analyse arrival s sh (Suc fuel) r st =
     (if \<not> m_running (sh r) then Some (([], True), st)
      else
        (let ((msgs, inside), st) = worker_round analyse arrival s (sh r) st
         in if \<not> inside then Some ((msgs, False), st)
            else map_option (\<lambda>((msgs', inside), st). ((msgs @ msgs', inside), st)) (worker_loop analyse arrival s sh fuel (Suc r) st)))"

text \<open>The buffer comes from \<^verbatim>\<open>new unsigned char[]\<close> and holds whatever was there before.\<close>

definition receive_thread ::
  "(u8 \<Rightarrow> u8 \<Rightarrow> nat) \<Rightarrow> net_names \<Rightarrow> interfaces \<Rightarrow> receiver_kind \<Rightarrow> (nat \<Rightarrow> u8) \<Rightarrow> (nat \<Rightarrow> u8 list \<times> cmsg list) \<Rightarrow> mc_socket
     \<Rightarrow> (nat \<Rightarrow> receiver_thread) \<Rightarrow> nat \<Rightarrow> kernel \<Rightarrow> ((proxy_msg list \<times> bool) \<times> thread_state) option" where
  "receive_thread host16 net ifs kind junk arrival s sh fuel k =
     worker_loop (analyse_packet host16 net ifs kind) arrival s sh fuel 0
       \<lparr>iov_buf = map junk [0..<get_iov_min_size kind], info_size = 0, t_kernel = k\<rparr>"

subsection \<open>What is received\<close>

text \<open>A packet on the wire that is a report of the records \<open>rs\<close> from interface \<open>i\<close>.\<close>

definition igmp_report :: "net_names \<Rightarrow> interfaces \<Rightarrow> u8 list \<Rightarrow> wire_record list \<Rightarrow> u32 \<Rightarrow> bool" where
  "igmp_report net ifs data rs i \<longleftrightarrow> 20 \<le> length data \<and> data ! 9 = 2 \<and> ntohs (data ! 2) (data ! 3) \<le> igmp_iov_min_size
     \<and> (\<exists>rest. length rest = 5
          \<and> bytes_at data (unat (data ! 0 AND 15) * 4) (report_header 0x22 rest (length rs) @ concat (map record_bytes rs)))
     \<and> i = get_if_index_addr net ifs (Addr4 (read32 data 12)) \<and> i \<noteq> 0"

definition mld_report :: "u8 list \<Rightarrow> cmsg list \<Rightarrow> wire_record list \<Rightarrow> u32 \<Rightarrow> bool" where
  "mld_report data cs rs i \<longleftrightarrow>
     (\<exists>rest. length rest = 5 \<and> bytes_at data 0 (report_header 143 rest (length rs) @ concat (map record_bytes rs)))
     \<and> find_pktinfo cs = Some i"

definition report_packet :: "net_names \<Rightarrow> interfaces \<Rightarrow> receiver_kind \<Rightarrow> u8 list \<times> cmsg list \<Rightarrow> wire_record list \<Rightarrow> u32 \<Rightarrow> bool" where
  "report_packet net ifs kind p rs i \<longleftrightarrow> length rs < 65536 \<and> (\<forall>r \<in> set rs. wire_ok kind r)
     \<and> (case kind of IGMP_RECEIVER \<Rightarrow> igmp_report net ifs (fst p) rs i | MLD_RECEIVER \<Rightarrow> mld_report (fst p) (snd p) rs i)"

text \<open>The messages of one round: none on a timeout, an error or an empty packet, otherwise those of a report.\<close>

definition round_gives ::
  "net_names \<Rightarrow> interfaces \<Rightarrow> receiver_kind \<Rightarrow> (nat \<Rightarrow> u8 list \<times> cmsg list) \<Rightarrow> receiver_thread \<Rightarrow> kernel \<Rightarrow> nat \<Rightarrow> proxy_msg list \<Rightarrow> bool" where
  "round_gives net ifs kind arrival t k n msgs \<longleftrightarrow>
     (if k_result k n = - 1 \<or> k_result k n = 0 then msgs = []
      else \<exists>rs i. k_result k n = int (length (fst (arrival n))) \<and> length (fst (arrival n)) \<le> get_iov_min_size kind
        \<and> report_packet net ifs kind (arrival n) rs i \<and> is_if_index_relevant (m_relevant_if_index t) i
        \<and> msgs = map (record_msg kind i) rs)"

lemma bytes_at_prefix: "bytes_at data pos bs \<Longrightarrow> bytes_at (data @ rest) pos bs"
  by (auto simp: bytes_at_def)

lemma read32_prefix: "pos + 4 \<le> length data \<Longrightarrow> read32 (data @ rest) pos = read32 data pos"
  by (simp add: read32_def nth_append)

text \<open>Behind a report the rest of the buffer does not matter.\<close>

lemma report_analysed:
  assumes "report_packet net ifs kind (data, cs) rs i" "is_if_index_relevant rel i" "get_iov_min_size kind \<le> length (data @ rest)"
  shows "analyse_packet host16 net ifs kind rel (data @ rest) cs = (map (record_msg kind i) rs, True)"
proof (cases kind)
  case IGMP_RECEIVER
  with assms(1) obtain hd where r: "length rs < 65536" "\<forall>r \<in> set rs. wire_ok IGMP_RECEIVER r" "length hd = 5" "20 \<le> length data"
    "data ! 9 = 2" "ntohs (data ! 2) (data ! 3) \<le> igmp_iov_min_size" "i = get_if_index_addr net ifs (Addr4 (read32 data 12))" "i \<noteq> 0"
    "bytes_at data (unat (data ! 0 AND 15) * 4) (report_header 0x22 hd (length rs) @ concat (map record_bytes rs))"
    by (auto simp: report_packet_def igmp_report_def)
  have b: "(data @ rest) ! m = data ! m" if "m < 20" for m using that r(4) by (simp add: nth_append)
  have at: "bytes_at (data @ rest) (unat ((data @ rest) ! 0 AND 15) * 4) (report_header 0x22 hd (length rs) @ concat (map record_bytes rs))"
    using bytes_at_prefix [OF r(9), of rest] b [of 0] by simp
  have "igmp_analyse_packet net ifs rel (data @ rest) = (map (record_msg IGMP_RECEIVER i) rs, True)"
    by (rule igmp_report_decoded [OF r(2,1,3) at _ _ _ _ r(8) assms(2)])
       (use r b [of 9] b [of 2] b [of 3] read32_prefix [of 12 data rest] in simp_all)
  then show ?thesis by (simp add: analyse_packet_def IGMP_RECEIVER)
next
  case MLD_RECEIVER
  with assms(1) obtain hd where r: "length rs < 65536" "\<forall>r \<in> set rs. wire_ok MLD_RECEIVER r" "length hd = 5" "find_pktinfo cs = Some i"
    "bytes_at data 0 (report_header 143 hd (length rs) @ concat (map record_bytes rs))"
    by (auto simp: report_packet_def mld_report_def)
  have "40 \<le> length (data @ rest)" using assms(3) MLD_RECEIVER by (simp add: get_iov_min_size_def mld_iov_min_size_def)
  from mld_report_decoded [OF r(2,1,3) bytes_at_prefix [OF r(5)] this r(4) assms(2)]
  show ?thesis by (simp add: analyse_packet_def MLD_RECEIVER)
qed

lemma receive_into_length: "length (receive_into data buf) = length buf"
  by (simp add: receive_into_def)

lemma worker_round_gives:
  assumes "round_gives net ifs kind arrival t k (length (k_log (t_kernel st))) msgs" "is_udp_valid s"
    and "length (iov_buf st) = get_iov_min_size kind" "k_result (t_kernel st) = k_result k"
  shows "\<exists>st'. worker_round (analyse_packet host16 net ifs kind) arrival s t st = ((msgs, True), st')
    \<and> length (iov_buf st') = get_iov_min_size kind \<and> k_result (t_kernel st') = k_result k
    \<and> length (k_log (t_kernel st')) = Suc (length (k_log (t_kernel st)))"
proof (cases "k_result k (length (k_log (t_kernel st))) \<in> {- 1, 0}")
  case True
  with assms show ?thesis by (auto simp: round_gives_def worker_round_def receive_msg_def receive_def sys_def Let_def)
next
  case False
  let ?n = "length (k_log (t_kernel st))"
  obtain data cs where a: "arrival ?n = (data, cs)" by (cases "arrival ?n")
  from False assms(1) a obtain rs i where r: "k_result k ?n = int (length data)" "length data \<le> get_iov_min_size kind"
    "report_packet net ifs kind (data, cs) rs i" "is_if_index_relevant (m_relevant_if_index t) i" "msgs = map (record_msg kind i) rs"
    by (auto simp: round_gives_def)
  have buf: "receive_into data (iov_buf st) = data @ drop (length data) (iov_buf st)"
    using r(2) assms(3) by (simp add: receive_into_def)
  have "analyse_packet host16 net ifs kind (m_relevant_if_index t) (receive_into data (iov_buf st)) cs = (msgs, True)"
    unfolding buf r(5) by (rule report_analysed [OF r(3,4)]) (use r(2) assms(3) in simp)
  with False a r(1) assms(2-4) show ?thesis
    by (simp add: worker_round_def receive_msg_def receive_def sys_def Let_def receive_into_length)
qed

lemma worker_loop_gives:
  assumes "is_udp_valid s" "\<forall>r < n. m_running (sh (r0 + r))" "\<not> m_running (sh (r0 + n))" "n < fuel"
    and "\<forall>r < n. round_gives net ifs kind arrival (sh (r0 + r)) k (length (k_log (t_kernel st)) + r) (msgs r)"
    and "length (iov_buf st) = get_iov_min_size kind" "k_result (t_kernel st) = k_result k"
  shows "\<exists>st'. worker_loop (analyse_packet host16 net ifs kind) arrival s sh fuel r0 st = Some ((concat (map msgs [0..<n]), True), st')"
  using assms(2-)
proof (induction n arbitrary: fuel r0 st msgs)
  case 0
  then show ?case by (cases fuel) simp_all
next
  case (Suc n)
  obtain fuel' where f: "fuel = Suc fuel'" "n < fuel'" using Suc.prems(3) by (cases fuel) auto
  obtain st' where st': "worker_round (analyse_packet host16 net ifs kind) arrival s (sh r0) st = ((msgs 0, True), st')"
    "length (iov_buf st') = get_iov_min_size kind" "k_result (t_kernel st') = k_result k"
    "length (k_log (t_kernel st')) = Suc (length (k_log (t_kernel st)))"
    using worker_round_gives [OF _ assms(1) Suc.prems(5,6), of net ifs arrival "sh r0" "msgs 0"] Suc.prems(4) by fastforce
  have "m_running (sh r0)" using Suc.prems(1) by (metis add.right_neutral zero_less_Suc)
  moreover have "\<exists>st''. worker_loop (analyse_packet host16 net ifs kind) arrival s sh fuel' (Suc r0) st'
      = Some ((concat (map (\<lambda>r. msgs (Suc r)) [0..<n]), True), st'')"
    by (rule Suc.IH [OF _ _ f(2) _ st'(2,3)]) (use Suc.prems st'(4) in force)+
  moreover have "[0..<Suc n] = 0 # map Suc [0..<n]" by (simp add: map_Suc_upt upt_conv_Cons del: upt_Suc)
  ultimately show ?case using f(1) st'(1) by (auto simp: o_def simp del: upt_Suc)
qed


text \<open>Two packets with a timeout between them; the second overwrites the first, and the thread is stopped after the third round.\<close>

definition ex_recv_kernel :: kernel where
  "ex_recv_kernel = \<lparr>k_result = (\<lambda>n. if n = 1 then - 1 else int (length ex_packet)), k_again = (\<lambda>n. n = 1),
     k_sources = (\<lambda>n. (0, 0, \<lambda>i. Addr_Unspec)), k_if_addr = (\<lambda>n. Addr_Unspec), k_log = []\<rparr>"

definition ex_recv_socket :: mc_socket where
  "ex_recv_socket = \<lparr>m_sock = 5, m_addrFamily = AF_INET, m_own_socket = True\<rparr>"

definition ex_thread :: "nat \<Rightarrow> receiver_thread" where
  "ex_thread r = (let t = receiver_start \<lparr>m_running = False, m_in_debug_testing_mode = False, m_thread = False,
     m_relevant_if_index = registrate_interface 2 []\<rparr> in if r < 3 then t else receiver_stop t)"

lemma ex_packet_report: "report_packet ex_names ex_interfaces IGMP_RECEIVER (ex_packet, []) [ex_wire] 2"
proof -
  have "get_if_index_addr ex_names ex_interfaces (Addr4 (read32 ex_packet 12)) = 2"
    by (simp add: ex_packet_def read32_def ntohl_def get_if_index_addr_def ex_interfaces_def ex_names_def
        subnet_holds_def ex_ifaddrs_def)
  moreover have "length [0, 0, 0, 0, 0 :: u8] = 5 \<and> bytes_at ex_packet (unat (ex_packet ! 0 AND 15) * 4)
      (report_header 0x22 [0, 0, 0, 0, 0] (length [ex_wire]) @ concat (map record_bytes [ex_wire]))"
    by (simp add: ex_packet_def bytes_at_def)
  moreover have "ntohs (ex_packet ! 2) (ex_packet ! 3) \<le> igmp_iov_min_size" "20 \<le> length ex_packet" "ex_packet ! 9 = 2"
    by (simp_all add: ex_packet_def ntohs_def igmp_iov_min_size_def)
  moreover have "\<forall>r \<in> set [ex_wire]. wire_ok IGMP_RECEIVER r" by (simp add: ex_wire_def wire_ok_def) presburger
  ultimately show ?thesis unfolding report_packet_def igmp_report_def by (auto intro!: exI [of _ "[0, 0, 0, 0, 0]"])
qed

lemma ex_packet_length: "length ex_packet = 48"
  by (simp add: ex_packet_def report_header_def record_bytes_def ex_wire_def htons_def word_bytes_def)


end
