(* ===== verification/Spec2Isabelle.thy ===== *)
theory Spec2Isabelle
  imports Start_Up Sockets Packets Binding_Print Rp_Filter Tester Sockaddr Check_If Receive_Thread
begin

text \<open>
  \<^bold>\<open>A verification of mcproxy.\<close>  mcproxy is a multicast proxy for IGMPv1--3 and MLDv1--2.  Each proxy instance has upstream and
  downstream interfaces.  On every downstream interface it is the querier of the network: it keeps, per group, which
  sources its hosts want.  From this state it computes the multicast routes it hands to the kernel and the
  memberships it reports upstream.

  \<^bold>\<open>Parts and theories\<close> (paths under \<^verbatim>\<open>src/mcproxy\<close>; C++ names are kept where HOL allows it).
  \<^item> \<open>Mc_Prelude\<close>: \<^verbatim>\<open>std::map\<close> and \<^verbatim>\<open>std::set\<close> as strictly sorted lists \<open>smap\<close>, the locale \<open>ordered_container\<close> with the laws their
    clients rely on, and its interpretation.  \<open>Decimal\<close>: printed integers.
  \<^item> \<open>Proto_Def\<close>, \<open>Addr_Storage\<close>, \<open>Timers_Values\<close> (\<^verbatim>\<open>def\<close>, \<^verbatim>\<open>addr_storage\<close>, \<^verbatim>\<open>timers_values\<close>): protocol versions, record types, the
    operators on source lists; addresses of both families at their widths with order, counting, masks; timer values with
    the codes of the protocols.  Round trips of the codes, subnets as intervals, prefixes for which a shift is undefined.
    \<open>Sockaddr\<close>: the socket address inside of an address, byte by byte, with its port; it implements the addresses.
  \<^item> \<open>Membership_Db\<close>, \<open>Timing\<close>, \<open>Sender\<close> (\<^verbatim>\<open>membership_db\<close>, \<^verbatim>\<open>timing\<close>, \<^verbatim>\<open>igmp_sender\<close>, \<^verbatim>\<open>mld_sender\<close>): groups, the database of
    pending timers, and what is sent.  The record \<open>world\<close> is the part of the process outside of an object: clock, timing
    database, identities of allocated timers, a log of calls of the sockets whose results are given by \<open>sock_rc\<close>, and whether
    a null pointer was followed.
  \<^item> \<open>Querier\<close>, \<open>Querier_Actions\<close>, \<open>Querier_Table\<close>, \<open>Querier_Inv\<close>, \<open>Querier_Run\<close>, \<open>Querier_Queries\<close> (\<^verbatim>\<open>querier\<close>): every handler.  The relation
    \<open>querier_run\<close> has the reachable states.  Receiving a record and expiring timers refine the state tables of RFC 3810; the
    database invariant, the null pointers, the forwarding rule and the cycles of queries are proved for all reachable states.
  \<^item> \<open>Interfaces\<close>, \<open>Rp_Filter\<close>, \<open>Routing\<close>, \<open>Routing_Data\<close> (\<^verbatim>\<open>interfaces\<close>, \<^verbatim>\<open>if_prop\<close>, \<^verbatim>\<open>reverse_path_filter\<close>, \<^verbatim>\<open>routing\<close>,
    \<^verbatim>\<open>simple_routing_data\<close>): numbers of virtual interfaces (locale \<open>vif_numbering\<close>), the reverse path filter, calls of the kernel, known sources
    (locale \<open>source_store\<close>).  \<open>Check_If\<close> (\<^verbatim>\<open>check_if\<close>): the observation of running interfaces; its reports add up to what runs.
  \<^item> \<open>Proxy_State\<close>, \<open>Memberships\<close>, \<open>Mc_Proxy_Routing\<close>, \<open>Routes\<close> (\<^verbatim>\<open>simple_mc_proxy_routing\<close>): which interfaces want a source, the routes,
    and the records sent upstream, with the rule matching types all, first and mutex (locale \<open>union_merge\<close>: merged records ask
    for the union).
  \<^item> \<open>Message_Queue\<close>, \<open>Proxy_Msg\<close>, \<open>Receivers\<close>, \<open>Proxy_Instance\<close>, \<open>Instance_Run\<close>, \<open>Instance_Routes\<close> (\<^verbatim>\<open>message_queue\<close>, \<^verbatim>\<open>worker\<close>,
    \<^verbatim>\<open>message_format\<close>, \<^verbatim>\<open>igmp_receiver\<close>, \<^verbatim>\<open>mld_receiver\<close>, \<^verbatim>\<open>proxy_instance\<close>): the priority queue as a step relation (locale \<open>job_queue\<close>:
    nothing is lost but loseable messages), packets decoded to messages, construction and message handling of an
    instance; \<open>instance_run\<close> has the reachable instances, whose invariant contains that of each of its queriers.
  \<^item> \<open>Interface_Rules\<close>, \<open>Scanner\<close>, \<open>Parser\<close>, \<open>Config_Print\<close>, \<open>Configuration\<close>, \<open>Binding_Print\<close> (\<^verbatim>\<open>parser/*\<close>): filters and their meaning as an
    inductive relation, scanner, recursive descent parser, comments and commands; matching ends for every accepted file, and what is
    printed is parsed back.
  \<^item> \<open>Start_Up\<close> (\<^verbatim>\<open>proxy\<close>, \<^verbatim>\<open>configuration\<close>): command line, from the text of the configuration file to configured instances, in whatever order
    a queue hands out the messages; main loop.
  \<^item> \<open>Sockets\<close>, \<open>Packets\<close> (\<^verbatim>\<open>mc_socket\<close>, \<^verbatim>\<open>mroute_socket\<close>, bytes of the queries): every operation as its system calls, the life of
    descriptors, the internet checksum, and the packets with their reader.
    \<open>Receive_Thread\<close> (\<^verbatim>\<open>receiver\<close>): the loop of the receiver thread, from the socket to the messages of the instance.
  \<^item> \<open>Config_Map\<close>, \<open>Test_Packets\<close>, \<open>Test_Settings\<close>, \<open>Tester\<close> (\<^verbatim>\<open>tester/*\<close>, \<^verbatim>\<open>main\<close>): the test program.  Its settings file is read as an abstract
    reading of the lines says, its packets are read back, and its loops count, number and end as they should; where a summary is
    undefined, and descriptors that are closed twice.
  \<^item> This theory: routes from the routing management down to the entry of the forwarding cache of the kernel.

  \<^bold>\<open>Conventions.\<close>  Objects are records, handlers functions that return the changed record and the changed world; exceptions are
  \<open>Inl\<close> of an error type; a null pointer that is followed sets \<open>crashed\<close> or gives \<open>None\<close>, and so does a read or write outside of
  an array.  \<^verbatim>\<open>unsigned\<close> values keep their width as words; durations are integers in milliseconds.  Shared pointers to timers are
  identities in the world.

  \<^bold>\<open>Bounds.\<close>  Parsing of nested tables takes fuel, one more than the tokens that are left; \<open>parse_table_ends\<close> shows that it never runs
  out.  Following table references takes fuel, at least the number of tables; \<open>filter_decides\<close> shows that this is enough for tables
  as the parser builds them.  The loops of the tester and of the receiver thread can run forever: their fuel is a number of rounds, and
  \<open>send_packets\<close>, \<open>receive_counts\<close> and \<open>receive_thread_delivers\<close> say how much is enough; the chain of its sections takes fuel too, since sections can name each other.  All other
  recursions are total.

  \<^bold>\<open>Parameters.\<close>  The kernel and the C library: \<^verbatim>\<open>inet_pton\<close>, \<^verbatim>\<open>inet_ntop\<close>, \<^verbatim>\<open>if_nametoindex\<close>, \<^verbatim>\<open>if_indextoname\<close>, \<^verbatim>\<open>getifaddrs\<close>, \<^verbatim>\<open>getopt\<close>,
  results of system calls and packet counters.

  \<^bold>\<open>Not modelled.\<close>  The start and join of threads, locks and condition variables (a worker handles one message at a time,
  which is how the code uses them; what other threads change between the rounds of a loop is an argument); the text of log messages and status output; \<^verbatim>\<open>check_kernel\<close>, which only prints; the \<^verbatim>\<open>test\<close> functions compiled in debug mode.
\<close>

section \<open>Routes as the kernel gets them\<close>

text \<open>The entry of the forwarding cache that a call of \<^verbatim>\<open>add_mroute\<close> passes to the kernel, as the numbers of the virtual
  interfaces that packets of the source leave on.\<close>

fun forwards_to :: "optval \<Rightarrow> nat set" where
  "forwards_to (Mfc_val m) = {n. n < length (mfcc_ttls m) \<and> mfcc_ttls m ! n > 0}"
| "forwards_to (Mf6c_val m) = {n. n < length (mf6cc_ifset m) \<and> mf6cc_ifset m ! n}"
| "forwards_to v = {}"

fun arrives_on :: "optval \<Rightarrow> nat option" where
  "arrives_on (Mfc_val m) = Some (unat (mfcc_parent m))"
| "arrives_on (Mf6c_val m) = Some (unat (mf6cc_parent m))"
| "arrives_on v = None"

lemma marked_set:
  "{n. n < length (map (\<lambda>n. if Q n then True else replicate m False ! n) [0..<m])
     \<and> map (\<lambda>n. if Q n then True else replicate m False ! n) [0..<m] ! n} = {n. n < m \<and> Q n}"
  by auto

lemma add_mroute_entry:
  assumes "is_udp_valid s" "m_addrFamily s \<noteq> AF_UNSPEC" "length outs \<le> 32" "set (v # outs) \<subseteq> {0..<32}"
  shows "\<exists>l opt e. add_mroute v a g outs s k = Some (setsockopt s l opt e k) \<and> arrives_on e = Some (nat v)
    \<and> forwards_to e = nat ` set outs"
proof -
  have r: "\<forall>e \<in> set outs. 0 \<le> e \<and> e < 32" "\<forall>e \<in> set outs. 0 \<le> e \<and> e < 256" and v: "0 \<le> v" "v < 32"
    using assms(4) by auto
  have u: "unat (word_of_int v :: u16) = nat v" using v by (simp add: unat_eq_nat_uint unsigned_of_int take_bit_eq_mod)
  have im: "{n. n < m \<and> int n \<in> set outs} = nat ` set outs" if "32 \<le> m" for m
  proof (intro equalityI subsetI)
    fix n assume "n \<in> nat ` set outs"
    then obtain e where "e \<in> set outs" "n = nat e" by auto
    with r(1) that show "n \<in> {n. n < m \<and> int n \<in> set outs}" by fastforce
  qed (metis (mono_tags, lifting) image_eqI mem_Collect_eq nat_int)
  show ?thesis
  proof (cases "m_addrFamily s")
    case AF_INET
    let ?e = "Mfc_val \<lparr>mfcc_origin = a, mfcc_mcastgrp = g, mfcc_parent = word_of_int v,
        mfcc_ttls = map (\<lambda>n. if int n \<in> set outs then MROUTE_DEFAULT_TTL else replicate 32 0 ! n) [0..<32]\<rparr>"
    have "add_mroute v a g outs s k = Some (setsockopt s IPPROTO_IP MRT_ADD_MFC ?e k)"
      using assms(1,3) r(1) AF_INET by (simp add: add_mroute_def mark_outputs_result MAXVIFS_def)
    moreover have "forwards_to ?e = {n. n < 32 \<and> int n \<in> set outs}" by (auto simp: MROUTE_DEFAULT_TTL_def split: if_splits)
    ultimately show ?thesis using u im [of 32] by fastforce
  next
    case AF_INET6
    let ?e = "Mf6c_val \<lparr>mf6cc_origin = a, mf6cc_mcastgrp = g, mf6cc_parent = word_of_int v,
        mf6cc_ifset = map (\<lambda>n. if int n \<in> set outs then True else replicate 256 False ! n) [0..<256]\<rparr>"
    have "add_mroute v a g outs s k = Some (setsockopt s IPPROTO_IPV6 MRT6_ADD_MFC ?e k)"
      using assms(1,3) r(2) AF_INET6 by (simp add: add_mroute_def mark_outputs_result MAXMIFS_def)
    moreover have "forwards_to ?e = nat ` set outs"
      unfolding forwards_to.simps mf6cctl.select_convs marked_set by (rule im) simp
    ultimately show ?thesis using u by (metis arrives_on.simps(2) mf6cctl.select_convs(3))
  qed (use assms(2) in simp)
qed


definition ex_mroute_socket :: mc_socket where
  "ex_mroute_socket = \<lparr>m_sock = 5, m_addrFamily = AF_INET, m_own_socket = True\<rparr>"


end
